(* ===== verification/Prelude.thy ===== *)
theory Prelude
  imports Complex_Main "HOL-Library.Word" "HOL-Library.Multiset"
begin

text \<open>
  Shared vocabulary of the development: names for the Go types the model uses, the
  collections the component theories fill, and generic lemmas on lists, maps and words.
  Go's \<open>string\<close> is an immutable byte sequence, so it is HOL's \<open>string\<close> (a list of 8-bit
  characters); \<open>[]byte\<close> is a list of \<open>8 word\<close>.  A Go map is a HOL map, and the random
  order of \<open>for range\<close> over it is an explicit list of its keys (\<open>range_order\<close>).
\<close>

named_theorems tier_simps \<open>unfolding rules of the tier manager's pure parts\<close>
named_theorems wire_simps \<open>rules that evaluate the wire encoders and decoders\<close>

type_synonym u64 = "64 word"
type_synonym i32 = "32 word"
type_synonym byte = "8 word"
type_synonym bytes = "8 word list"

text \<open>A \<open>time.Time\<close> is its instant in nanoseconds, counted from the zero \<open>Time\<close>; a
  \<open>time.Duration\<close> is a signed nanosecond count.\<close>

type_synonym go_time = int
type_synonym duration = int

abbreviation second :: duration where "second \<equiv> 1000000000"
abbreviation minute :: duration where "minute \<equiv> 60 * second"

abbreviation max_int64 :: int where "max_int64 \<equiv> 9223372036854775807"
abbreviation min_int64 :: int where "min_int64 \<equiv> - 9223372036854775808"

section \<open>Iteration over a Go map\<close>

text \<open>\<open>for range\<close> visits every key of a map once, in an order the program cannot choose.\<close>

definition range_order :: "('k \<rightharpoonup> 'v) \<Rightarrow> 'k list \<Rightarrow> bool" where
  "range_order m ks \<longleftrightarrow> distinct ks \<and> set ks = dom m"

lemma range_order_distinct: "range_order m ks \<Longrightarrow> distinct ks"
  by (simp add: range_order_def)

lemma range_order_set: "range_order m ks \<Longrightarrow> set ks = dom m"
  by (simp add: range_order_def)

lemma range_order_finite: "range_order m ks \<Longrightarrow> finite (dom m)"
  by (metis range_order_def List.finite_set)

lemma range_order_length: "range_order m ks \<Longrightarrow> length ks = card (dom m)"
  by (metis range_order_def distinct_card)

lemma range_order_dom: "dom m = dom m' \<Longrightarrow> range_order m ks = range_order m' ks"
  by (simp add: range_order_def)

lemma range_order_ex: "finite (dom m) \<Longrightarrow> \<exists>ks. range_order m ks"
  by (metis range_order_def finite_distinct_list)

text \<open>The values a loop over the map sees, in the order of the keys.\<close>

primrec entries_of :: "('k \<rightharpoonup> 'v) \<Rightarrow> 'k list \<Rightarrow> 'v list" where
  "entries_of m [] = []"
| "entries_of m (k # ks) = (case m k of None \<Rightarrow> entries_of m ks | Some v \<Rightarrow> v # entries_of m ks)"

lemma entries_of_cong: "(\<And>k. k \<in> set ks \<Longrightarrow> m k = m' k) \<Longrightarrow> entries_of m ks = entries_of m' ks"
  by (induction ks) (auto split: option.splits)

lemma set_entries_of: "set (entries_of m ks) = {v. \<exists>k \<in> set ks. m k = Some v}"
proof (induction ks)
  case (Cons k ks)
  then show ?case by (cases "m k") auto
qed simp

lemma set_entries_of_range: "range_order m ks \<Longrightarrow> set (entries_of m ks) = ran m"
  unfolding set_entries_of range_order_def ran_def dom_def by blast

lemma entries_of_eq_map: "set ks \<subseteq> dom m \<Longrightarrow> entries_of m ks = map (the \<circ> m) ks"
  by (induction ks) (auto split: option.splits)

text \<open>A loop that rewrites the entry of each key in turn, emitting output.\<close>

definition upd_loop :: "('v \<Rightarrow> 'v \<times> 'a list) \<Rightarrow> ('k \<rightharpoonup> 'v) \<times> 'a list \<Rightarrow> 'k \<Rightarrow> ('k \<rightharpoonup> 'v) \<times> 'a list" where
  "upd_loop f s k = (case s of (m, out) \<Rightarrow>
     (case m k of None \<Rightarrow> (m, out)
      | Some v \<Rightarrow> (case f v of (v', as) \<Rightarrow> (m(k \<mapsto> v'), out @ as))))"

lemma upd_loop_other: "k \<notin> set ks \<Longrightarrow> fst (foldl (upd_loop f) (m, out) ks) k = m k"
  by (induction ks arbitrary: m out) (auto simp: upd_loop_def split: option.splits prod.splits)

lemma upd_loop_fst:
  "distinct ks \<Longrightarrow> fst (foldl (upd_loop f) (m, out) ks) =
     (\<lambda>k. if k \<in> set ks then map_option (fst \<circ> f) (m k) else m k)"
proof (induction ks arbitrary: m out)
  case Nil
  then show ?case by simp
next
  case (Cons k ks)
  then show ?case
    by (auto simp: upd_loop_def fun_eq_iff split: option.splits prod.splits)
qed

lemma upd_loop_snd:
  "distinct ks \<Longrightarrow> snd (foldl (upd_loop f) (m, out) ks) =
     out @ concat (map (snd \<circ> f) (entries_of m ks))"
proof (induction ks arbitrary: m out)
  case Nil
  then show ?case by simp
next
  case (Cons k ks)
  have eq: "entries_of (m(k \<mapsto> v')) ks = entries_of m ks" for v'
    using Cons.prems by (intro entries_of_cong) auto
  show ?case
    using Cons by (auto simp: upd_loop_def eq split: option.splits prod.splits)
qed

section \<open>Counting\<close>

lemma length_filter_card:
  "distinct ks \<Longrightarrow> length (filter P ks) = card {k \<in> set ks. P k}"
  by (metis distinct_card distinct_filter set_filter)

lemma filter_entries_of_length:
  "set ks \<subseteq> dom m \<Longrightarrow> length (filter P (entries_of m ks)) = length (filter (\<lambda>k. P (the (m k))) ks)"
  by (induction ks) (auto split: option.splits)

end
