(* ===== verification/Bot_Types.thy ===== *)
theory Bot_Types
  imports Prelude
begin

text \<open>
  The leaf data types of \<open>lib/types/types.go\<close>: a bot's tier, its reference and the
  normalised inbound message every other component passes around.
\<close>

section \<open>Tiers\<close>

text \<open>The \<open>int8\<close> enumeration \<open>Cold = 0 < Warm < Hot\<close>; higher is more resources.\<close>

datatype tier = Cold | Warm | Hot

fun tier_int :: "tier \<Rightarrow> int" where
  "tier_int Cold = 0"
| "tier_int Warm = 1"
| "tier_int Hot = 2"

fun tier_String :: "tier \<Rightarrow> string" where
  "tier_String Hot = ''hot''"
| "tier_String Warm = ''warm''"
| "tier_String _ = ''cold''"

instantiation tier :: linorder
begin

definition less_eq_tier :: "tier \<Rightarrow> tier \<Rightarrow> bool" where
  "less_eq_tier a b \<longleftrightarrow> tier_int a \<le> tier_int b"

definition less_tier :: "tier \<Rightarrow> tier \<Rightarrow> bool" where
  "less_tier a b \<longleftrightarrow> tier_int a < tier_int b"

instance
proof
  fix a b :: tier
  show "a \<le> b \<Longrightarrow> b \<le> a \<Longrightarrow> a = b"
    by (cases a; cases b) (auto simp: less_eq_tier_def)
qed (auto simp: less_eq_tier_def less_tier_def)

end

lemma tier_String_inj: "tier_String a = tier_String b \<Longrightarrow> a = b"
  by (cases a; cases b) auto

section \<open>Bots and messages\<close>

record ChannelTrigger =
  Matcher :: string
  ChannelType :: string
  TriggerMode :: string
  Patterns :: "string list"

record BotRef =
  KeyID :: string
  TenantID :: string
  BotUserID :: string
  BotToken :: string
  WorkspaceID :: string
  BotVersionID :: string
  Plan :: string
  BotUsername :: string
  BotDisplayName :: string
  ChannelTriggers :: "ChannelTrigger list"
  CommandPrefixes :: "string list"

record Message =
  ChannelID :: string
  ClanID :: string
  MessageID :: string
  SenderID :: string
  Content :: string
  Mentions :: string
  Attachments :: string
  References :: string
  Username :: string
  Avatar :: string
  DisplayName :: string
  ClanNick :: string
  ChannelLabel :: string
  Mode :: i32
  IsPublic :: bool

text \<open>The zero values Go gives a declared variable.\<close>

definition BotRef0 :: BotRef where
  "BotRef0 = \<lparr>KeyID = '''', TenantID = '''', BotUserID = '''', BotToken = '''',
     WorkspaceID = '''', BotVersionID = '''', Plan = '''', BotUsername = '''',
     BotDisplayName = '''', ChannelTriggers = [], CommandPrefixes = []\<rparr>"

definition Message0 :: Message where
  "Message0 = \<lparr>ChannelID = '''', ClanID = '''', MessageID = '''', SenderID = '''',
     Content = '''', Mentions = '''', Attachments = '''', References = '''',
     Username = '''', Avatar = '''', DisplayName = '''', ClanNick = '''',
     ChannelLabel = '''', Mode = 0, IsPublic = False\<rparr>"

definition IsDM :: "Message \<Rightarrow> bool" where
  "IsDM m \<longleftrightarrow> ClanID m = '''' \<or> ClanID m = ''0''"

end
