(* ===== verification/Tier_Config.thy ===== *)
theory Tier_Config
  imports Bot_Types "HOL-Library.Signed_Division"
begin

text \<open>
  The configuration and the per-bot entry of \<open>lib/tier/manager.go\<close>.  The injected clock
  \<open>Now\<close> and heap gauge \<open>MemMB\<close> are inputs of the operations that read them, not fields.
  A \<open>float64\<close> operation is its exact real result followed by a rounding function \<open>rnd\<close>,
  which every definition takes as an argument: nothing proved here depends on which one it
  is, so it holds for IEEE double rounding and for exact arithmetic alike.
\<close>

type_synonym float64 = real

record Config =
  MaxHot :: int
  PressureHotCap :: int
  HotPerTenant :: int
  WarmPoll :: duration
  ColdPoll :: duration
  HotIdle :: duration
  WarmIdle :: duration
  Tick :: duration
  PlanWeight :: "(string \<rightharpoonup> float64) option"  \<comment> \<open>None is the nil map\<close>
  MemHighMB :: nat
  MemLowMB :: nat

definition default_plan_weight :: "string \<rightharpoonup> float64" where
  "default_plan_weight = [''starter'' \<mapsto> 1, ''pro'' \<mapsto> 2, ''enterprise'' \<mapsto> 3]"

definition withDefaults :: "Config \<Rightarrow> Config" where
  "withDefaults c = c\<lparr>
     MaxHot := (if MaxHot c \<le> 0 then 200 else MaxHot c),
     WarmPoll := (if WarmPoll c \<le> 0 then 20 * second else WarmPoll c),
     ColdPoll := (if ColdPoll c \<le> 0 then 3 * minute else ColdPoll c),
     HotIdle := (if HotIdle c \<le> 0 then 2 * minute else HotIdle c),
     WarmIdle := (if WarmIdle c \<le> 0 then 10 * minute else WarmIdle c),
     Tick := (if Tick c \<le> 0 then 2 * second else Tick c),
     PlanWeight := (case PlanWeight c of None \<Rightarrow> Some default_plan_weight | Some w \<Rightarrow> Some w)\<rparr>"

definition config_ok :: "Config \<Rightarrow> bool" where
  "config_ok c \<longleftrightarrow> 0 < MaxHot c \<and> 0 < WarmPoll c \<and> 0 < ColdPoll c \<and> 0 < HotIdle c \<and>
     0 < WarmIdle c \<and> 0 < Tick c \<and> PlanWeight c \<noteq> None"

lemma config_ok_withDefaults: "config_ok (withDefaults c)"
  by (simp add: config_ok_def withDefaults_def split: option.split)

lemma withDefaults_idem: "withDefaults (withDefaults c) = withDefaults c"
  by (simp add: withDefaults_def split: option.split)

lemma withDefaults_caps [simp]:
  "HotPerTenant (withDefaults c) = HotPerTenant c"
  "PressureHotCap (withDefaults c) = PressureHotCap c"
  "MemHighMB (withDefaults c) = MemHighMB c"
  by (simp_all add: withDefaults_def)

section \<open>A bot's entry\<close>

record entry =
  e_bot :: BotRef
  e_tier :: tier
  e_lastActivity :: go_time
  e_rate :: float64
  e_score :: float64
  e_nextPoll :: go_time

abbreviation e_key :: "entry \<Rightarrow> string" where "e_key e \<equiv> KeyID (e_bot e)"
abbreviation e_tenant :: "entry \<Rightarrow> string" where "e_tenant e \<equiv> TenantID (e_bot e)"

section \<open>Time arithmetic\<close>

text \<open>\<open>Time.Sub\<close> saturates at the ends of \<open>int64\<close>; the zero time is instant 0.\<close>

definition time_Sub :: "go_time \<Rightarrow> go_time \<Rightarrow> duration" where
  "time_Sub t u = max min_int64 (min max_int64 (t - u))"

definition time_IsZero :: "go_time \<Rightarrow> bool" where
  "time_IsZero t \<longleftrightarrow> t = 0"

text \<open>\<open>Duration.Seconds\<close>: whole seconds and the remainder, as floats.\<close>

definition Seconds :: "(real \<Rightarrow> real) \<Rightarrow> duration \<Rightarrow> float64" where
  "Seconds rnd d = rnd (rnd (real_of_int (d sdiv second)) +
                        rnd (rnd (real_of_int (d smod second)) / rnd 1000000000))"

lemma time_Sub_self [simp]: "time_Sub t t = 0"
  by (simp add: time_Sub_def)

lemma time_Sub_le: "u \<le> t \<Longrightarrow> time_Sub t u \<le> t - u"
  by (simp add: time_Sub_def)

lemma time_Sub_gt: "d < max_int64 \<Longrightarrow> d < t - u \<Longrightarrow> d < time_Sub t u"
  by (auto simp: time_Sub_def)

lemma time_Sub_gt_iff: "min_int64 \<le> d \<Longrightarrow> d < max_int64 \<Longrightarrow> d < time_Sub t u \<longleftrightarrow> d < t - u"
  by (auto simp: time_Sub_def)

end
