(* ===== verification/Score_Heap.thy ===== *)
theory Score_Heap
  imports Tier_Config
begin

text \<open>
  The max-heap of \<open>lib/tier/pq.go\<close>: the five methods of \<open>scoreHeap\<close>, and the two
  algorithms of Go's \<open>container/heap\<close> that call them, \<open>Init\<close> and \<open>Pop\<close>, on the
  slice as an indexed list.  The locale \<open>max_queue\<close> states what a priority queue
  promises its client; the heap is its interpretation.
\<close>

section \<open>The interface\<close>

locale max_queue =
  fixes qinit :: "'a list \<Rightarrow> 'q"
    and qlen :: "'q \<Rightarrow> nat"
    and qpop :: "'q \<Rightarrow> 'a \<times> 'q"
    and qelems :: "'q \<Rightarrow> 'a multiset"
    and qinv :: "'q \<Rightarrow> bool"
    and prio :: "'a \<Rightarrow> 'b::linorder"
  assumes init_elems: "qelems (qinit xs) = mset xs"
    and init_inv: "qinv (qinit xs)"
    and len_elems: "qlen q = size (qelems q)"
    and pop_elems: "qinv q \<Longrightarrow> 0 < qlen q \<Longrightarrow> qelems q = add_mset (fst (qpop q)) (qelems (snd (qpop q)))"
    and pop_max: "qinv q \<Longrightarrow> 0 < qlen q \<Longrightarrow> y \<in># qelems q \<Longrightarrow> prio y \<le> prio (fst (qpop q))"
    and pop_inv: "qinv q \<Longrightarrow> 0 < qlen q \<Longrightarrow> qinv (snd (qpop q))"
begin

text \<open>\<open>pops q xs\<close>: popping until the queue is empty yields \<open>xs\<close>.\<close>

inductive pops :: "'q \<Rightarrow> 'a list \<Rightarrow> bool" where
  pops_empty: "qlen q = 0 \<Longrightarrow> pops q []"
| pops_step: "0 < qlen q \<Longrightarrow> pops (snd (qpop q)) xs \<Longrightarrow> pops q (fst (qpop q) # xs)"

lemma pop_len: "qinv q \<Longrightarrow> 0 < qlen q \<Longrightarrow> qlen q = Suc (qlen (snd (qpop q)))"
  by (simp add: len_elems pop_elems [unfolded len_elems])

lemma pops_ex: "qinv q \<Longrightarrow> \<exists>xs. pops q xs"
proof (induction "qlen q" arbitrary: q)
  case 0
  then show ?case using pops_empty by force
next
  case (Suc n)
  then have "0 < qlen q" by simp
  then obtain xs where "pops (snd (qpop q)) xs"
    using Suc pop_len pop_inv by (metis nat.inject)
  then show ?case using \<open>0 < qlen q\<close> pops_step by blast
qed

lemma pops_mset: "pops q xs \<Longrightarrow> qinv q \<Longrightarrow> mset xs = qelems q"
proof (induction rule: pops.induct)
  case (pops_empty q)
  then show ?case by (simp add: len_elems)
next
  case (pops_step q xs)
  then show ?case by (metis mset.simps(2) pop_elems pop_inv)
qed

lemma pops_sorted: "pops q xs \<Longrightarrow> qinv q \<Longrightarrow> sorted_wrt (\<lambda>x y. prio y \<le> prio x) xs"
proof (induction rule: pops.induct)
  case (pops_step q xs)
  have "prio y \<le> prio (fst (qpop q))" if "y \<in> set xs" for y
  proof -
    have "y \<in># qelems (snd (qpop q))"
      using that pops_mset [OF pops_step.hyps(2)] pop_inv pops_step.prems pops_step.hyps(1)
      by (metis set_mset_mset)
    then show ?thesis
      using pop_max pop_elems pops_step.prems pops_step.hyps(1)
      by (metis insert_iff set_mset_add_mset_insert)
  qed
  then show ?case using pops_step pop_inv by simp
qed simp

lemma pops_init:
  "pops (qinit ys) xs \<Longrightarrow> mset xs = mset ys \<and> sorted_wrt (\<lambda>x y. prio y \<le> prio x) xs"
  using pops_mset pops_sorted init_inv init_elems by metis

end

section \<open>The methods of scoreHeap\<close>

type_synonym scoreHeap = "entry list"

definition heap_Len :: "scoreHeap \<Rightarrow> nat" where
  "heap_Len h = length h"

definition heap_Less :: "scoreHeap \<Rightarrow> nat \<Rightarrow> nat \<Rightarrow> bool" where
  "heap_Less h i j \<longleftrightarrow> e_score (h ! i) > e_score (h ! j)"

definition heap_Swap :: "scoreHeap \<Rightarrow> nat \<Rightarrow> nat \<Rightarrow> scoreHeap" where
  "heap_Swap h i j = h[i := h ! j, j := h ! i]"

definition heap_Push :: "scoreHeap \<Rightarrow> entry \<Rightarrow> scoreHeap" where
  "heap_Push h x = h @ [x]"

definition heap_PopLast :: "scoreHeap \<Rightarrow> entry \<times> scoreHeap" where
  "heap_PopLast h = (let n = length h in (h ! (n - 1), take (n - 1) h))"

section \<open>container/heap\<close>

function heap_down :: "scoreHeap \<Rightarrow> nat \<Rightarrow> nat \<Rightarrow> scoreHeap" where
  "heap_down h i n =
     (let j1 = 2 * i + 1 in
      if j1 \<ge> n then h
      else (let j = (if j1 + 1 < n \<and> heap_Less h (j1 + 1) j1 then j1 + 1 else j1) in
            if \<not> heap_Less h j i then h
            else heap_down (heap_Swap h i j) j n))"
  by pat_completeness auto
termination
  by (relation "measure (\<lambda>(h, i, n). n - i)") (auto simp: Let_def split: if_splits)

declare heap_down.simps [simp del]

text \<open>\<open>for i := n/2 - 1; i >= 0; i--\<close>: \<open>heap_Init_from h n k\<close> runs it from \<open>i = k - 1\<close>.\<close>

primrec heap_Init_from :: "scoreHeap \<Rightarrow> nat \<Rightarrow> nat \<Rightarrow> scoreHeap" where
  "heap_Init_from h n 0 = h"
| "heap_Init_from h n (Suc i) = heap_Init_from (heap_down h i n) n i"

definition heap_Init :: "scoreHeap \<Rightarrow> scoreHeap" where
  "heap_Init h = heap_Init_from h (heap_Len h) (heap_Len h div 2)"

definition heap_Pop :: "scoreHeap \<Rightarrow> entry \<times> scoreHeap" where
  "heap_Pop h = (let n = heap_Len h - 1 in heap_PopLast (heap_down (heap_Swap h 0 n) 0 n))"

section \<open>The heap order\<close>

text \<open>Every edge whose parent is at \<open>k\<close> or later, among the first \<open>n\<close> slots, is in order.\<close>

definition is_child :: "nat \<Rightarrow> nat \<Rightarrow> bool" where
  "is_child p c \<longleftrightarrow> c = 2 * p + 1 \<or> c = 2 * p + 2"

definition heap_from :: "nat \<Rightarrow> nat \<Rightarrow> scoreHeap \<Rightarrow> bool" where
  "heap_from k n h \<longleftrightarrow> (\<forall>p c. k \<le> p \<longrightarrow> c < n \<longrightarrow> is_child p c \<longrightarrow>
     e_score (h ! c) \<le> e_score (h ! p))"

text \<open>The same with node \<open>i\<close> out of place: its edges may be wrong, but its children are
  below its parent.\<close>

definition heap_hole :: "nat \<Rightarrow> nat \<Rightarrow> nat \<Rightarrow> scoreHeap \<Rightarrow> bool" where
  "heap_hole k i n h \<longleftrightarrow>
     (\<forall>p c. k \<le> p \<longrightarrow> p \<noteq> i \<longrightarrow> c < n \<longrightarrow> is_child p c \<longrightarrow>
        e_score (h ! c) \<le> e_score (h ! p)) \<and>
     (\<forall>p c. k \<le> p \<longrightarrow> is_child p i \<longrightarrow> c < n \<longrightarrow> is_child i c \<longrightarrow>
        e_score (h ! c) \<le> e_score (h ! p))"

lemma heap_fromD:
  "heap_from k n h \<Longrightarrow> k \<le> p \<Longrightarrow> c < n \<Longrightarrow> is_child p c \<Longrightarrow> e_score (h ! c) \<le> e_score (h ! p)"
  by (simp add: heap_from_def)

lemma heap_holeD:
  "heap_hole k i n h \<Longrightarrow> k \<le> p \<Longrightarrow> p \<noteq> i \<Longrightarrow> c < n \<Longrightarrow> is_child p c \<Longrightarrow>
     e_score (h ! c) \<le> e_score (h ! p)"
  "heap_hole k i n h \<Longrightarrow> k \<le> p \<Longrightarrow> is_child p i \<Longrightarrow> c < n \<Longrightarrow> is_child i c \<Longrightarrow>
     e_score (h ! c) \<le> e_score (h ! p)"
  by (simp_all add: heap_hole_def)

lemma is_child_gt: "is_child p c \<Longrightarrow> p < c"
  by (auto simp: is_child_def)

lemma is_child_unique: "is_child p c \<Longrightarrow> is_child q c \<Longrightarrow> p = q"
  by (auto simp: is_child_def)

lemma heap_Swap_length [simp]: "length (heap_Swap h i j) = length h"
  by (simp add: heap_Swap_def)

lemma heap_Swap_nth:
  "i < length h \<Longrightarrow> j < length h \<Longrightarrow>
   heap_Swap h i j ! k = (if k = j then h ! i else if k = i then h ! j else h ! k)"
  by (auto simp: heap_Swap_def nth_list_update)

lemma heap_Swap_mset [simp]:
  "i < length h \<Longrightarrow> j < length h \<Longrightarrow> mset (heap_Swap h i j) = mset h"
  by (simp add: heap_Swap_def mset_swap)

lemma heap_down_length [simp]: "length (heap_down h i n) = length h"
proof (induction h i n rule: heap_down.induct)
  case (1 h i n)
  then show ?case by (subst heap_down.simps) (auto simp: Let_def)
qed

lemma heap_down_mset: "n \<le> length h \<Longrightarrow> mset (heap_down h i n) = mset h"
proof (induction h i n rule: heap_down.induct)
  case (1 h i n)
  then show ?case by (subst heap_down.simps) (auto simp: Let_def)
qed

lemma heap_down_above: "n \<le> length h \<Longrightarrow> n \<le> k \<Longrightarrow> heap_down h i n ! k = h ! k"
proof (induction h i n rule: heap_down.induct)
  case (1 h i n)
  then show ?case
    by (subst heap_down.simps) (auto simp: Let_def heap_Swap_nth)
qed

text \<open>The larger child moves up: the hole moves to where it was.\<close>

lemma heap_hole_swap:
  assumes hole: "heap_hole k i n h" and len: "n \<le> length h" and k: "k \<le> i"
    and j: "j < n" "is_child i j"
    and up: "e_score (h ! i) < e_score (h ! j)"
    and big: "\<And>c. c < n \<Longrightarrow> is_child i c \<Longrightarrow> e_score (h ! c) \<le> e_score (h ! j)"
  shows "heap_hole k j n (heap_Swap h i j)"
proof -
  have ij: "i < j" "j < length h" using len j is_child_gt by auto
  let ?h = "heap_Swap h i j"
  have nth: "?h ! x = (if x = j then h ! i else if x = i then h ! j else h ! x)" for x
    using ij by (simp add: heap_Swap_nth)
  have A: "e_score (?h ! c) \<le> e_score (?h ! p)"
    if *: "k \<le> p" "p \<noteq> j" "c < n" "is_child p c" for p c
  proof (cases "p = i")
    case True
    then show ?thesis using * big [of c] up ij by (auto simp: nth)
  next
    case False
    have "c \<noteq> j" using False is_child_unique j *(4) by auto
    moreover have "e_score (h ! j) \<le> e_score (h ! p)" if "c = i"
      using heap_holeD(2) [OF hole *(1)] that *(4) j by simp
    ultimately show ?thesis
      using False * heap_holeD(1) [OF hole *(1) False] by (simp add: nth)
  qed
  have B: "e_score (?h ! c) \<le> e_score (?h ! p)"
    if *: "k \<le> p" "is_child p j" "c < n" "is_child j c" for p c
  proof -
    have "p = i" using * j is_child_unique by blast
    moreover have "e_score (h ! c) \<le> e_score (h ! j)"
      using heap_holeD(1) [OF hole, of j c] * ij k by simp
    moreover have "j < c" using *(4) is_child_gt by blast
    ultimately show ?thesis using ij by (simp add: nth)
  qed
  show ?thesis unfolding heap_hole_def using A B by blast
qed

lemma heap_hole_done:
  assumes "heap_hole k i n h"
    and "\<And>c. c < n \<Longrightarrow> is_child i c \<Longrightarrow> e_score (h ! c) \<le> e_score (h ! i)"
  shows "heap_from k n h"
  using assms unfolding heap_hole_def heap_from_def by metis

lemma heap_down_heap:
  "heap_hole k i n h \<Longrightarrow> n \<le> length h \<Longrightarrow> k \<le> i \<Longrightarrow> heap_from k n (heap_down h i n)"
proof (induction h i n rule: heap_down.induct)
  case (1 h i n)
  define j1 where "j1 = 2 * i + 1"
  define j where "j = (if j1 + 1 < n \<and> heap_Less h (j1 + 1) j1 then j1 + 1 else j1)"
  have unfold: "heap_down h i n = (if j1 \<ge> n then h else if \<not> heap_Less h j i then h
      else heap_down (heap_Swap h i j) j n)"
    unfolding j1_def j_def by (subst heap_down.simps) (simp only: Let_def)
  have big: "e_score (h ! c) \<le> e_score (h ! j)" if "c < n" "is_child i c" for c
    using that by (auto simp: j_def j1_def heap_Less_def is_child_def)
  consider "j1 \<ge> n" | "j1 < n" "\<not> heap_Less h j i" | "j1 < n" "heap_Less h j i" by linarith
  then show ?case
  proof cases
    case 1
    have "heap_from k n h"
      using "1.prems"(1) by (rule heap_hole_done) (use 1 j1_def is_child_def in auto)
    then show ?thesis using 1 by (simp add: unfold)
  next
    case 2
    have "heap_from k n h" using "1.prems"(1)
    proof (rule heap_hole_done)
      fix c assume "c < n" "is_child i c"
      then show "e_score (h ! c) \<le> e_score (h ! i)" using big 2 by (force simp: heap_Less_def)
    qed
    then show ?thesis using 2 by (simp add: unfold)
  next
    case 3
    have jn: "j < n" "is_child i j" using 3 by (auto simp: j_def j1_def is_child_def)
    have "heap_hole k j n (heap_Swap h i j)"
      using "1.prems" jn 3(2) big by (intro heap_hole_swap) (auto simp: heap_Less_def)
    then have "heap_from k n (heap_down (heap_Swap h i j) j n)"
      using "1.IH" [OF j1_def _ j_def] 3 "1.prems" is_child_gt [OF jn(2)] by simp
    then show ?thesis using 3 by (simp add: unfold)
  qed
qed

lemma heap_from_take: "heap_from k n h \<Longrightarrow> heap_from k n (take n h)"
  unfolding heap_from_def
proof (intro allI impI)
  fix p c assume *: "\<forall>p c. k \<le> p \<longrightarrow> c < n \<longrightarrow> is_child p c \<longrightarrow> e_score (h ! c) \<le> e_score (h ! p)"
    and c: "k \<le> p" "c < n" "is_child p c"
  then have "p < n" using is_child_gt by fastforce
  then show "e_score (take n h ! c) \<le> e_score (take n h ! p)" using * c by simp
qed

lemma heap_from_hole: "heap_from (Suc i) n h \<Longrightarrow> heap_hole i i n h"
  unfolding heap_from_def heap_hole_def using is_child_gt by (metis Suc_leI le_antisym not_less_eq_eq)

lemma heap_Init_from_heap:
  "heap_from k (length h) h \<Longrightarrow> heap_from 0 (length h) (heap_Init_from h (length h) k)"
proof (induction k arbitrary: h)
  case (Suc k)
  then have "heap_from k (length h) (heap_down h k (length h))"
    by (intro heap_down_heap heap_from_hole) auto
  then show ?case using Suc.IH [of "heap_down h k (length h)"] by simp
qed simp

lemma heap_Init_from_mset: "mset (heap_Init_from h (length h) k) = mset h"
proof (induction k arbitrary: h)
  case (Suc k)
  show ?case using Suc [of "heap_down h k (length h)"] by (simp add: heap_down_mset)
qed simp

lemma heap_Init_mset [simp]: "mset (heap_Init h) = mset h"
  by (simp add: heap_Init_def heap_Len_def heap_Init_from_mset)

lemma heap_Init_length [simp]: "length (heap_Init h) = length h"
  by (metis heap_Init_mset size_mset)

lemma heap_Init_heap: "heap_from 0 (length h) (heap_Init h)"
proof -
  have "heap_from (length h div 2) (length h) h" by (auto simp: heap_from_def is_child_def)
  then show ?thesis by (simp add: heap_Init_def heap_Len_def heap_Init_from_heap)
qed

text \<open>In a heap no slot is above the root.\<close>

lemma heap_root_max: "heap_from 0 n h \<Longrightarrow> j < n \<Longrightarrow> e_score (h ! j) \<le> e_score (h ! 0)"
proof (induction j rule: less_induct)
  case (less j)
  show ?case
  proof (cases "j = 0")
    case False
    define p where "p = (j - 1) div 2"
    have p: "p < j" "is_child p j" using False by (auto simp: p_def is_child_def)
    have "e_score (h ! j) \<le> e_score (h ! p)" using less.prems p heap_fromD by blast
    also have "\<dots> \<le> e_score (h ! 0)" using less p by auto
    finally show ?thesis .
  qed simp
qed

section \<open>Pop\<close>

lemma heap_Pop_shape:
  assumes "h \<noteq> []"
  shows "heap_Pop h = (h ! 0, take (length h - 1) (heap_down (heap_Swap h 0 (length h - 1)) 0 (length h - 1)))"
proof -
  let ?n = "length h - 1"
  have "heap_down (heap_Swap h 0 ?n) 0 ?n ! ?n = heap_Swap h 0 ?n ! ?n"
    by (rule heap_down_above) auto
  also have "\<dots> = h ! 0" using assms by (simp add: heap_Swap_nth)
  finally show ?thesis by (simp add: heap_Pop_def heap_PopLast_def heap_Len_def Let_def)
qed

lemma heap_Pop_length: "h \<noteq> [] \<Longrightarrow> length (snd (heap_Pop h)) = length h - 1"
  by (simp add: heap_Pop_shape)

lemma heap_Pop_shorter: "heap_Pop h = (e, h') \<Longrightarrow> h \<noteq> [] \<Longrightarrow> length h' < length h"
  using heap_Pop_length [of h] by (cases h) auto

lemma heap_Pop_mset:
  assumes "h \<noteq> []"
  shows "mset h = add_mset (fst (heap_Pop h)) (mset (snd (heap_Pop h)))"
proof -
  let ?n = "length h - 1" and ?d = "heap_down (heap_Swap h 0 (length h - 1)) 0 (length h - 1)"
  have "mset ?d = mset h" using assms by (simp add: heap_down_mset)
  moreover have "?d = take ?n ?d @ [?d ! ?n]"
    using assms take_Suc_conv_app_nth [of ?n ?d] by (cases h) auto
  moreover have "?d ! ?n = h ! 0"
    using assms heap_down_above [of ?n "heap_Swap h 0 ?n" ?n 0] by (simp add: heap_Swap_nth)
  ultimately have "mset h = mset (take ?n ?d @ [h ! 0])" by simp
  then show ?thesis using assms by (simp add: heap_Pop_shape)
qed

lemma heap_Pop_heap:
  assumes "h \<noteq> []" and heap: "heap_from 0 (length h) h"
  shows "heap_from 0 (length (snd (heap_Pop h))) (snd (heap_Pop h))"
proof -
  let ?n = "length h - 1"
  have "e_score (heap_Swap h 0 ?n ! c) \<le> e_score (heap_Swap h 0 ?n ! p)"
    if "p \<noteq> 0" "c < ?n" "is_child p c" for p c
    using that assms(1) heap_fromD [OF heap, of p c] is_child_gt [of p c] by (simp add: heap_Swap_nth)
  then have "heap_hole 0 0 ?n (heap_Swap h 0 ?n)"
    unfolding heap_hole_def using is_child_gt by blast
  then have "heap_from 0 ?n (heap_down (heap_Swap h 0 ?n) 0 ?n)"
    by (intro heap_down_heap) auto
  then show ?thesis
    using assms(1) by (simp add: heap_Pop_shape heap_from_take)
qed

text \<open>The heap keeps the promises of the interface, with the score as priority.\<close>

interpretation score_queue: max_queue heap_Init heap_Len heap_Pop mset "\<lambda>h. heap_from 0 (length h) h" e_score
proof unfold_locales
  fix q :: scoreHeap and y
  assume "heap_from 0 (length q) q" "0 < heap_Len q" "y \<in># mset q"
  then show "e_score y \<le> e_score (fst (heap_Pop q))"
    by (auto simp: heap_Len_def heap_Pop_shape in_set_conv_nth heap_root_max)
qed (auto simp: heap_Init_heap heap_Len_def heap_Pop_mset [symmetric] heap_Pop_heap)

end
