(* ===== verification/Tier_Manager.thy ===== *)
theory Tier_Manager
  imports Score_Heap
begin

text \<open>
  The resource manager of \<open>lib/tier/manager.go\<close>: its state, every method, and the
  rebalance pass as the code composes it.  A method takes and returns the manager and the
  state \<open>'w\<close> behind the \<open>Actuator\<close>; the clock and heap readings it makes, and the orders
  in which its three \<open>for range\<close> loops meet the bots, are arguments.
\<close>

record Manager =
  m_cfg :: Config
  m_bots :: "string \<rightharpoonup> entry"

record 'w Actuator =
  act_OpenHot :: "BotRef \<Rightarrow> 'w \<Rightarrow> 'w"
  act_CloseHot :: "string \<Rightarrow> 'w \<Rightarrow> 'w"
  act_Poll :: "BotRef \<Rightarrow> 'w \<Rightarrow> 'w"

datatype actKind = actOpenHot | actCloseHot | actPoll

record action =
  a_kind :: actKind
  a_bot :: BotRef
  a_keyID :: string

definition New_Manager :: "Config \<Rightarrow> Manager" where
  "New_Manager c = \<lparr>m_cfg = withDefaults c, m_bots = Map.empty\<rparr>"

text \<open>\<open>Add\<close> reads the clock twice, for \<open>nextPoll\<close> and for \<open>lastActivity\<close>.\<close>

definition Add :: "go_time \<Rightarrow> go_time \<Rightarrow> BotRef \<Rightarrow> Manager \<Rightarrow> Manager" where
  "Add now1 now2 b m =
     (case m_bots m (KeyID b) of
        Some _ \<Rightarrow> m
      | None \<Rightarrow> m\<lparr>m_bots := (m_bots m)(KeyID b \<mapsto>
          \<lparr>e_bot = b, e_tier = Cold, e_lastActivity = now2, e_rate = 0, e_score = 0,
           e_nextPoll = now1\<rparr>)\<rparr>)"

definition Remove :: "'w Actuator \<Rightarrow> string \<Rightarrow> Manager \<times> 'w \<Rightarrow> Manager \<times> 'w" where
  "Remove act k s = (case s of (m, w) \<Rightarrow>
     (case m_bots m k of
        None \<Rightarrow> (m, w)
      | Some e \<Rightarrow> (m\<lparr>m_bots := (m_bots m)(k := None)\<rparr>,
                   if e_tier e = Hot then act_CloseHot act k w else w)))"

definition TierOf :: "Manager \<Rightarrow> string \<Rightarrow> tier" where
  "TierOf m k = (case m_bots m k of Some e \<Rightarrow> e_tier e | None \<Rightarrow> Cold)"

definition HotCount :: "string list \<Rightarrow> Manager \<Rightarrow> nat" where
  "HotCount ks m = foldl (\<lambda>n e. if e_tier e = Hot then n + 1 else n) 0 (entries_of (m_bots m) ks)"

definition ForceTier :: "string \<Rightarrow> tier \<Rightarrow> Manager \<Rightarrow> Manager" where
  "ForceTier k t m = (case m_bots m k of
     Some e \<Rightarrow> m\<lparr>m_bots := (m_bots m)(k \<mapsto> e\<lparr>e_tier := t\<rparr>)\<rparr> | None \<Rightarrow> m)"

section \<open>The rebalance pass\<close>

subsection \<open>1. Scores and activity-desired tiers\<close>

definition plan_weight :: "Config \<Rightarrow> string \<Rightarrow> float64" where
  "plan_weight c p = (case PlanWeight c of None \<Rightarrow> 0
     | Some w \<Rightarrow> (case w p of None \<Rightarrow> 0 | Some x \<Rightarrow> x))"

definition score_entry :: "(real \<Rightarrow> real) \<Rightarrow> Config \<Rightarrow> go_time \<Rightarrow> entry \<Rightarrow> entry" where
  "score_entry rnd c now e =
     (let age = time_Sub now (e_lastActivity e);
          rate' = rnd (e_rate e * rnd 0.9);
          recency0 = rnd (1 - rnd (Seconds rnd age / Seconds rnd (HotIdle c)));
          recency = (if recency0 < 0 then 0 else recency0)
      in e\<lparr>e_rate := rate',
           e_score := rnd (rnd (rnd (plan_weight c (Plan (e_bot e)) * 100) + rnd (recency * 10)) + rate')\<rparr>)"

definition desired_tier :: "Config \<Rightarrow> go_time \<Rightarrow> entry \<Rightarrow> tier" where
  "desired_tier c now e =
     (let age = time_Sub now (e_lastActivity e) in
      if time_IsZero (e_lastActivity e) \<or> age > WarmIdle c then Cold
      else if age > HotIdle c then Warm
      else Hot)"

text \<open>One iteration: the bots' map, the \<open>want\<close> map and the candidate slice.\<close>

definition score_step :: "(real \<Rightarrow> real) \<Rightarrow> Config \<Rightarrow> go_time \<Rightarrow>
    (string \<rightharpoonup> entry) \<times> (string \<rightharpoonup> tier) \<times> scoreHeap \<Rightarrow> string \<Rightarrow>
    (string \<rightharpoonup> entry) \<times> (string \<rightharpoonup> tier) \<times> scoreHeap" where
  "score_step rnd c now s k = (case s of (bots, want, cands) \<Rightarrow>
     (case bots k of
        None \<Rightarrow> (bots, want, cands)
      | Some e0 \<Rightarrow>
          (let e = score_entry rnd c now e0; t = desired_tier c now e in
           (bots(k \<mapsto> e), want(e_key e \<mapsto> t), if t = Hot then heap_Push cands e else cands))))"

definition score_pass :: "(real \<Rightarrow> real) \<Rightarrow> Config \<Rightarrow> go_time \<Rightarrow> string list \<Rightarrow> (string \<rightharpoonup> entry) \<Rightarrow>
    (string \<rightharpoonup> entry) \<times> (string \<rightharpoonup> tier) \<times> scoreHeap" where
  "score_pass rnd c now ks bots = foldl (score_step rnd c now) (bots, Map.empty, []) ks"

subsection \<open>2. The hot budget\<close>

definition effHot :: "Config \<Rightarrow> nat \<Rightarrow> int" where
  "effHot c mem = (if MemHighMB c > 0 \<and> mem \<ge> MemHighMB c then PressureHotCap c else MaxHot c)"

subsection \<open>3. Selection\<close>

type_synonym selection = "string list \<times> (string \<Rightarrow> int)"
  \<comment> \<open>the keys of \<open>selected\<close>, and the counts of \<open>perTenant\<close>\<close>

definition tenant_full :: "Config \<Rightarrow> selection \<Rightarrow> entry \<Rightarrow> bool" where
  "tenant_full c st e \<longleftrightarrow> HotPerTenant c > 0 \<and> snd st (e_tenant e) \<ge> HotPerTenant c"

definition pick :: "selection \<Rightarrow> entry \<Rightarrow> selection" where
  "pick st e = (List.insert (e_key e) (fst st), (snd st)(e_tenant e := snd st (e_tenant e) + 1))"

function select_hot :: "Config \<Rightarrow> int \<Rightarrow> scoreHeap \<Rightarrow> selection \<Rightarrow> selection" where
  "select_hot c eff h st =
     (if heap_Len h > 0 \<and> int (length (fst st)) < eff then
        (case heap_Pop h of (e, h') \<Rightarrow>
           if tenant_full c st e then select_hot c eff h' st
           else select_hot c eff h' (pick st e))
      else st)"
  by pat_completeness auto
termination
  by (relation "measure (\<lambda>(c, eff, h, st). length h)")
    (auto simp: heap_Len_def heap_Pop_shorter dest: sym)

declare select_hot.simps [simp del]

subsection \<open>3b. Spare capacity\<close>

text \<open>\<open>sort.Slice\<close> leaves ties in any order; the slice it sorts is itself in the order of a
  map iteration, so a stable sort of that slice reaches every result.\<close>

definition sort_by_score :: "entry list \<Rightarrow> entry list" where
  "sort_by_score es = sort_key (\<lambda>e. - e_score e) es"

fun spare_loop :: "Config \<Rightarrow> int \<Rightarrow> entry list \<Rightarrow> selection \<times> (string \<rightharpoonup> tier) \<Rightarrow>
    selection \<times> (string \<rightharpoonup> tier)" where
  "spare_loop c eff [] s = s"
| "spare_loop c eff (e # es) (st, want) =
     (if int (length (fst st)) \<ge> eff then (st, want)
      else if tenant_full c st e then spare_loop c eff es (st, want)
      else spare_loop c eff es (pick st e, want(e_key e \<mapsto> Hot)))"

definition spare_fill :: "Config \<Rightarrow> int \<Rightarrow> string list \<Rightarrow> (string \<rightharpoonup> entry) \<Rightarrow>
    selection \<times> (string \<rightharpoonup> tier) \<Rightarrow> selection \<times> (string \<rightharpoonup> tier)" where
  "spare_fill c eff ks bots s = (case s of (st, want) \<Rightarrow>
     if int (length (fst st)) < eff then
       spare_loop c eff
         (sort_by_score (filter (\<lambda>e. e_key e \<notin> set (fst st)) (entries_of bots ks))) (st, want)
     else (st, want))"

subsection \<open>4. and 5. Reconciliation and due polls\<close>

definition BotRef_action :: "actKind \<Rightarrow> BotRef \<Rightarrow> action" where
  "BotRef_action kd b = \<lparr>a_kind = kd, a_bot = b, a_keyID = ''''\<rparr>"

definition KeyID_action :: "actKind \<Rightarrow> string \<Rightarrow> action" where
  "KeyID_action kd k = \<lparr>a_kind = kd, a_bot = BotRef0, a_keyID = k\<rparr>"

definition reconcile_target :: "(string \<rightharpoonup> tier) \<Rightarrow> string list \<Rightarrow> entry \<Rightarrow> tier" where
  "reconcile_target want sel e =
     (let target = (case want (e_key e) of Some t \<Rightarrow> t | None \<Rightarrow> Cold) in
      if target = Hot \<and> e_key e \<notin> set sel then Warm else target)"

definition poll_interval :: "Config \<Rightarrow> tier \<Rightarrow> duration" where
  "poll_interval c t = (if t = Cold then ColdPoll c else WarmPoll c)"

definition reconcile :: "Config \<Rightarrow> go_time \<Rightarrow> (string \<rightharpoonup> tier) \<Rightarrow> string list \<Rightarrow> entry \<Rightarrow>
    entry \<times> action list" where
  "reconcile c now want sel e =
     (let target = reconcile_target want sel e;
          prev = e_tier e;
          e1 = e\<lparr>e_tier := target\<rparr>;
          as1 = (if target = Hot
                 then (if prev \<noteq> Hot then [BotRef_action actOpenHot (e_bot e)] else [])
                 else (if prev = Hot then [KeyID_action actCloseHot (e_key e)] else []))
      in if target \<noteq> Hot \<and> \<not> now < e_nextPoll e
         then (e1\<lparr>e_nextPoll := now + poll_interval c target\<rparr>,
               as1 @ [BotRef_action actPoll (e_bot e)])
         else (e1, as1))"

text \<open>The orders of the three loops: scoring, spare fill, reconciliation.\<close>

type_synonym orders = "string list \<times> string list \<times> string list"

definition rebalanceLocked :: "(real \<Rightarrow> real) \<Rightarrow> orders \<Rightarrow> nat \<Rightarrow> go_time \<Rightarrow> Manager \<Rightarrow>
    Manager \<times> action list" where
  "rebalanceLocked rnd ords mem now m =
     (let c = m_cfg m; (ks1, ks2, ks3) = ords;
          (bots1, want1, cands) = score_pass rnd c now ks1 (m_bots m);
          eff = effHot c mem;
          st1 = select_hot c eff (heap_Init cands) ([], \<lambda>_. 0);
          (st2, want2) = spare_fill c eff ks2 bots1 (st1, want1);
          (bots2, acts) = foldl (upd_loop (reconcile c now want2 (fst st2))) (bots1, []) ks3
      in (m\<lparr>m_bots := bots2\<rparr>, acts))"

section \<open>Applying the actions\<close>

text \<open>The code makes these calls after it has released the mutex, so those of two passes may
  interleave; here they are made with the pass.  What holds of the manager alone
  (\<open>Tier_Correct\<close>, every reachable state) does not depend on when they are made.\<close>

definition apply_action :: "'w Actuator \<Rightarrow> 'w \<Rightarrow> action \<Rightarrow> 'w" where
  "apply_action act w a = (case a_kind a of
     actOpenHot \<Rightarrow> act_OpenHot act (a_bot a) w
   | actCloseHot \<Rightarrow> act_CloseHot act (a_keyID a) w
   | actPoll \<Rightarrow> act_Poll act (a_bot a) w)"

definition apply_actions :: "'w Actuator \<Rightarrow> action list \<Rightarrow> 'w \<Rightarrow> 'w" where
  "apply_actions act acts w = foldl (apply_action act) w acts"

definition Rebalance :: "(real \<Rightarrow> real) \<Rightarrow> 'w Actuator \<Rightarrow> orders \<Rightarrow> nat \<Rightarrow> go_time \<Rightarrow>
    Manager \<times> 'w \<Rightarrow> Manager \<times> 'w" where
  "Rebalance rnd act ords mem now s = (case s of (m, w) \<Rightarrow>
     (case rebalanceLocked rnd ords mem now m of (m', acts) \<Rightarrow> (m', apply_actions act acts w)))"

definition touch_entry :: "(real \<Rightarrow> real) \<Rightarrow> go_time \<Rightarrow> entry \<Rightarrow> entry" where
  "touch_entry rnd now e = e\<lparr>e_lastActivity := now, e_rate := rnd (rnd (e_rate e * rnd 0.7) + 1)\<rparr>"

definition Touch :: "(real \<Rightarrow> real) \<Rightarrow> 'w Actuator \<Rightarrow> orders \<Rightarrow> nat \<Rightarrow> go_time \<Rightarrow> string \<Rightarrow>
    Manager \<times> 'w \<Rightarrow> Manager \<times> 'w" where
  "Touch rnd act ords mem now k s = (case s of (m, w) \<Rightarrow>
     (let m1 = (case m_bots m k of
                  Some e \<Rightarrow> m\<lparr>m_bots := (m_bots m)(k \<mapsto> touch_entry rnd now e)\<rparr>
                | None \<Rightarrow> m)
      in (case rebalanceLocked rnd ords mem now m1 of (m', acts) \<Rightarrow> (m', apply_actions act acts w))))"

text \<open>\<open>Run\<close> is a rebalance per tick until the context is cancelled: a fold over the ticks
  that arrive, each with its clock and heap readings and its map orders.\<close>

primrec Run :: "(real \<Rightarrow> real) \<Rightarrow> 'w Actuator \<Rightarrow> (go_time \<times> nat \<times> orders) list \<Rightarrow>
    Manager \<times> 'w \<Rightarrow> Manager \<times> 'w" where
  "Run rnd act [] s = s"
| "Run rnd act (t # ts) s =
     (case t of (now, mem, ords) \<Rightarrow> Run rnd act ts (Rebalance rnd act ords mem now s))"

end
