(* ===== verification/Tier_Selection.thy ===== *)
theory Tier_Selection
  imports Tier_Manager
begin

text \<open>
  The lemmas of the rebalance pass: what the scoring loop computes, that both selection
  loops are one greedy selection, the invariant and the decision rule of that selection,
  and the pointwise effect of the reconciliation loop.
\<close>

section \<open>Well-formed managers\<close>

text \<open>Every bot is stored under its own key, and a \<open>Manager\<close> holds finitely many.\<close>

definition bots_ok :: "(string \<rightharpoonup> entry) \<Rightarrow> bool" where
  "bots_ok bots \<longleftrightarrow> finite (dom bots) \<and> (\<forall>k e. bots k = Some e \<longrightarrow> e_key e = k)"

lemma bots_okD: "bots_ok bots \<Longrightarrow> bots k = Some e \<Longrightarrow> e_key e = k"
  by (simp add: bots_ok_def)

lemma bots_ok_upd: "bots_ok bots \<Longrightarrow> e_key e = k \<Longrightarrow> bots_ok (bots(k \<mapsto> e))"
  by (simp add: bots_ok_def)

lemma bots_ok_del: "bots_ok bots \<Longrightarrow> bots_ok (bots(k := None))"
  by (simp add: bots_ok_def)

definition orders_ok :: "(string \<rightharpoonup> entry) \<Rightarrow> orders \<Rightarrow> bool" where
  "orders_ok bots ords \<longleftrightarrow> (case ords of (ks1, ks2, ks3) \<Rightarrow>
     range_order bots ks1 \<and> range_order bots ks2 \<and> range_order bots ks3)"

definition hot_keys :: "(string \<rightharpoonup> entry) \<Rightarrow> string set" where
  "hot_keys bots = {k. \<exists>e. bots k = Some e \<and> e_tier e = Hot}"

lemma hot_keys_subset: "hot_keys bots \<subseteq> dom bots"
  by (auto simp: hot_keys_def)

lemma entries_of_keys:
  "bots_ok bots \<Longrightarrow> set ks \<subseteq> dom bots \<Longrightarrow> map e_key (entries_of bots ks) = ks"
  by (induction ks) (auto simp: bots_ok_def split: option.splits)

lemma HotCount_card:
  assumes "range_order (m_bots m) ks"
  shows "HotCount ks m = card (hot_keys (m_bots m))"
proof -
  have fold: "foldl (\<lambda>n e. if e_tier e = Hot then n + 1 else n) n es =
      n + length (filter (\<lambda>e. e_tier e = Hot) es)" for n and es :: "entry list"
    by (induction es arbitrary: n) auto
  have sub: "set ks \<subseteq> dom (m_bots m)" and d: "distinct ks"
    using assms by (auto simp: range_order_def)
  have "HotCount ks m = card {k \<in> set ks. e_tier (the (m_bots m k)) = Hot}"
    unfolding HotCount_def fold using filter_entries_of_length [OF sub] length_filter_card [OF d] by simp
  also have "{k \<in> set ks. e_tier (the (m_bots m k)) = Hot} = hot_keys (m_bots m)"
    using assms by (force simp: hot_keys_def range_order_def)
  finally show ?thesis .
qed

section \<open>The scoring loop\<close>

lemma score_entry_fields [simp]:
  "e_bot (score_entry rnd c now e) = e_bot e"
  "e_tier (score_entry rnd c now e) = e_tier e"
  "e_lastActivity (score_entry rnd c now e) = e_lastActivity e"
  "e_nextPoll (score_entry rnd c now e) = e_nextPoll e"
  by (simp_all add: score_entry_def Let_def)

lemma desired_tier_score [simp]:
  "desired_tier c now (score_entry rnd c now' e) = desired_tier c now e"
  by (simp add: desired_tier_def)

abbreviation scored :: "(real \<Rightarrow> real) \<Rightarrow> Config \<Rightarrow> go_time \<Rightarrow> (string \<rightharpoonup> entry) \<Rightarrow> string \<rightharpoonup> entry" where
  "scored rnd c now bots \<equiv> \<lambda>k. map_option (score_entry rnd c now) (bots k)"

lemma scored_dom [simp]: "dom (scored rnd c now bots) = dom bots"
  by (auto simp: dom_def)

lemma scored_ok: "bots_ok bots \<Longrightarrow> bots_ok (scored rnd c now bots)"
  by (auto simp: bots_ok_def)

lemma score_fold:
  "distinct ks \<Longrightarrow> set ks \<subseteq> dom bots \<Longrightarrow> bots_ok bots \<Longrightarrow>
   foldl (score_step rnd c now) (bots, want, cands) ks =
     (\<lambda>k. if k \<in> set ks then map_option (score_entry rnd c now) (bots k) else bots k,
      \<lambda>k. if k \<in> set ks then map_option (desired_tier c now) (bots k) else want k,
      cands @ filter (\<lambda>e. desired_tier c now e = Hot) (entries_of (scored rnd c now bots) ks))"
proof (induction ks arbitrary: bots want cands)
  case Nil
  then show ?case by simp
next
  case (Cons k ks)
  then obtain e where e: "bots k = Some e" by auto
  then have key: "e_key e = k" using Cons.prems bots_okD by blast
  have rest: "entries_of (scored rnd c now (bots(k \<mapsto> score_entry rnd c now e))) ks =
      entries_of (scored rnd c now bots) ks"
    using Cons.prems by (intro entries_of_cong) auto
  let ?e = "score_entry rnd c now e"
  have ok: "bots_ok (bots(k \<mapsto> ?e))" using Cons.prems key by (simp add: bots_ok_upd)
  have step: "score_step rnd c now (bots, want, cands) k =
      (bots(k \<mapsto> ?e), want(k \<mapsto> desired_tier c now e),
       if desired_tier c now e = Hot then cands @ [?e] else cands)"
    using e key by (simp add: score_step_def Let_def heap_Push_def)
  show ?case
    unfolding foldl_Cons step
    using Cons.prems e ok by (subst Cons.IH) (auto simp: rest [simplified])
qed

lemma score_pass_eq:
  assumes "range_order bots ks" "bots_ok bots"
  shows "score_pass rnd c now ks bots =
     (scored rnd c now bots, \<lambda>k. map_option (desired_tier c now) (bots k),
      filter (\<lambda>e. desired_tier c now e = Hot) (entries_of (scored rnd c now bots) ks))"
  using assms score_fold [of ks bots rnd c now Map.empty "[]"]
  by (auto simp: score_pass_def range_order_def fun_eq_iff dom_def)

section \<open>Greedy selection\<close>

fun greedy :: "Config \<Rightarrow> int \<Rightarrow> entry list \<Rightarrow> selection \<Rightarrow> selection" where
  "greedy c eff [] st = st"
| "greedy c eff (e # es) st =
     (if int (length (fst st)) < eff
      then greedy c eff es (if tenant_full c st e then st else pick st e) else st)"

lemma greedy_full: "eff \<le> int (length (fst st)) \<Longrightarrow> greedy c eff es st = st"
  by (cases es) auto

lemma greedy_append: "greedy c eff (xs @ ys) st = greedy c eff ys (greedy c eff xs st)"
  by (induction xs arbitrary: st) (auto simp: greedy_full)

lemma select_hot_greedy: "score_queue.pops h xs \<Longrightarrow> select_hot c eff h st = greedy c eff xs st"
proof (induction arbitrary: st rule: score_queue.pops.induct)
  case (pops_empty q)
  then show ?case by (simp add: select_hot.simps)
next
  case (pops_step q xs)
  then show ?case by (subst select_hot.simps) (simp add: split_beta)
qed

lemma spare_loop_greedy: "fst (spare_loop c eff es (st, want)) = greedy c eff es st"
  by (induction es arbitrary: st want) auto

lemma pick_fst: "set (fst (pick st e)) = insert (e_key e) (set (fst st))"
  by (simp add: pick_def)

lemma greedy_mono: "set (fst st) \<subseteq> set (fst (greedy c eff es st))"
proof (induction es arbitrary: st)
  case (Cons e es)
  then show ?case using pick_fst by (auto, blast+)
qed simp

lemma greedy_from: "set (fst (greedy c eff es st)) \<subseteq> set (fst st) \<union> e_key ` set es"
proof (induction es arbitrary: st)
  case (Cons e es)
  show ?case using Cons [of st] Cons [of "pick st e"] pick_fst [of st e] by auto
qed simp

text \<open>The \<open>want\<close> map the spare loop leaves: hot for exactly the keys it added.\<close>

lemma spare_loop_want:
  "e_key ` set es \<inter> set (fst st) = {} \<Longrightarrow> distinct (map e_key es) \<Longrightarrow>
   snd (spare_loop c eff es (st, want)) =
     (\<lambda>k. if k \<in> set (fst (greedy c eff es st)) - set (fst st) then Some Hot else want k)"
proof (induction es arbitrary: st want)
  case Nil
  then show ?case by simp
next
  case (Cons e es)
  have disj: "e_key ` set es \<inter> set (fst (pick st e)) = {}"
    using Cons.prems by (auto simp: pick_fst)
  have mem: "e_key e \<in> set (fst (greedy c eff es (pick st e)))"
    using greedy_mono [of "pick st e" c eff es] by (auto simp: pick_fst)
  have notin: "e_key e \<notin> set (fst st)" using Cons.prems by auto
  have IH2: "snd (spare_loop c eff es (pick st e, want(e_key e \<mapsto> Hot))) k =
      (if k \<in> set (fst (greedy c eff es (pick st e))) - set (fst (pick st e)) then Some Hot
       else (want(e_key e \<mapsto> Hot)) k)" for k
    using Cons.IH [OF disj] Cons.prems(2) by (simp del: fun_upd_apply)
  show ?case
    using Cons.prems Cons.IH [of st want] mem notin by (intro ext) (auto simp: IH2 pick_fst)
qed

subsection \<open>Its invariant\<close>

text \<open>\<open>T\<close> gives the tenant of a key.  Budget and fairness caps hold, and the counts are right.\<close>

definition sel_inv :: "(string \<Rightarrow> string) \<Rightarrow> Config \<Rightarrow> int \<Rightarrow> selection \<Rightarrow> bool" where
  "sel_inv T c eff st \<longleftrightarrow> distinct (fst st) \<and> int (length (fst st)) \<le> max 0 eff \<and>
     (\<forall>t. snd st t = int (length (filter (\<lambda>k. T k = t) (fst st)))) \<and>
     (HotPerTenant c > 0 \<longrightarrow> (\<forall>t. snd st t \<le> HotPerTenant c))"

lemma sel_inv_init: "sel_inv T c eff ([], \<lambda>_. 0)"
  by (simp add: sel_inv_def)

lemma sel_inv_pick:
  assumes "sel_inv T c eff st" "e_key e \<notin> set (fst st)" "T (e_key e) = e_tenant e"
    "int (length (fst st)) < eff" "\<not> tenant_full c st e"
  shows "sel_inv T c eff (pick st e)"
  using assms by (auto simp: sel_inv_def pick_def tenant_full_def)

lemma sel_inv_greedy:
  "sel_inv T c eff st \<Longrightarrow> distinct (map e_key es) \<Longrightarrow> e_key ` set es \<inter> set (fst st) = {} \<Longrightarrow>
   (\<And>e. e \<in> set es \<Longrightarrow> T (e_key e) = e_tenant e) \<Longrightarrow> sel_inv T c eff (greedy c eff es st)"
proof (induction es arbitrary: st)
  case (Cons e es)
  have "sel_inv T c eff (pick st e)" if "int (length (fst st)) < eff" "\<not> tenant_full c st e"
    using Cons.prems that by (intro sel_inv_pick) auto
  then show ?case using Cons by (auto simp: pick_fst)
qed simp

lemma sel_inv_full:
  "sel_inv T c eff st \<Longrightarrow> tenant_full c st e \<Longrightarrow>
   0 < HotPerTenant c \<and> HotPerTenant c \<le> int (card {k \<in> set (fst st). T k = e_tenant e})"
  by (auto simp: sel_inv_def tenant_full_def length_filter_card)

subsection \<open>Its decision rule\<close>

text \<open>An entry left out met a full budget or a full tenant when its turn came.\<close>

lemma greedy_rejects:
  assumes "e_key e \<notin> set (fst (greedy c eff (ys @ e # zs) st))"
  shows "eff \<le> int (length (fst (greedy c eff ys st))) \<or> tenant_full c (greedy c eff ys st) e"
proof (rule ccontr)
  assume "\<not> ?thesis"
  then have "greedy c eff (ys @ e # zs) st = greedy c eff zs (pick (greedy c eff ys st) e)"
    by (simp add: greedy_append)
  then show False using assms greedy_mono [of "pick (greedy c eff ys st) e" c eff zs] by (auto simp: pick_fst)
qed

section \<open>The decision of a pass\<close>

definition decision :: "(real \<Rightarrow> real) \<Rightarrow> orders \<Rightarrow> nat \<Rightarrow> go_time \<Rightarrow> Manager \<Rightarrow>
    selection \<times> (string \<rightharpoonup> tier)" where
  "decision rnd ords mem now m =
     (let c = m_cfg m; (ks1, ks2, ks3) = ords;
          (bots1, want1, cands) = score_pass rnd c now ks1 (m_bots m);
          eff = effHot c mem
      in spare_fill c eff ks2 bots1 (select_hot c eff (heap_Init cands) ([], \<lambda>_. 0), want1))"

definition selected :: "(real \<Rightarrow> real) \<Rightarrow> orders \<Rightarrow> nat \<Rightarrow> go_time \<Rightarrow> Manager \<Rightarrow> string list" where
  "selected rnd ords mem now m = fst (fst (decision rnd ords mem now m))"

lemma rebalanceLocked_eq:
  "rebalanceLocked rnd ords mem now m =
     (let c = m_cfg m; ks3 = snd (snd ords); d = decision rnd ords mem now m;
          r = foldl (upd_loop (reconcile c now (snd d) (fst (fst d))))
                (fst (score_pass rnd c now (fst ords) (m_bots m)), []) ks3
      in (m\<lparr>m_bots := fst r\<rparr>, snd r))"
  by (simp add: rebalanceLocked_def decision_def Let_def split_beta)

text \<open>The tenant of a registered key.\<close>

definition tenant_of :: "(string \<rightharpoonup> entry) \<Rightarrow> string \<Rightarrow> string" where
  "tenant_of bots k = (case bots k of Some e \<Rightarrow> e_tenant e | None \<Rightarrow> '''')"

text \<open>The two phases: candidates by descending score, then everyone left, by descending score.\<close>

lemma decision_phases:
  assumes ok: "bots_ok (m_bots m)" and ord: "orders_ok (m_bots m) ords"
  obtains cs ss where
    "mset cs = mset (filter (\<lambda>e. desired_tier (m_cfg m) now e = Hot)
                 (entries_of (scored rnd (m_cfg m) now (m_bots m)) (fst ords)))"
    "sorted_wrt (\<lambda>x y. e_score y \<le> e_score x) cs"
    "ss = sort_by_score (filter (\<lambda>e. e_key e \<notin> set (fst (greedy (m_cfg m) (effHot (m_cfg m) mem) cs ([], \<lambda>_. 0))))
                 (entries_of (scored rnd (m_cfg m) now (m_bots m)) (fst (snd ords))))"
    "decision rnd ords mem now m =
       spare_loop (m_cfg m) (effHot (m_cfg m) mem) ss
         (greedy (m_cfg m) (effHot (m_cfg m) mem) cs ([], \<lambda>_. 0),
          \<lambda>k. map_option (desired_tier (m_cfg m) now) (m_bots m k))"
proof -
  let ?c = "m_cfg m" let ?eff = "effHot ?c mem"
  let ?cands = "filter (\<lambda>e. desired_tier ?c now e = Hot) (entries_of (scored rnd ?c now (m_bots m)) (fst ords))"
  obtain cs where pops: "score_queue.pops (heap_Init ?cands) cs"
    using score_queue.pops_ex [OF score_queue.init_inv] by blast
  have cs: "mset cs = mset ?cands" "sorted_wrt (\<lambda>x y. e_score y \<le> e_score x) cs"
    using score_queue.pops_init [OF pops] by auto
  let ?st = "greedy ?c ?eff cs ([], \<lambda>_. 0)"
  let ?ss = "sort_by_score (filter (\<lambda>e. e_key e \<notin> set (fst ?st)) (entries_of (scored rnd ?c now (m_bots m)) (fst (snd ords))))"
  let ?want = "\<lambda>k. map_option (desired_tier ?c now) (m_bots m k)"
  have "spare_loop ?c ?eff ?ss (?st, ?want) = (?st, ?want)" if "\<not> int (length (fst ?st)) < ?eff"
    using that by (cases ?ss) auto
  then have "decision rnd ords mem now m = spare_loop ?c ?eff ?ss (?st, ?want)"
    using score_pass_eq [of "m_bots m" "fst ords" rnd ?c now] ord ok select_hot_greedy [OF pops]
    by (cases ords; cases "int (length (fst ?st)) < ?eff")
      (simp_all add: decision_def orders_ok_def spare_fill_def Let_def)
  then show ?thesis using that cs by blast
qed


lemma entries_of_range:
  assumes "bots_ok bots" "range_order bots ks"
  shows "set (entries_of bots ks) = ran bots" "distinct (map e_key (entries_of bots ks))"
    "e \<in> set (entries_of bots ks) \<longleftrightarrow> bots (e_key e) = Some e"
proof -
  show ran: "set (entries_of bots ks) = ran bots" using assms(2) by (rule set_entries_of_range)
  show "distinct (map e_key (entries_of bots ks))"
    using assms entries_of_keys [of bots ks] by (simp add: range_order_def)
  show "e \<in> set (entries_of bots ks) \<longleftrightarrow> bots (e_key e) = Some e"
    unfolding ran using assms(1) by (auto simp: ran_def dest: bots_okD)
qed

lemma set_sort_by_score [simp]: "set (sort_by_score es) = set es"
  by (simp add: sort_by_score_def)

lemma distinct_keys_mset:
  "mset cs = mset es \<Longrightarrow> distinct (map e_key es) \<Longrightarrow> distinct (map e_key cs)"
  by (metis mset_eq_imp_distinct_iff mset_map)

lemma distinct_keys_filter: "distinct (map e_key es) \<Longrightarrow> distinct (map e_key (filter P es))"
  by (simp add: distinct_map inj_on_def)

lemma mset_sort_by_score [simp]: "mset (sort_by_score es) = mset es"
  by (simp add: sort_by_score_def)

lemma tenant_of_scored:
  "scored rnd c now bots k = Some e \<Longrightarrow> tenant_of bots k = e_tenant e"
  by (auto simp: tenant_of_def)

text \<open>What the two phases give, over the sequence \<open>cs\<close> of candidates they share.\<close>

lemma decision_cases:
  fixes rnd :: "real \<Rightarrow> real" and now :: go_time and mem :: nat
  assumes ok: "bots_ok (m_bots m)" and ord: "orders_ok (m_bots m) ords"
  defines "c \<equiv> m_cfg m" and "eff \<equiv> effHot (m_cfg m) mem"
    and "sc \<equiv> scored rnd (m_cfg m) now (m_bots m)"
  obtains cs ss st where
    "\<And>e. e \<in> set cs \<longleftrightarrow> sc (e_key e) = Some e \<and> desired_tier c now e = Hot"
    "distinct (map e_key cs)" "sorted_wrt (\<lambda>x y. e_score y \<le> e_score x) cs"
    "st = greedy c eff cs ([], \<lambda>_. 0)"
    "\<And>e. e \<in> set ss \<longleftrightarrow> sc (e_key e) = Some e \<and> e_key e \<notin> set (fst st)"
    "distinct (map e_key ss)"
    "fst (decision rnd ords mem now m) = greedy c eff ss st"
    "snd (decision rnd ords mem now m) =
       (\<lambda>k. if k \<in> set (selected rnd ords mem now m) - set (fst st) then Some Hot
            else map_option (desired_tier c now) (m_bots m k))"
    "set (fst st) \<subseteq> e_key ` set cs"
    "\<And>ys zs. cs = ys @ zs \<Longrightarrow> sel_inv (tenant_of (m_bots m)) c eff (greedy c eff ys ([], \<lambda>_. 0))"
    "\<And>ys zs. ss = ys @ zs \<Longrightarrow> sel_inv (tenant_of (m_bots m)) c eff (greedy c eff ys st)"
proof -
  have sok: "bots_ok sc" using ok by (simp add: sc_def scored_ok)
  have r: "range_order sc (fst ords)" "range_order sc (fst (snd ords))"
    using ord by (auto simp: sc_def orders_ok_def range_order_def split: prod.splits)
  note E1 = entries_of_range [OF sok r(1)] and E2 = entries_of_range [OF sok r(2)]
  obtain cs ss where p:
    "mset cs = mset (filter (\<lambda>e. desired_tier c now e = Hot) (entries_of sc (fst ords)))"
    "sorted_wrt (\<lambda>x y. e_score y \<le> e_score x) cs"
    "ss = sort_by_score (filter (\<lambda>e. e_key e \<notin> set (fst (greedy c eff cs ([], \<lambda>_. 0))))
       (entries_of sc (fst (snd ords))))"
    "decision rnd ords mem now m = spare_loop c eff ss
       (greedy c eff cs ([], \<lambda>_. 0), \<lambda>k. map_option (desired_tier c now) (m_bots m k))"
    using decision_phases [OF ok ord, of now rnd mem thesis] unfolding c_def eff_def sc_def by blast
  let ?st = "greedy c eff cs ([], \<lambda>_. 0)"
  have sscs: "set ss = {e. sc (e_key e) = Some e \<and> e_key e \<notin> set (fst ?st)}"
    using E2(3) by (auto simp: p(3))
  have dss: "distinct (map e_key ss)"
    unfolding p(3) by (intro distinct_keys_mset [OF mset_sort_by_score] distinct_keys_filter E2(2))
  have scs: "set cs = {e. sc (e_key e) = Some e \<and> desired_tier c now e = Hot}"
    using mset_eq_setD [OF p(1)] E1(3) by auto
  have dcs: "distinct (map e_key cs)"
    using p(1) by (rule distinct_keys_mset) (intro distinct_keys_filter E1(2))
  have T: "tenant_of (m_bots m) (e_key e) = e_tenant e" if "sc (e_key e) = Some e" for e
    using that unfolding sc_def by (rule tenant_of_scored)
  have inv1: "sel_inv (tenant_of (m_bots m)) c eff (greedy c eff ys ([], \<lambda>_. 0))" if "cs = ys @ zs" for ys zs
  proof (intro sel_inv_greedy sel_inv_init)
    show "tenant_of (m_bots m) (e_key e) = e_tenant e" if "e \<in> set ys" for e
      using that scs \<open>cs = ys @ zs\<close> by (intro T) auto
  qed (use that dcs in auto)
  have inv2: "sel_inv (tenant_of (m_bots m)) c eff (greedy c eff ys ?st)" if "ss = ys @ zs" for ys zs
  proof (rule sel_inv_greedy)
    show "sel_inv (tenant_of (m_bots m)) c eff ?st" by (rule inv1 [of cs "[]"]) simp
    show "tenant_of (m_bots m) (e_key e) = e_tenant e" if "e \<in> set ys" for e
      using that sscs \<open>ss = ys @ zs\<close> by (intro T) auto
    show "e_key ` set ys \<inter> set (fst ?st) = {}" using that sscs by auto
  qed (use that dss in auto)
  show thesis
  proof (rule that [of cs ?st ss])
    show "snd (decision rnd ords mem now m) =
       (\<lambda>k. if k \<in> set (selected rnd ords mem now m) - set (fst ?st) then Some Hot
            else map_option (desired_tier c now) (m_bots m k))"
      unfolding selected_def p(4) spare_loop_greedy using sscs dss by (subst spare_loop_want) auto
    show "set (fst ?st) \<subseteq> e_key ` set cs" using greedy_from [of c eff cs "([], \<lambda>_. 0)"] by simp
    show "e \<in> set cs \<longleftrightarrow> sc (e_key e) = Some e \<and> desired_tier c now e = Hot" for e using scs by simp
    show "e \<in> set ss \<longleftrightarrow> sc (e_key e) = Some e \<and> e_key e \<notin> set (fst ?st)" for e using sscs by simp
    show "fst (decision rnd ords mem now m) = greedy c eff ss ?st" by (simp add: p(4) spare_loop_greedy)
  qed (use p(2) dcs dss inv1 inv2 in auto)
qed

section \<open>Facts about the selection\<close>

lemma selected_inv:
  assumes ok: "bots_ok (m_bots m)" and ord: "orders_ok (m_bots m) ords"
  shows "sel_inv (tenant_of (m_bots m)) (m_cfg m) (effHot (m_cfg m) mem) (fst (decision rnd ords mem now m))"
    and "set (selected rnd ords mem now m) \<subseteq> dom (m_bots m)"
    and "k \<in> set (selected rnd ords mem now m) \<Longrightarrow> snd (decision rnd ords mem now m) k = Some Hot"
    and "k \<notin> set (selected rnd ords mem now m) \<Longrightarrow>
         snd (decision rnd ords mem now m) k = map_option (desired_tier (m_cfg m) now) (m_bots m k)"
proof -
  let ?c = "m_cfg m" and ?eff = "effHot (m_cfg m) mem" and ?T = "tenant_of (m_bots m)"
  obtain cs st ss where d:
    "\<And>e. e \<in> set cs \<longleftrightarrow> scored rnd ?c now (m_bots m) (e_key e) = Some e \<and> desired_tier ?c now e = Hot"
    "distinct (map e_key cs)" "sorted_wrt (\<lambda>x y. e_score y \<le> e_score x) cs"
    "st = greedy ?c ?eff cs ([], \<lambda>_. 0)"
    "\<And>e. e \<in> set ss \<longleftrightarrow> scored rnd ?c now (m_bots m) (e_key e) = Some e \<and> e_key e \<notin> set (fst st)"
    "distinct (map e_key ss)"
    "fst (decision rnd ords mem now m) = greedy ?c ?eff ss st"
    "snd (decision rnd ords mem now m) =
       (\<lambda>k. if k \<in> set (selected rnd ords mem now m) - set (fst st) then Some Hot
            else map_option (desired_tier ?c now) (m_bots m k))"
    "set (fst st) \<subseteq> e_key ` set cs"
    "\<And>ys zs. cs = ys @ zs \<Longrightarrow> sel_inv ?T ?c ?eff (greedy ?c ?eff ys ([], \<lambda>_. 0))"
    "\<And>ys zs. ss = ys @ zs \<Longrightarrow> sel_inv ?T ?c ?eff (greedy ?c ?eff ys st)"
    by (rule decision_cases [OF ok ord, where rnd = rnd and now = now and mem = mem]; rule that; assumption)
  show "sel_inv ?T ?c ?eff (fst (decision rnd ords mem now m))"
    unfolding d(7) by (rule d(11) [of ss "[]"]) simp
  note sub = d(9)
  have sel: "set (selected rnd ords mem now m) \<subseteq> set (fst st) \<union> e_key ` set ss"
    unfolding selected_def d(7) by (rule greedy_from)
  show "set (selected rnd ords mem now m) \<subseteq> dom (m_bots m)"
    using sub sel d(1,5) by (force simp: image_iff dom_def)
  have mono: "set (fst st) \<subseteq> set (selected rnd ords mem now m)"
    unfolding selected_def d(7) by (rule greedy_mono)
  show "snd (decision rnd ords mem now m) k = Some Hot" if "k \<in> set (selected rnd ords mem now m)"
  proof (cases "k \<in> set (fst st)")
    case True
    then obtain e where "e \<in> set cs" "e_key e = k" using sub by auto
    then show ?thesis using True d(1) [of e] by (auto simp: d(8))
  qed (use that d(8) in simp)
  show "snd (decision rnd ords mem now m) k = map_option (desired_tier ?c now) (m_bots m k)"
    if "k \<notin> set (selected rnd ords mem now m)"
    using that by (simp add: d(8))
qed

section \<open>The effect of a pass\<close>

lemma reconcile_fields [simp]:
  "e_bot (fst (reconcile c now want sel e)) = e_bot e"
  "e_lastActivity (fst (reconcile c now want sel e)) = e_lastActivity e"
  "e_rate (fst (reconcile c now want sel e)) = e_rate e"
  "e_score (fst (reconcile c now want sel e)) = e_score e"
  "e_tier (fst (reconcile c now want sel e)) = reconcile_target want sel e"
  by (simp_all add: reconcile_def Let_def)

lemma rebalance_cfg [simp]: "m_cfg (fst (rebalanceLocked rnd ords mem now m)) = m_cfg m"
  by (simp add: rebalanceLocked_eq Let_def)

abbreviation reconciled :: "(real \<Rightarrow> real) \<Rightarrow> orders \<Rightarrow> nat \<Rightarrow> go_time \<Rightarrow> Manager \<Rightarrow> entry \<Rightarrow>
    entry \<times> action list" where
  "reconciled rnd ords mem now m e \<equiv>
     reconcile (m_cfg m) now (snd (decision rnd ords mem now m)) (selected rnd ords mem now m)
       (score_entry rnd (m_cfg m) now e)"

lemma rebalance_effect:
  assumes ok: "bots_ok (m_bots m)" and ord: "orders_ok (m_bots m) ords"
  shows "m_bots (fst (rebalanceLocked rnd ords mem now m)) =
      (\<lambda>k. map_option (\<lambda>e. fst (reconciled rnd ords mem now m e)) (m_bots m k))"
    and "snd (rebalanceLocked rnd ords mem now m) =
      concat (map (\<lambda>e. snd (reconciled rnd ords mem now m e)) (entries_of (m_bots m) (snd (snd ords))))"
proof -
  have r: "range_order (m_bots m) (fst ords)" "distinct (snd (snd ords))" "set (snd (snd ords)) = dom (m_bots m)"
    using ord by (auto simp: orders_ok_def range_order_def split: prod.splits)
  have map_entries: "entries_of (\<lambda>k. map_option f (bots k)) ks = map f (entries_of bots ks)"
    for f :: "entry \<Rightarrow> entry" and bots :: "string \<rightharpoonup> entry" and ks
    by (induction ks) (auto split: option.splits)
  have "k \<notin> dom (m_bots m) \<Longrightarrow> m_bots m k = None" for k by auto
  then show "m_bots (fst (rebalanceLocked rnd ords mem now m)) =
      (\<lambda>k. map_option (\<lambda>e. fst (reconciled rnd ords mem now m e)) (m_bots m k))"
    using r by (auto simp: rebalanceLocked_eq Let_def score_pass_eq [OF r(1) ok] upd_loop_fst
        selected_def fun_eq_iff option.map_comp comp_def)
  show "snd (rebalanceLocked rnd ords mem now m) =
      concat (map (\<lambda>e. snd (reconciled rnd ords mem now m e)) (entries_of (m_bots m) (snd (snd ords))))"
    using r by (simp add: rebalanceLocked_eq Let_def score_pass_eq [OF r(1) ok] upd_loop_snd
        selected_def map_entries comp_def)
qed

lemma rebalance_target:
  assumes ok: "bots_ok (m_bots m)" and ord: "orders_ok (m_bots m) ords" and e: "m_bots m k = Some e"
  shows "reconcile_target (snd (decision rnd ords mem now m)) (selected rnd ords mem now m)
           (score_entry rnd (m_cfg m) now e) =
         (if k \<in> set (selected rnd ords mem now m) then Hot
          else if desired_tier (m_cfg m) now e = Hot then Warm else desired_tier (m_cfg m) now e)"
  using selected_inv(3,4) [OF ok ord] bots_okD [OF ok e] e
  by (auto simp: reconcile_target_def Let_def)

lemma rebalance_hot_keys:
  assumes ok: "bots_ok (m_bots m)" and ord: "orders_ok (m_bots m) ords"
  shows "hot_keys (m_bots (fst (rebalanceLocked rnd ords mem now m))) = set (selected rnd ords mem now m)"
proof -
  have "k \<in> hot_keys (m_bots (fst (rebalanceLocked rnd ords mem now m))) \<longleftrightarrow>
      k \<in> set (selected rnd ords mem now m)" for k
  proof (cases "m_bots m k")
    case None
    then have "k \<notin> set (selected rnd ords mem now m)" using selected_inv(2) [OF ok ord] by blast
    then show ?thesis using None by (simp add: hot_keys_def rebalance_effect [OF ok ord])
  next
    case (Some e)
    show ?thesis
      using rebalance_target [OF ok ord Some, where rnd = rnd and now = now and mem = mem] Some
      by (simp add: hot_keys_def rebalance_effect [OF ok ord])
  qed
  then show ?thesis by blast
qed

lemma rebalance_ok:
  "bots_ok (m_bots m) \<Longrightarrow> orders_ok (m_bots m) ords \<Longrightarrow>
   bots_ok (m_bots (fst (rebalanceLocked rnd ords mem now m)))"
  by (auto simp: rebalance_effect bots_ok_def dom_def)

lemma rebalance_dom:
  "bots_ok (m_bots m) \<Longrightarrow> orders_ok (m_bots m) ords \<Longrightarrow>
   dom (m_bots (fst (rebalanceLocked rnd ords mem now m))) = dom (m_bots m)"
  by (auto simp: rebalance_effect dom_def)

lemma rebalance_tenant:
  "bots_ok (m_bots m) \<Longrightarrow> orders_ok (m_bots m) ords \<Longrightarrow>
   tenant_of (m_bots (fst (rebalanceLocked rnd ords mem now m))) = tenant_of (m_bots m)"
  by (auto simp: rebalance_effect tenant_of_def fun_eq_iff split: option.splits)

section \<open>Why a bot is not hot after a pass\<close>

lemma rejected_card:
  assumes inv: "sel_inv T c eff st" and sub: "set (fst st) \<subseteq> G" and fin: "finite G"
    and why: "eff \<le> int (length (fst st)) \<or> tenant_full c st e"
  shows "eff \<le> int (card G) \<or>
     0 < HotPerTenant c \<and> HotPerTenant c \<le> int (card {j \<in> G. T j = e_tenant e})"
  using why
proof
  assume "eff \<le> int (length (fst st))"
  then show ?thesis
    using inv card_mono [OF fin sub] by (auto simp: sel_inv_def distinct_card [symmetric])
next
  assume "tenant_full c st e"
  then have "0 < HotPerTenant c \<and> HotPerTenant c \<le> int (card {k \<in> set (fst st). T k = e_tenant e})"
    by (rule sel_inv_full [OF inv])
  moreover have "card {k \<in> set (fst st). T k = e_tenant e} \<le> card {k \<in> G. T k = e_tenant e}"
    using sub fin by (intro card_mono) auto
  ultimately show ?thesis by auto
qed

text \<open>No bot is left out while there is a slot for it.\<close>

lemma not_selected_reason:
  assumes ok: "bots_ok (m_bots m)" and ord: "orders_ok (m_bots m) ords"
    and e: "m_bots m k = Some e" and out: "k \<notin> set (selected rnd ords mem now m)"
  shows "effHot (m_cfg m) mem \<le> int (card (set (selected rnd ords mem now m))) \<or>
     0 < HotPerTenant (m_cfg m) \<and>
     HotPerTenant (m_cfg m) \<le>
       int (card {j \<in> set (selected rnd ords mem now m). tenant_of (m_bots m) j = e_tenant e})"
proof (rule decision_cases [OF ok ord, where rnd = rnd and now = now and mem = mem])
  let ?c = "m_cfg m" and ?eff = "effHot (m_cfg m) mem"
  fix cs st ss
  assume ss: "\<And>e. e \<in> set ss \<longleftrightarrow> scored rnd ?c now (m_bots m) (e_key e) = Some e \<and> e_key e \<notin> set (fst st)"
    and S: "fst (decision rnd ords mem now m) = greedy ?c ?eff ss st"
    and inv: "\<And>ys zs. ss = ys @ zs \<Longrightarrow> sel_inv (tenant_of (m_bots m)) ?c ?eff (greedy ?c ?eff ys st)"
  let ?e = "score_entry rnd ?c now e"
  have key: "e_key ?e = k" using bots_okD [OF ok e] by simp
  have "k \<notin> set (fst st)" using out greedy_mono [of st ?c ?eff ss] by (auto simp: S selected_def)
  then have "?e \<in> set ss" using ss [of ?e] e key by simp
  then obtain ys zs where yz: "ss = ys @ ?e # zs" by (meson split_list)
  have "set (fst (greedy ?c ?eff ys st)) \<subseteq> set (selected rnd ords mem now m)"
    unfolding selected_def S yz greedy_append by (rule greedy_mono)
  moreover have "?eff \<le> int (length (fst (greedy ?c ?eff ys st))) \<or> tenant_full ?c (greedy ?c ?eff ys st) ?e"
    using out key by (intro greedy_rejects [where zs = zs]) (simp add: S yz selected_def)
  ultimately show ?thesis using rejected_card [OF inv [OF yz], of _ ?e] by simp
qed

text \<open>The hot bots that are active and score at least as high as \<open>x\<close>.\<close>

definition rivals :: "Config \<Rightarrow> go_time \<Rightarrow> (string \<rightharpoonup> entry) \<Rightarrow> float64 \<Rightarrow> string set" where
  "rivals c now bots x =
     {j. \<exists>f. bots j = Some f \<and> e_tier f = Hot \<and> desired_tier c now f = Hot \<and> x \<le> e_score f}"

text \<open>An active bot is left out only for active bots of at least its score.\<close>

lemma candidate_reason:
  assumes ok: "bots_ok (m_bots m)" and ord: "orders_ok (m_bots m) ords"
    and e: "m_bots m k = Some e" and out: "k \<notin> set (selected rnd ords mem now m)"
    and active: "desired_tier (m_cfg m) now e = Hot"
  defines "R \<equiv> rivals (m_cfg m) now (m_bots (fst (rebalanceLocked rnd ords mem now m)))
      (e_score (score_entry rnd (m_cfg m) now e))"
  shows "effHot (m_cfg m) mem \<le> int (card R) \<or>
     0 < HotPerTenant (m_cfg m) \<and>
     HotPerTenant (m_cfg m) \<le> int (card {j \<in> R. tenant_of (m_bots m) j = e_tenant e})"
proof (rule decision_cases [OF ok ord, where rnd = rnd and now = now and mem = mem])
  let ?c = "m_cfg m" and ?eff = "effHot (m_cfg m) mem"
  fix cs st ss
  assume cs: "\<And>e. e \<in> set cs \<longleftrightarrow> scored rnd ?c now (m_bots m) (e_key e) = Some e \<and> desired_tier ?c now e = Hot"
    and sorted: "sorted_wrt (\<lambda>x y. e_score y \<le> e_score x) cs"
    and st: "st = greedy ?c ?eff cs ([], \<lambda>_. 0)"
    and S: "fst (decision rnd ords mem now m) = greedy ?c ?eff ss st"
    and inv: "\<And>ys zs. cs = ys @ zs \<Longrightarrow> sel_inv (tenant_of (m_bots m)) ?c ?eff (greedy ?c ?eff ys ([], \<lambda>_. 0))"
  let ?e = "score_entry rnd ?c now e"
  have key: "e_key ?e = k" using bots_okD [OF ok e] by simp
  have mono: "set (fst st) \<subseteq> set (selected rnd ords mem now m)"
    by (simp add: S selected_def greedy_mono)
  have "?e \<in> set cs" using cs [of ?e] e key active by simp
  then obtain ys zs where yz: "cs = ys @ ?e # zs" by (meson split_list)
  let ?g = "greedy ?c ?eff ys ([], \<lambda>_. 0)"
  have hot: "set (selected rnd ords mem now m) = hot_keys (m_bots (fst (rebalanceLocked rnd ords mem now m)))"
    by (simp add: rebalance_hot_keys [OF ok ord])
  have "set (fst ?g) \<subseteq> R"
  proof
    fix j assume j: "j \<in> set (fst ?g)"
    then obtain f where f: "f \<in> set ys" "e_key f = j" using greedy_from [of ?c ?eff ys] by fastforce
    have "e_score ?e \<le> e_score f" using sorted f by (simp add: yz sorted_wrt_append)
    moreover have "j \<in> set (fst st)" 
      unfolding st yz greedy_append by (rule subsetD [OF greedy_mono j])
    then have "j \<in> hot_keys (m_bots (fst (rebalanceLocked rnd ords mem now m)))" using mono hot by auto
    ultimately show "j \<in> R"
      using f cs [of f] by (auto simp: R_def rivals_def hot_keys_def yz rebalance_effect [OF ok ord] desired_tier_def)
  qed
  moreover have "finite R"
  proof (rule finite_subset)
    show "R \<subseteq> set (selected rnd ords mem now m)" by (auto simp: hot R_def rivals_def hot_keys_def)
  qed simp
  moreover have "?eff \<le> int (length (fst ?g)) \<or> tenant_full ?c ?g ?e"
    using out key mono by (intro greedy_rejects [where zs = zs]) (auto simp: st yz)
  ultimately show ?thesis using rejected_card [OF inv [OF yz], of R ?e] by simp
qed

section \<open>The actions of a pass\<close>

text \<open>The actuator that keeps the set of open sockets.\<close>

definition socket_act :: "string set Actuator" where
  "socket_act = \<lparr>act_OpenHot = (\<lambda>b w. insert (KeyID b) w), act_CloseHot = (\<lambda>k w. w - {k}),
     act_Poll = (\<lambda>b w. w)\<rparr>"

lemma apply_actions_append [simp]:
  "apply_actions act (xs @ ys) w = apply_actions act ys (apply_actions act xs w)"
  by (simp add: apply_actions_def)

lemma apply_actions_Nil [simp]: "apply_actions act [] w = w"
  by (simp add: apply_actions_def)

text \<open>What a list of calls leaves of one bot's socket depends on that bot's socket alone, and a call
  that opens or closes it settles it.\<close>

lemma apply_actions_mono:
  "(k \<in> S \<longrightarrow> k \<in> S') \<Longrightarrow> k \<in> apply_actions socket_act as S \<longrightarrow> k \<in> apply_actions socket_act as S'"
  unfolding apply_actions_def
proof (induction as arbitrary: S S')
  case (Cons a as)
  have "k \<in> apply_action socket_act S a \<longrightarrow> k \<in> apply_action socket_act S' a"
    using Cons.prems by (cases "a_kind a") (auto simp: apply_action_def socket_act_def)
  then show ?case using Cons.IH by simp
qed simp

lemma apply_actions_opened:
  "k \<notin> S \<Longrightarrow> k \<in> apply_actions socket_act as S \<Longrightarrow> k \<in> apply_actions socket_act as S'"
  using apply_actions_mono [of k S S' as] by blast

lemma apply_actions_closed:
  "k \<in> S \<Longrightarrow> k \<notin> apply_actions socket_act as S \<Longrightarrow> k \<notin> apply_actions socket_act as S'"
  using apply_actions_mono [of k S' S as] by blast

lemma reconcile_sockets:
  assumes "e_key e \<in> w \<longleftrightarrow> e_tier e = Hot"
  shows "apply_actions socket_act (snd (reconcile c now want sel e)) w =
     (if reconcile_target want sel e = Hot then insert (e_key e) w else w - {e_key e})"
  using assms
  by (auto simp: reconcile_def Let_def apply_actions_def apply_action_def socket_act_def
      BotRef_action_def KeyID_action_def)

lemma reconcile_loop_sockets:
  "distinct (map e_key es) \<Longrightarrow> (\<And>e. e \<in> set es \<Longrightarrow> e_key e \<in> w \<longleftrightarrow> e_tier e = Hot) \<Longrightarrow>
   apply_actions socket_act (concat (map (\<lambda>e. snd (reconcile c now want sel e)) es)) w =
     (w - e_key ` set es) \<union> e_key ` {e \<in> set es. reconcile_target want sel e = Hot}"
proof (induction es arbitrary: w)
  case (Cons e es)
  let ?w = "if reconcile_target want sel e = Hot then insert (e_key e) w else w - {e_key e}"
  have step: "apply_actions socket_act (snd (reconcile c now want sel e)) w = ?w"
    using Cons.prems by (intro reconcile_sockets) auto
  have "apply_actions socket_act (concat (map (\<lambda>e. snd (reconcile c now want sel e)) es)) ?w =
     (?w - e_key ` set es) \<union> e_key ` {e \<in> set es. reconcile_target want sel e = Hot}"
    using Cons.prems by (intro Cons.IH) (auto simp: image_iff split: if_splits)
  moreover have "e_key f \<noteq> e_key e" if "f \<in> set es" for f
    using Cons.prems(1) that by (auto simp: image_iff)
  ultimately show ?case by (auto simp: step)
qed simp

text \<open>Applied to the sockets of the hot bots, the actions leave those of the new hot bots.\<close>

lemma rebalance_socket_set:
  assumes "bots_ok (m_bots m)" "orders_ok (m_bots m) ords"
  shows "apply_actions socket_act (snd (rebalanceLocked rnd ords mem now m)) (hot_keys (m_bots m)) =
     hot_keys (m_bots (fst (rebalanceLocked rnd ords mem now m)))"
proof -
  let ?es = "map (score_entry rnd (m_cfg m) now) (entries_of (m_bots m) (snd (snd ords)))"
  let ?want = "snd (decision rnd ords mem now m)" and ?sel = "selected rnd ords mem now m"
  have r: "range_order (m_bots m) (snd (snd ords))"
    using assms(2) by (auto simp: orders_ok_def split: prod.splits)
  note E = entries_of_range [OF assms(1) r]
  have key: "e \<in> set ?es \<Longrightarrow> \<exists>e0. m_bots m (e_key e) = Some e0 \<and> e = score_entry rnd (m_cfg m) now e0" for e
    using E(3) by auto
  have img: "e_key ` set ?es = dom (m_bots m)"
    using E(1) assms(1) by (force simp: ran_def dom_def image_iff dest: bots_okD)
  have acts: "apply_actions socket_act (snd (rebalanceLocked rnd ords mem now m)) (hot_keys (m_bots m)) =
      (hot_keys (m_bots m) - e_key ` set ?es) \<union> e_key ` {e \<in> set ?es. reconcile_target ?want ?sel e = Hot}"
    unfolding rebalance_effect(2) [OF assms]
    using reconcile_loop_sockets [of ?es "hot_keys (m_bots m)" "m_cfg m" now ?want ?sel] E key
    by (fastforce simp: comp_def hot_keys_def)
  have hot: "reconcile_target ?want ?sel e = Hot \<longleftrightarrow> e_key e \<in> set ?sel" if e: "e \<in> set ?es" for e
  proof -
    obtain e0 where e0: "m_bots m (e_key e) = Some e0" "e = score_entry rnd (m_cfg m) now e0"
      using key [OF e] by blast
    show ?thesis unfolding e0(2) rebalance_target [OF assms e0(1)] using e0(2) by simp
  qed
  have "e_key ` {e \<in> set ?es. reconcile_target ?want ?sel e = Hot} = {k \<in> e_key ` set ?es. k \<in> set ?sel}"
    using hot by blast
  also have "\<dots> = set ?sel" using img selected_inv(2) [OF assms, of rnd mem now] by auto
  finally show ?thesis
    using acts img hot_keys_subset [of "m_bots m"] by (auto simp: rebalance_hot_keys [OF assms])
qed

section \<open>Due polls\<close>

lemma rebalance_TierOf:
  assumes "bots_ok (m_bots m)" "orders_ok (m_bots m) ords" "m_bots m k = Some e"
  shows "TierOf (fst (rebalanceLocked rnd ords mem now m)) k = e_tier (fst (reconciled rnd ords mem now m e))"
  using assms(3) by (simp add: TierOf_def rebalance_effect [OF assms(1,2)])

lemma rebalance_poll_iff:
  assumes "bots_ok (m_bots m)" "orders_ok (m_bots m) ords" "m_bots m k = Some e"
  shows "BotRef_action actPoll (e_bot e) \<in> set (snd (rebalanceLocked rnd ords mem now m)) \<longleftrightarrow>
     TierOf (fst (rebalanceLocked rnd ords mem now m)) k \<noteq> Hot \<and> e_nextPoll e \<le> now"
proof -
  let ?r = "reconciled rnd ords mem now m"
  have r: "range_order (m_bots m) (snd (snd ords))"
    using assms(2) by (auto simp: orders_ok_def split: prod.splits)
  have mine: "BotRef_action actPoll (e_bot e) \<in> set (snd (?r f)) \<longleftrightarrow>
      e_bot e = e_bot f \<and> e_tier (fst (?r f)) \<noteq> Hot \<and> e_nextPoll f \<le> now" for f
    by (auto simp: reconcile_def Let_def BotRef_action_def KeyID_action_def)
  have "f = e" if "f \<in> set (entries_of (m_bots m) (snd (snd ords)))" "e_bot e = e_bot f" for f
    using that entries_of_range(3) [OF assms(1) r] bots_okD [OF assms(1,3)] assms(3) by simp
  moreover have "e \<in> set (entries_of (m_bots m) (snd (snd ords)))"
    using entries_of_range(3) [OF assms(1) r] bots_okD [OF assms(1,3)] assms(3) by simp
  ultimately show ?thesis
    unfolding rebalance_effect(2) [OF assms(1,2)] rebalance_TierOf [OF assms] by (auto simp: mine)
qed

lemma rebalance_nextPoll:
  assumes "bots_ok (m_bots m)" "orders_ok (m_bots m) ords" "m_bots m k = Some e"
  shows "map_option e_nextPoll (m_bots (fst (rebalanceLocked rnd ords mem now m)) k) =
     Some (if TierOf (fst (rebalanceLocked rnd ords mem now m)) k \<noteq> Hot \<and> e_nextPoll e \<le> now
           then now + poll_interval (m_cfg m) (TierOf (fst (rebalanceLocked rnd ords mem now m)) k)
           else e_nextPoll e)"
  using assms(3) unfolding rebalance_TierOf [OF assms]
  by (auto simp: rebalance_effect [OF assms(1,2)] reconcile_def Let_def)

section \<open>The other operations\<close>

lemma orders_ok_dom: "dom bots = dom bots' \<Longrightarrow> orders_ok bots ords = orders_ok bots' ords"
  by (simp add: orders_ok_def range_order_def split: prod.splits)

definition touched :: "(real \<Rightarrow> real) \<Rightarrow> go_time \<Rightarrow> string \<Rightarrow> Manager \<Rightarrow> Manager" where
  "touched rnd now k m = (case m_bots m k of
     Some e \<Rightarrow> m\<lparr>m_bots := (m_bots m)(k \<mapsto> touch_entry rnd now e)\<rparr> | None \<Rightarrow> m)"

lemma Touch_touched:
  "Touch rnd act ords mem now k (m, w) =
     (case rebalanceLocked rnd ords mem now (touched rnd now k m) of (m', acts) \<Rightarrow> (m', apply_actions act acts w))"
  by (simp add: Touch_def touched_def Let_def)

lemma touch_entry_fields [simp]:
  "e_bot (touch_entry rnd now e) = e_bot e" "e_tier (touch_entry rnd now e) = e_tier e"
  by (simp_all add: touch_entry_def)

lemma touched_cfg [simp]: "m_cfg (touched rnd now k m) = m_cfg m"
  by (simp add: touched_def split: option.split)

lemma touched_dom: "dom (m_bots (touched rnd now k m)) = dom (m_bots m)"
  by (auto simp: touched_def split: option.split)

lemma touched_ok: "bots_ok (m_bots m) \<Longrightarrow> bots_ok (m_bots (touched rnd now k m))"
  by (auto simp: touched_def bots_ok_upd bots_okD split: option.split)

lemma touched_hot: "hot_keys (m_bots (touched rnd now k m)) = hot_keys (m_bots m)"
  by (auto simp: touched_def hot_keys_def split: option.split)

lemma touched_tenant: "tenant_of (m_bots (touched rnd now k m)) = tenant_of (m_bots m)"
  by (auto simp: touched_def tenant_of_def fun_eq_iff split: option.split)

lemma Add_cfg [simp]: "m_cfg (Add t1 t2 b m) = m_cfg m"
  by (simp add: Add_def split: option.split)

lemma Add_ok: "bots_ok (m_bots m) \<Longrightarrow> bots_ok (m_bots (Add t1 t2 b m))"
  by (auto simp: Add_def bots_ok_upd split: option.split)

lemma Add_dom: "KeyID b \<in> dom (m_bots (Add t1 t2 b m))"
  by (auto simp: Add_def split: option.split)

lemma Add_hot: "hot_keys (m_bots (Add t1 t2 b m)) = hot_keys (m_bots m)"
  by (auto simp: Add_def hot_keys_def split: option.split)

lemma Add_tenant_hot:
  "k \<in> hot_keys (m_bots m) \<Longrightarrow> tenant_of (m_bots (Add t1 t2 b m)) k = tenant_of (m_bots m) k"
  by (auto simp: Add_def tenant_of_def hot_keys_def split: option.split)

lemma Remove_sockets:
  "snd (Remove socket_act k (m, hot_keys (m_bots m))) = hot_keys (m_bots (fst (Remove socket_act k (m, hot_keys (m_bots m)))))"
  by (auto simp: Remove_def socket_act_def hot_keys_def split: option.splits)

text \<open>With a slot for everyone and no fairness cap, everyone is hot.\<close>

lemma spare_capacity_all_hot:
  assumes ok: "bots_ok (m_bots m)" and ord: "orders_ok (m_bots m) ords"
    and "HotPerTenant (m_cfg m) \<le> 0" "int (card (dom (m_bots m))) \<le> effHot (m_cfg m) mem"
  shows "hot_keys (m_bots (fst (rebalanceLocked rnd ords mem now m))) = dom (m_bots m)"
proof (rule ccontr)
  let ?S = "set (selected rnd ords mem now m)"
  assume "\<not> ?thesis"
  then have "?S \<subset> dom (m_bots m)"
    using selected_inv(2) [OF ok ord, of rnd mem now] by (auto simp: rebalance_hot_keys [OF ok ord])
  then obtain k e where k: "m_bots m k = Some e" "k \<notin> ?S" by auto
  have "card ?S < card (dom (m_bots m))"
    using ok \<open>?S \<subset> dom (m_bots m)\<close> by (intro psubset_card_mono) (auto simp: bots_ok_def)
  then show False using not_selected_reason [OF ok ord k] assms(3,4) by simp
qed

end
