(* ===== verification/Tier_Correct.thy ===== *)
theory Tier_Correct
  imports Tier_Selection
begin

text \<open>
  What the tier manager guarantees: of the priority queue it selects with, of one rebalance
  pass, and of every state it can reach.  The example manager at the end of the first
  section is the concrete input of the witnesses: two fresh bots and one hot slot.
\<close>

section \<open>An example manager\<close>

definition ex_bot :: "string \<Rightarrow> string \<Rightarrow> string \<Rightarrow> BotRef" where
  "ex_bot k t p = BotRef0\<lparr>KeyID := k, TenantID := t, Plan := p\<rparr>"

definition ex_cfg :: Config where
  "ex_cfg = \<lparr>MaxHot = 1, PressureHotCap = 0, HotPerTenant = 1, WarmPoll = 0, ColdPoll = 0,
     HotIdle = 0, WarmIdle = 0, Tick = 0, PlanWeight = None, MemHighMB = 0, MemLowMB = 0\<rparr>"

definition ex_mgr :: Manager where
  "ex_mgr = Add 10 10 (ex_bot ''b'' ''t'' ''pro'')
     (Add 10 10 (ex_bot ''a'' ''t'' ''starter'') (New_Manager ex_cfg))"

definition ex_ords :: orders where
  "ex_ords = ([''a'', ''b''], [''a'', ''b''], [''b'', ''a''])"

lemma ex_bots: "m_bots ex_mgr =
   [''a'' \<mapsto> \<lparr>e_bot = ex_bot ''a'' ''t'' ''starter'', e_tier = Cold, e_lastActivity = 10,
       e_rate = 0, e_score = 0, e_nextPoll = 10\<rparr>,
    ''b'' \<mapsto> \<lparr>e_bot = ex_bot ''b'' ''t'' ''pro'', e_tier = Cold, e_lastActivity = 10,
       e_rate = 0, e_score = 0, e_nextPoll = 10\<rparr>]"
  by (simp add: ex_mgr_def Add_def New_Manager_def ex_bot_def)

lemma ex_ok: "bots_ok (m_bots ex_mgr)" "orders_ok (m_bots ex_mgr) ex_ords"
  "range_order (m_bots ex_mgr) [''a'', ''b'']"
  by (auto simp: ex_bots bots_ok_def orders_ok_def ex_ords_def range_order_def ex_bot_def)

section \<open>The priority queue\<close>

text \<open>Heapifying the candidates and popping them all yields every candidate exactly once,
  in order of descending score.\<close>

theorem score_heap_drains_sorted:
  "\<exists>xs. score_queue.pops (heap_Init es) xs \<and> mset xs = mset es \<and>
     sorted_wrt (\<lambda>x y. e_score y \<le> e_score x) xs"
  using score_queue.pops_ex [OF score_queue.init_inv, of es] score_queue.pops_init by blast

section \<open>One rebalance pass\<close>

text \<open>C8. After a pass no more bots are hot than the budget in force (the pressure cap when
  the heap is at or above the watermark, \<open>MaxHot\<close> otherwise).\<close>

theorem rebalance_hot_budget:
  assumes "bots_ok (m_bots m)" "orders_ok (m_bots m) ords" "range_order (m_bots m) ks"
  shows "int (HotCount ks (fst (Rebalance rnd act ords mem now (m, w)))) \<le> max 0 (effHot (m_cfg m) mem)"
proof -
  let ?m = "fst (rebalanceLocked rnd ords mem now m)"
  have "range_order (m_bots ?m) ks"
    using assms rebalance_dom range_order_dom by metis
  then have "HotCount ks ?m = card (set (selected rnd ords mem now m))"
    using assms by (simp add: HotCount_card rebalance_hot_keys)
  then show ?thesis
    using selected_inv(1) [OF assms(1,2), of mem rnd now]
    by (simp add: Rebalance_def split_beta sel_inv_def selected_def distinct_card)
qed

theorem rebalance_hot_budget_witness:
  "int (HotCount [''a'', ''b''] (fst (Rebalance id socket_act ex_ords 0 20 (ex_mgr, {})))) \<le>
     max 0 (effHot (m_cfg ex_mgr) 0)"
  by (rule rebalance_hot_budget) (rule ex_ok)+

text \<open>C19. With a fairness cap, no tenant has more hot bots than the cap after a pass.\<close>

theorem rebalance_tenant_fairness:
  assumes "bots_ok (m_bots m)" "orders_ok (m_bots m) ords" "0 < HotPerTenant (m_cfg m)"
  shows "int (card {k \<in> hot_keys (m_bots (fst (rebalanceLocked rnd ords mem now m))).
      tenant_of (m_bots m) k = t}) \<le> HotPerTenant (m_cfg m)"
  using selected_inv(1) [OF assms(1,2), of mem rnd now] assms
  by (auto simp: rebalance_hot_keys sel_inv_def selected_def length_filter_card)

theorem rebalance_tenant_fairness_witness:
  "0 < HotPerTenant (m_cfg ex_mgr) \<and>
   int (card {k \<in> hot_keys (m_bots (fst (rebalanceLocked id ex_ords 0 20 ex_mgr))).
      tenant_of (m_bots ex_mgr) k = ''t''}) \<le> 1"
proof -
  have cap: "HotPerTenant (m_cfg ex_mgr) = 1"
    by (simp add: ex_mgr_def Add_def New_Manager_def ex_cfg_def ex_bot_def)
  then show ?thesis using rebalance_tenant_fairness [OF ex_ok(1,2), where rnd = id and mem = 0 and now = 20 and t = "''t''"] by simp
qed

text \<open>C3. Priority: an active bot is refused a hot slot only when the whole budget went to
  active bots scoring at least as high, or when active bots of its own tenant scoring at
  least as high fill the tenant's cap.  In particular no idle bot takes its slot.\<close>

theorem rebalance_priority:
  assumes "bots_ok (m_bots m)" "orders_ok (m_bots m) ords"
    and "m_bots (fst (rebalanceLocked rnd ords mem now m)) k = Some e"
    and "e_tier e \<noteq> Hot" "desired_tier (m_cfg m) now e = Hot"
  defines "R \<equiv> rivals (m_cfg m) now (m_bots (fst (rebalanceLocked rnd ords mem now m))) (e_score e)"
  shows "effHot (m_cfg m) mem \<le> int (card R) \<or>
     0 < HotPerTenant (m_cfg m) \<and>
     HotPerTenant (m_cfg m) \<le> int (card {j \<in> R. tenant_of (m_bots m) j = e_tenant e})"
proof -
  obtain e0 where e0: "m_bots m k = Some e0" "e = fst (reconciled rnd ords mem now m e0)"
    using assms(3) by (auto simp: rebalance_effect [OF assms(1,2)])
  have "k \<notin> set (selected rnd ords mem now m)"
    using assms(3,4) by (auto simp: hot_keys_def simp flip: rebalance_hot_keys [OF assms(1,2)])
  moreover have "desired_tier (m_cfg m) now e0 = Hot" using assms(5) by (simp add: e0 desired_tier_def)
  ultimately show ?thesis
    using candidate_reason [OF assms(1,2) e0(1)] by (simp add: R_def e0(2))
qed

theorem rebalance_priority_witness:
  "\<exists>e. m_bots (fst (rebalanceLocked id ex_ords 0 20 ex_mgr)) ''a'' = Some e \<and> e_tier e = Warm \<and>
     (1 \<le> int (card (rivals (m_cfg ex_mgr) 20 (m_bots (fst (rebalanceLocked id ex_ords 0 20 ex_mgr))) (e_score e))) \<or>
      1 \<le> int (card {j \<in> rivals (m_cfg ex_mgr) 20
          (m_bots (fst (rebalanceLocked id ex_ords 0 20 ex_mgr))) (e_score e).
            tenant_of (m_bots ex_mgr) j = e_tenant e}))"
proof -
  obtain e where e: "m_bots (fst (rebalanceLocked id ex_ords 0 20 ex_mgr)) ''a'' = Some e"
    by (auto simp: rebalance_effect [OF ex_ok(1,2)] ex_bots)
  have cfg: "m_cfg ex_mgr = withDefaults ex_cfg" by (simp add: ex_mgr_def Add_def New_Manager_def ex_bot_def)
  have "TierOf (fst (rebalanceLocked id ex_ords 0 20 ex_mgr)) ''a'' = Warm" by code_simp
  then have warm: "e_tier e = Warm" using e by (simp add: TierOf_def)
  have "desired_tier (m_cfg ex_mgr) 20 e = Hot"
    using e by (auto simp: rebalance_effect [OF ex_ok(1,2)] ex_bots desired_tier_def cfg withDefaults_def
        ex_cfg_def time_Sub_def time_IsZero_def)
  then show ?thesis
    using rebalance_priority [OF ex_ok(1,2) e] warm e by (auto simp: cfg effHot_def withDefaults_def ex_cfg_def)
qed

text \<open>C26. Work conservation: a bot, active or idle, is without a socket after a pass only if
  the budget is used up or its tenant's cap is.\<close>

theorem rebalance_work_conserving:
  assumes "bots_ok (m_bots m)" "orders_ok (m_bots m) ords" "m_bots m k = Some e"
    and "k \<notin> hot_keys (m_bots (fst (rebalanceLocked rnd ords mem now m)))"
  defines "H \<equiv> hot_keys (m_bots (fst (rebalanceLocked rnd ords mem now m)))"
  shows "effHot (m_cfg m) mem \<le> int (card H) \<or>
     0 < HotPerTenant (m_cfg m) \<and>
     HotPerTenant (m_cfg m) \<le> int (card {j \<in> H. tenant_of (m_bots m) j = e_tenant e})"
  using not_selected_reason [OF assms(1,2,3)] assms(4) by (simp add: H_def rebalance_hot_keys [OF assms(1,2)])

theorem rebalance_work_conserving_witness:
  "let H = hot_keys (m_bots (fst (rebalanceLocked id ex_ords 0 20 ex_mgr))) in
     ''a'' \<notin> H \<and> (1 \<le> int (card H) \<or> 1 \<le> int (card {j \<in> H. tenant_of (m_bots ex_mgr) j = ''t''}))"
proof -
  have cfg: "m_cfg ex_mgr = withDefaults ex_cfg" by (simp add: ex_mgr_def Add_def New_Manager_def ex_bot_def)
  have "TierOf (fst (rebalanceLocked id ex_ords 0 20 ex_mgr)) ''a'' = Warm" by code_simp
  then have out: "''a'' \<notin> hot_keys (m_bots (fst (rebalanceLocked id ex_ords 0 20 ex_mgr)))"
    by (auto simp: TierOf_def hot_keys_def)
  show ?thesis
    using out rebalance_work_conserving [OF ex_ok(1,2) _ out, of "the (m_bots ex_mgr ''a'')"]
    by (simp add: Let_def cfg effHot_def withDefaults_def ex_cfg_def ex_bots ex_bot_def split: if_splits)
qed

text \<open>The actions of a pass keep sockets and tiers in step: applied to the sockets of the
  bots that were hot, they leave exactly the sockets of the bots that are hot now.\<close>

theorem rebalance_sockets_follow_tiers:
  assumes "bots_ok (m_bots m)" "orders_ok (m_bots m) ords"
  shows "Rebalance rnd socket_act ords mem now (m, hot_keys (m_bots m)) =
     (let m' = fst (rebalanceLocked rnd ords mem now m) in (m', hot_keys (m_bots m')))"
  using rebalance_socket_set [OF assms] by (simp add: Rebalance_def split_beta Let_def)

theorem rebalance_sockets_follow_tiers_witness:
  "Rebalance id socket_act ex_ords 0 20 (ex_mgr, hot_keys (m_bots ex_mgr)) =
     (let m' = fst (rebalanceLocked id ex_ords 0 20 ex_mgr) in (m', hot_keys (m_bots m')))"
  by (rule rebalance_sockets_follow_tiers [OF ex_ok(1,2)])


text \<open>The tier of every bot after a pass: hot if it holds a slot; otherwise warm or cold by
  how long it has been idle, an active bot without a slot being warm.\<close>

theorem rebalance_tier_table:
  assumes "bots_ok (m_bots m)" "orders_ok (m_bots m) ords" "m_bots m k = Some e"
    and "k \<notin> hot_keys (m_bots (fst (rebalanceLocked rnd ords mem now m)))"
  shows "TierOf (fst (rebalanceLocked rnd ords mem now m)) k =
     (if time_IsZero (e_lastActivity e) \<or> time_Sub now (e_lastActivity e) > WarmIdle (m_cfg m)
      then Cold else Warm)"
proof -
  have "k \<notin> set (selected rnd ords mem now m)"
    using assms(4) by (simp add: rebalance_hot_keys [OF assms(1,2)])
  then show ?thesis
    using rebalance_target [OF assms(1,2,3), where rnd = rnd and now = now and mem = mem]
    by (simp add: rebalance_TierOf [OF assms(1-3)] desired_tier_def Let_def)
qed

theorem rebalance_tier_table_witness:
  "TierOf (fst (rebalanceLocked id ex_ords 0 (11 * minute + 10) ex_mgr)) ''a'' = Cold"
proof -
  have cfg: "m_cfg ex_mgr = withDefaults ex_cfg" by (simp add: ex_mgr_def Add_def New_Manager_def ex_bot_def)
  have "TierOf (fst (rebalanceLocked id ex_ords 0 (11 * minute + 10) ex_mgr)) ''a'' \<noteq> Hot" by code_simp
  then have "''a'' \<notin> hot_keys (m_bots (fst (rebalanceLocked id ex_ords 0 (11 * minute + 10) ex_mgr)))"
    by (auto simp: TierOf_def hot_keys_def)
  from rebalance_tier_table [OF ex_ok(1,2) _ this, of "the (m_bots ex_mgr ''a'')"] show ?thesis
    by (simp add: ex_bots ex_bot_def cfg withDefaults_def ex_cfg_def time_Sub_def)
qed

text \<open>C27. A pass polls exactly the bots that are not hot after it and whose \<open>nextPoll\<close> has come,
  and moves the \<open>nextPoll\<close> of exactly those one interval of their new tier ahead.\<close>

theorem rebalance_polls_due_bots:
  fixes rnd :: "real \<Rightarrow> real" and mem :: nat and now :: go_time
  assumes "bots_ok (m_bots m)" "orders_ok (m_bots m) ords" "m_bots m k = Some e"
  defines "m' \<equiv> fst (rebalanceLocked rnd ords mem now m)"
    and "acts \<equiv> snd (rebalanceLocked rnd ords mem now m)"
  shows "(BotRef_action actPoll (e_bot e) \<in> set acts) = (TierOf m' k \<noteq> Hot \<and> e_nextPoll e \<le> now) \<and>
     map_option e_nextPoll (m_bots m' k) =
       Some (if TierOf m' k \<noteq> Hot \<and> e_nextPoll e \<le> now
             then now + poll_interval (m_cfg m) (TierOf m' k) else e_nextPoll e)"
  unfolding m'_def acts_def
  using rebalance_poll_iff [OF assms(1-3), where rnd = rnd and mem = mem and now = now]
    rebalance_nextPoll [OF assms(1-3), where rnd = rnd and mem = mem and now = now] by blast

theorem rebalance_polls_due_bots_witness:
  "BotRef_action actPoll (ex_bot ''a'' ''t'' ''starter'') \<in>
     set (snd (rebalanceLocked id ex_ords 0 20 ex_mgr))"
proof -
  have "TierOf (fst (rebalanceLocked id ex_ords 0 20 ex_mgr)) ''a'' = Warm" by code_simp
  then show ?thesis
    using rebalance_polls_due_bots [OF ex_ok(1,2), of "''a''" "the (m_bots ex_mgr ''a'')" id 0 20]
    by (simp add: ex_bots)
qed

text \<open>The poll cadence is a floor: after a pass has polled a bot, no later pass does so
  again before the shorter of the two poll intervals has gone by.\<close>

theorem polls_are_spaced:
  fixes rnd :: "real \<Rightarrow> real" and mem mem2 :: nat and now now2 :: go_time
  assumes "bots_ok (m_bots m)" "orders_ok (m_bots m) ords" "m_bots m k = Some e"
  defines "m' \<equiv> fst (rebalanceLocked rnd ords mem now m)"
  assumes "orders_ok (m_bots m') ords2"
    and "BotRef_action actPoll (e_bot e) \<in> set (snd (rebalanceLocked rnd ords mem now m))"
    and "now2 < now + min (WarmPoll (m_cfg m)) (ColdPoll (m_cfg m))"
  shows "BotRef_action actPoll (e_bot e) \<notin> set (snd (rebalanceLocked rnd ords2 mem2 now2 m'))"
proof -
  obtain e' where e': "m_bots m' k = Some e'" "e_bot e' = e_bot e"
    using assms(3) by (simp add: m'_def rebalance_effect [OF assms(1,2)])
  have "e_nextPoll e' = now + poll_interval (m_cfg m) (TierOf m' k)"
    using rebalance_nextPoll [OF assms(1-3), where rnd = rnd and mem = mem and now = now]
      rebalance_poll_iff [OF assms(1-3), where rnd = rnd and mem = mem and now = now] assms(6) e'(1)
    by (simp add: m'_def)
  moreover have "min (WarmPoll (m_cfg m)) (ColdPoll (m_cfg m)) \<le> poll_interval (m_cfg m) t" for t
    by (simp add: poll_interval_def)
  ultimately have "\<not> e_nextPoll e' \<le> now2" using assms(7) by (smt (verit))
  moreover have "bots_ok (m_bots m')" unfolding m'_def by (rule rebalance_ok [OF assms(1,2)])
  ultimately show ?thesis using rebalance_poll_iff [OF _ assms(5) e'(1)] e'(2) by metis
qed

theorem polls_are_spaced_witness:
  "BotRef_action actPoll (ex_bot ''a'' ''t'' ''starter'') \<notin>
     set (snd (rebalanceLocked id ex_ords 0 30 (fst (rebalanceLocked id ex_ords 0 20 ex_mgr))))"
proof -
  have cfg: "m_cfg ex_mgr = withDefaults ex_cfg" by (simp add: ex_mgr_def Add_def New_Manager_def ex_bot_def)
  have "TierOf (fst (rebalanceLocked id ex_ords 0 20 ex_mgr)) ''a'' = Warm" by code_simp
  then have poll: "BotRef_action actPoll (ex_bot ''a'' ''t'' ''starter'') \<in>
      set (snd (rebalanceLocked id ex_ords 0 20 ex_mgr))"
    using rebalance_poll_iff [OF ex_ok(1,2), of "''a''" "the (m_bots ex_mgr ''a'')" id 0 20]
    by (simp add: ex_bots)
  have ords: "orders_ok (m_bots (fst (rebalanceLocked id ex_ords 0 20 ex_mgr))) ex_ords"
    using ex_ok by (simp add: orders_ok_dom [OF rebalance_dom [OF ex_ok(1,2)]])
  show ?thesis
    using polls_are_spaced [OF ex_ok(1,2) _ ords, of "''a''" "the (m_bots ex_mgr ''a'')" 30 0] poll
    by (simp add: ex_bots cfg withDefaults_def ex_cfg_def)
qed

section \<open>Touch and Add\<close>

text \<open>C28. A bot that has just handled a message is hot when \<open>Touch\<close> returns, unless active
  bots scoring at least as high hold the whole budget or fill its tenant's cap.\<close>

theorem touch_promotes:
  fixes rnd :: "real \<Rightarrow> real" and mem :: nat and now :: go_time and act :: "'w Actuator" and w :: 'w
  assumes "bots_ok (m_bots m)" "orders_ok (m_bots m) ords" "config_ok (m_cfg m)"
    and "m_bots m k = Some e" "now \<noteq> 0"
  defines "m' \<equiv> fst (Touch rnd act ords mem now k (m, w))"
  assumes "TierOf m' k \<noteq> Hot"
  defines "R \<equiv> rivals (m_cfg m) now (m_bots m') (e_score (the (m_bots m' k)))"
  shows "effHot (m_cfg m) mem \<le> int (card R) \<or>
     0 < HotPerTenant (m_cfg m) \<and>
     HotPerTenant (m_cfg m) \<le> int (card {j \<in> R. tenant_of (m_bots m) j = e_tenant e})"
proof -
  let ?m1 = "touched rnd now k m" and ?e1 = "touch_entry rnd now e"
  have ok: "bots_ok (m_bots ?m1)" "orders_ok (m_bots ?m1) ords"
    using assms(1,2) by (simp_all add: touched_ok orders_ok_dom [OF touched_dom])
  have m': "m' = fst (rebalanceLocked rnd ords mem now ?m1)"
    by (simp add: m'_def Touch_touched split_beta)
  have e1: "m_bots ?m1 k = Some ?e1" using assms(4) by (simp add: touched_def)
  obtain e' where e': "m_bots m' k = Some e'" "e' = fst (reconciled rnd ords mem now ?m1 ?e1)"
    using e1 by (simp add: m' rebalance_effect [OF ok])
  have "k \<notin> set (selected rnd ords mem now ?m1)"
    using assms(7) e'(1) by (auto simp: TierOf_def hot_keys_def m' simp flip: rebalance_hot_keys [OF ok])
  moreover have "desired_tier (m_cfg m) now ?e1 = Hot"
    using assms(3,5) by (auto simp: desired_tier_def touch_entry_def config_ok_def time_IsZero_def)
  ultimately show ?thesis
    using candidate_reason [OF ok e1] e' m'
    by (simp add: R_def touched_tenant)
qed

theorem touch_promotes_witness:
  "let m' = fst (Touch id socket_act ex_ords 0 20 ''a'' (ex_mgr, {})) in
     TierOf m' ''a'' = Warm \<and> (
       1 \<le> int (card (rivals (m_cfg ex_mgr) 20 (m_bots m') (e_score (the (m_bots m' ''a''))))) \<or>
       1 \<le> int (card {j \<in> rivals (m_cfg ex_mgr) 20 (m_bots m') (e_score (the (m_bots m' ''a''))).
         tenant_of (m_bots ex_mgr) j = ''t''}))"
proof -
  have cfg: "m_cfg ex_mgr = withDefaults ex_cfg" by (simp add: ex_mgr_def Add_def New_Manager_def ex_bot_def)
  have warm: "TierOf (fst (Touch id socket_act ex_ords 0 20 ''a'' (ex_mgr, {}))) ''a'' = Warm" by code_simp
  have "config_ok (m_cfg ex_mgr)" by (simp add: cfg config_ok_withDefaults)
  from touch_promotes [OF ex_ok(1,2) this, of "''a''" "the (m_bots ex_mgr ''a'')" 20 id socket_act 0 "{}"] warm
  show ?thesis
    by (auto simp: Let_def cfg effHot_def withDefaults_def ex_cfg_def ex_bots ex_bot_def)
qed

text \<open>No cold-start deadlock: with slots for every bot and no fairness cap, a newly added
  bot has a socket after the next pass, although nothing was ever received for it.\<close>

theorem added_bot_gets_socket:
  assumes "bots_ok (m_bots m)" "orders_ok (m_bots (Add t1 t2 b m)) ords"
    and "HotPerTenant (m_cfg m) \<le> 0" "int (card (dom (m_bots (Add t1 t2 b m)))) \<le> effHot (m_cfg m) mem"
  shows "KeyID b \<in> snd (Rebalance rnd socket_act ords mem now (Add t1 t2 b m, hot_keys (m_bots (Add t1 t2 b m))))"
proof -
  let ?m = "Add t1 t2 b m"
  have ok: "bots_ok (m_bots ?m)" using assms(1) by (rule Add_ok)
  have "KeyID b \<in> dom (m_bots ?m)" by (rule Add_dom)
  then have "KeyID b \<in> hot_keys (m_bots (fst (rebalanceLocked rnd ords mem now ?m)))"
    using spare_capacity_all_hot [OF ok assms(2)] assms(3,4) by simp
  then show ?thesis
    by (simp add: Rebalance_def split_beta rebalance_socket_set [OF ok assms(2)])
qed

theorem added_bot_gets_socket_witness:
  "let m = New_Manager (ex_cfg\<lparr>HotPerTenant := 0\<rparr>); b = ex_bot ''a'' ''t'' ''starter'' in
   ''a'' \<in> snd (Rebalance id socket_act ([''a''], [''a''], [''a'']) 0 20
     (Add 10 10 b m, hot_keys (m_bots (Add 10 10 b m))))"
proof -
  let ?m = "New_Manager (ex_cfg\<lparr>HotPerTenant := 0\<rparr>)" and ?b = "ex_bot ''a'' ''t'' ''starter''"
  have "bots_ok (m_bots ?m)" by (simp add: New_Manager_def bots_ok_def)
  moreover have "orders_ok (m_bots (Add 10 10 ?b ?m)) ([''a''], [''a''], [''a''])"
    by (auto simp: New_Manager_def Add_def ex_bot_def orders_ok_def range_order_def)
  ultimately show ?thesis
    using added_bot_gets_socket [of ?m 10 10 ?b "([''a''], [''a''], [''a''])" 0 id 20]
    by (simp add: New_Manager_def Add_def ex_bot_def effHot_def withDefaults_def ex_cfg_def Let_def)
qed

section \<open>Every reachable state\<close>

text \<open>The actuator that only notes the calls it is given, in order: what the engine does with them,
  and when, is left open.\<close>

definition log_act :: "action list Actuator" where
  "log_act = \<lparr>act_OpenHot = (\<lambda>b calls. calls @ [BotRef_action actOpenHot b]),
     act_CloseHot = (\<lambda>k calls. calls @ [KeyID_action actCloseHot k]),
     act_Poll = (\<lambda>b calls. calls @ [BotRef_action actPoll b])\<rparr>"

text \<open>The bots whose last call was \<open>OpenHot\<close>.\<close>

definition told_open :: "action list \<Rightarrow> string set" where
  "told_open calls = apply_actions socket_act calls {}"

text \<open>The histories of a manager: any sequence of its operations, which its mutex makes one, at any
  clock and heap readings and in any order of its map; with the calls it makes and the bots that
  were demoted by \<open>ForceTier\<close>, which makes no call (the engine uses it for a bot whose socket it has
  lost or could not open).\<close>

inductive mgr_run :: "(real \<Rightarrow> real) \<Rightarrow> Config \<Rightarrow> string set \<Rightarrow> Manager \<times> action list \<Rightarrow> bool"
  for rnd :: "real \<Rightarrow> real" and c :: Config where
  new: "mgr_run rnd c {} (New_Manager c, [])"
| add: "mgr_run rnd c F (m, calls) \<Longrightarrow> mgr_run rnd c F (Add t1 t2 b m, calls)"
| remove: "mgr_run rnd c F (m, calls) \<Longrightarrow> mgr_run rnd c F (Remove log_act k (m, calls))"
| touch: "mgr_run rnd c F (m, calls) \<Longrightarrow> orders_ok (m_bots m) ords \<Longrightarrow>
     mgr_run rnd c F (Touch rnd log_act ords mem now k (m, calls))"
| rebalance: "mgr_run rnd c F (m, calls) \<Longrightarrow> orders_ok (m_bots m) ords \<Longrightarrow>
     mgr_run rnd c F (Rebalance rnd log_act ords mem now (m, calls))"
| force: "mgr_run rnd c F (m, calls) \<Longrightarrow> t \<noteq> Hot \<Longrightarrow> mgr_run rnd c (insert k F) (ForceTier k t m, calls)"

lemma told_open_log [simp]:
  "told_open (act_OpenHot log_act b calls) = insert (KeyID b) (told_open calls)"
  "told_open (act_CloseHot log_act k calls) = told_open calls - {k}"
  "told_open (act_Poll log_act b calls) = told_open calls"
  by (simp_all add: told_open_def log_act_def apply_actions_def apply_action_def socket_act_def
      BotRef_action_def KeyID_action_def)

text \<open>The notes are a service too, in the sense of \<open>Socket_Service\<close>.\<close>

lemma told_open_actions: "told_open (apply_actions log_act as calls) = apply_actions socket_act as (told_open calls)"
  unfolding apply_actions_def
proof (induction as arbitrary: calls)
  case (Cons a as)
  have "told_open (apply_action log_act calls a) = apply_action socket_act (told_open calls) a"
    by (cases "a_kind a") (simp_all add: apply_action_def socket_act_def)
  then show ?case using Cons.IH [of "apply_action log_act calls a"] by simp
qed simp

definition mgr_inv :: "Config \<Rightarrow> Manager \<Rightarrow> bool" where
  "mgr_inv c m \<longleftrightarrow> m_cfg m = withDefaults c \<and> bots_ok (m_bots m) \<and>
     int (card (hot_keys (m_bots m))) \<le> max (MaxHot (withDefaults c)) (PressureHotCap c) \<and>
     (0 < HotPerTenant c \<longrightarrow>
       (\<forall>t. int (card {k \<in> hot_keys (m_bots m). tenant_of (m_bots m) k = t}) \<le> HotPerTenant c))"

definition calls_ok :: "string set \<Rightarrow> Manager \<Rightarrow> action list \<Rightarrow> bool" where
  "calls_ok F m calls \<longleftrightarrow> hot_keys (m_bots m) \<subseteq> told_open calls \<and> told_open calls \<subseteq> hot_keys (m_bots m) \<union> F"

lemma le_trans_int_card: "card A \<le> card B \<Longrightarrow> int (card B) \<le> x \<Longrightarrow> int (card A) \<le> x"
  by linarith

lemma mgr_inv_shrink:
  assumes "mgr_inv c m" "m_cfg m' = m_cfg m" "bots_ok (m_bots m')" "hot_keys (m_bots m') \<subseteq> hot_keys (m_bots m)"
    "\<And>k. k \<in> hot_keys (m_bots m') \<Longrightarrow> tenant_of (m_bots m') k = tenant_of (m_bots m) k"
  shows "mgr_inv c m'"
proof -
  have fin: "finite (hot_keys (m_bots m))"
    using assms(1) hot_keys_subset by (auto simp: mgr_inv_def bots_ok_def intro: finite_subset)
  have "card (hot_keys (m_bots m')) \<le> card (hot_keys (m_bots m))" using fin assms(4) by (rule card_mono)
  moreover have "card {k \<in> hot_keys (m_bots m'). tenant_of (m_bots m') k = t} \<le>
      card {k \<in> hot_keys (m_bots m). tenant_of (m_bots m) k = t}" for t
    using fin assms(4,5) by (intro card_mono) auto
  ultimately show ?thesis
    using assms(1-3) unfolding mgr_inv_def
    by (simp add: le_trans_int_card) (meson le_trans_int_card)
qed

lemma mgr_inv_rebalance:
  assumes "mgr_inv c m" "orders_ok (m_bots m) ords"
  shows "mgr_inv c (fst (rebalanceLocked rnd ords mem now m))"
proof -
  have ok: "bots_ok (m_bots m)" and cfg: "m_cfg m = withDefaults c" using assms(1) by (simp_all add: mgr_inv_def)
  have pos: "0 < MaxHot (withDefaults c)" using config_ok_withDefaults by (simp add: config_ok_def)
  have "sel_inv (tenant_of (m_bots m)) (m_cfg m) (effHot (m_cfg m) mem) (fst (decision rnd ords mem now m))"
    by (rule selected_inv [OF ok assms(2)])
  then show ?thesis
    using ok cfg pos rebalance_ok [OF ok assms(2)]
    by (auto simp: mgr_inv_def rebalance_hot_keys [OF ok assms(2)] rebalance_tenant [OF ok assms(2)]
        sel_inv_def selected_def distinct_card effHot_def length_filter_card split: if_splits)
qed

text \<open>The calls of a pass turn the old hot bots into the new, whatever else is open.\<close>

lemma calls_ok_pass:
  assumes "calls_ok F m calls" "bots_ok (m_bots m)" "orders_ok (m_bots m) ords"
  shows "calls_ok F (fst (rebalanceLocked rnd ords mem now m))
    (apply_actions log_act (snd (rebalanceLocked rnd ords mem now m)) calls)"
proof -
  let ?as = "snd (rebalanceLocked rnd ords mem now m)" and ?H = "hot_keys (m_bots m)"
  have s: "apply_actions socket_act ?as ?H = hot_keys (m_bots (fst (rebalanceLocked rnd ords mem now m)))"
    by (rule rebalance_socket_set [OF assms(2,3)])
  have sub: "?H \<subseteq> told_open calls" "told_open calls \<subseteq> ?H \<union> F" using assms(1) by (simp_all add: calls_ok_def)
  have "apply_actions socket_act ?as ?H \<subseteq> apply_actions socket_act ?as (told_open calls)"
    using apply_actions_mono sub(1) by blast
  moreover have "k \<in> apply_actions socket_act ?as ?H \<union> F" if "k \<in> apply_actions socket_act ?as (told_open calls)" for k
    using apply_actions_mono [of k "told_open calls" ?H ?as] sub(2) that by blast
  ultimately show ?thesis unfolding calls_ok_def told_open_actions s by blast
qed

lemma mgr_run_inv: "mgr_run rnd c F s \<Longrightarrow> mgr_inv c (fst s) \<and> calls_ok F (fst s) (snd s)"
proof (induction rule: mgr_run.induct)
  case new
  have "0 < MaxHot (withDefaults c)" using config_ok_withDefaults by (simp add: config_ok_def)
  then show ?case by (auto simp: mgr_inv_def calls_ok_def told_open_def New_Manager_def bots_ok_def hot_keys_def)
next
  case (add F m calls t1 t2 b)
  then have i: "mgr_inv c m" "calls_ok F m calls" by simp_all
  have "mgr_inv c (Add t1 t2 b m)"
    by (rule mgr_inv_shrink [OF i(1)]) (use i(1) in \<open>auto simp: mgr_inv_def Add_ok Add_hot Add_tenant_hot\<close>)
  then show ?case using i(2) by (simp add: calls_ok_def Add_hot)
next
  case (remove F m calls k)
  then have i: "mgr_inv c m" "calls_ok F m calls" by simp_all
  let ?m = "fst (Remove log_act k (m, calls))"
  have "mgr_inv c ?m"
    by (rule mgr_inv_shrink [OF i(1)])
      (use i(1) in \<open>auto simp: mgr_inv_def Remove_def bots_ok_del hot_keys_def tenant_of_def split: option.splits if_splits\<close>)
  moreover have "calls_ok F ?m (snd (Remove log_act k (m, calls)))"
    using i(2) by (auto simp: calls_ok_def Remove_def hot_keys_def split: option.splits)
  ultimately show ?case by blast
next
  case (touch F m calls ords mem now k)
  then have i: "mgr_inv c m" "calls_ok F m calls" by simp_all
  have v: "mgr_inv c (touched rnd now k m)"
    by (rule mgr_inv_shrink [OF i(1)]) (use i(1) in \<open>auto simp: mgr_inv_def touched_ok touched_hot touched_tenant\<close>)
  have o: "orders_ok (m_bots (touched rnd now k m)) ords"
    using touch.hyps(2) by (simp add: orders_ok_dom [OF touched_dom])
  have "bots_ok (m_bots (touched rnd now k m))" "calls_ok F (touched rnd now k m) calls"
    using v i(2) by (simp_all add: calls_ok_def touched_hot mgr_inv_def)
  then show ?case
    using mgr_inv_rebalance [OF v o] calls_ok_pass [OF _ _ o] by (simp add: Touch_touched split_beta)
next
  case (rebalance F m calls ords mem now)
  then have i: "mgr_inv c m" "calls_ok F m calls" by simp_all
  then have "bots_ok (m_bots m)" by (simp add: mgr_inv_def)
  then show ?case
    using mgr_inv_rebalance [OF i(1) rebalance.hyps(2)] calls_ok_pass [OF i(2) _ rebalance.hyps(2)]
    by (simp add: Rebalance_def split_beta)
next
  case (force F m calls t k)
  then have i: "mgr_inv c m" "calls_ok F m calls" by simp_all
  have hot: "hot_keys (m_bots (ForceTier k t m)) = hot_keys (m_bots m) - {k}"
    using force.hyps(2) by (auto simp: hot_keys_def ForceTier_def split: option.splits if_splits)
  have "mgr_inv c (ForceTier k t m)"
    by (rule mgr_inv_shrink [OF i(1)])
      (use i(1) hot in \<open>auto simp: mgr_inv_def ForceTier_def tenant_of_def bots_ok_upd bots_okD split: option.splits if_splits\<close>)
  then show ?case using i(2) hot by (auto simp: calls_ok_def)
qed

text \<open>Two passes whose calls are made after the manager's mutex is released may make them in the
  wrong order: when the first demotes a bot and the second promotes it again, and the calls of the
  first come last, the bot is hot without a socket.\<close>

lemma late_calls_close_a_hot_bot:
  assumes "bots_ok (m_bots m)" "orders_ok (m_bots m) ords" "rebalanceLocked rnd ords mem now m = (m1, as1)"
    and "orders_ok (m_bots m1) ords'" "rebalanceLocked rnd ords' mem' now' m1 = (m2, as2)"
    and "k \<in> hot_keys (m_bots m)" "k \<notin> hot_keys (m_bots m1)" "k \<in> hot_keys (m_bots m2)"
  shows "k \<notin> apply_actions socket_act as1 (apply_actions socket_act as2 (hot_keys (m_bots m))) \<and>
    k \<in> apply_actions socket_act as2 (apply_actions socket_act as1 (hot_keys (m_bots m)))"
proof -
  have ok: "bots_ok (m_bots m1)" using rebalance_ok [OF assms(1,2), of rnd mem now] assms(3) by simp
  have s: "apply_actions socket_act as1 (hot_keys (m_bots m)) = hot_keys (m_bots m1)"
    "apply_actions socket_act as2 (hot_keys (m_bots m1)) = hot_keys (m_bots m2)"
    using rebalance_socket_set [OF assms(1,2), of rnd mem now] rebalance_socket_set [OF ok assms(4), of rnd mem' now']
      assms(3,5) by simp_all
  then show ?thesis using apply_actions_closed [OF assms(6)] assms(7,8) by auto
qed

text \<open>C6. In every state a manager can reach, by any sequence of its operations, every bot stands under
  its own key, at most \<open>MaxHot\<close> bots are hot (or the pressure cap, if that is larger), and no
  tenant has more hot bots than its fairness cap.  Of the calls it has made by then, taken in the
  order of the operations that made them, the last one about a hot bot was \<open>OpenHot\<close>, and a bot
  whose last one was \<open>OpenHot\<close> is hot, or was demoted by \<open>ForceTier\<close>, which makes no call.  (This
  says nothing of when the engine carries the calls out.)\<close>

theorem reachable_manager_invariant:
  assumes "mgr_run rnd c F (m, calls)"
  shows "(\<forall>k e. m_bots m k = Some e \<longrightarrow> KeyID (e_bot e) = k) \<and>
     int (card (hot_keys (m_bots m))) \<le> max (MaxHot (withDefaults c)) (PressureHotCap c) \<and>
     (0 < HotPerTenant c \<longrightarrow>
       int (card {k \<in> hot_keys (m_bots m). tenant_of (m_bots m) k = t}) \<le> HotPerTenant c) \<and>
     hot_keys (m_bots m) \<subseteq> told_open calls \<and> told_open calls \<subseteq> hot_keys (m_bots m) \<union> F"
  using mgr_run_inv [OF assms] bots_okD [of "m_bots m"] by (auto simp: mgr_inv_def calls_ok_def)

text \<open>Two bots are added, the manager ticks, and a bot is removed.\<close>

theorem reachable_manager_invariant_witness:
  "let s = Remove log_act ''b'' (Rebalance id log_act ex_ords 0 20 (ex_mgr, [])) in
     mgr_run id ex_cfg {} s \<and> told_open (snd s) = hot_keys (m_bots (fst s)) \<and>
     int (card (hot_keys (m_bots (fst s)))) \<le> 1 \<and>
     int (card {k \<in> hot_keys (m_bots (fst s)). tenant_of (m_bots (fst s)) k = ''t''}) \<le> 1"
proof -
  let ?first = "Rebalance id log_act ex_ords 0 20 (ex_mgr, [])"
  let ?s = "Remove log_act ''b'' ?first"
  have "mgr_run id ex_cfg {} (ex_mgr, [])"
    unfolding ex_mgr_def by (intro mgr_run.add mgr_run.new)
  then have "mgr_run id ex_cfg {} ?first" by (rule mgr_run.rebalance) (rule ex_ok)
  then have "mgr_run id ex_cfg {} (fst ?first, snd ?first)" by simp
  then have r: "mgr_run id ex_cfg {} ?s" using mgr_run.remove [of id ex_cfg "{}" "fst ?first" "snd ?first" "''b''"] by simp
  then have "mgr_run id ex_cfg {} (fst ?s, snd ?s)" by simp
  note inv = reachable_manager_invariant [OF this, of "''t''"]
  have c: "max (MaxHot (withDefaults ex_cfg)) (PressureHotCap ex_cfg) = 1" "0 < HotPerTenant ex_cfg"
    "HotPerTenant ex_cfg = 1"
    by (simp_all add: withDefaults_def ex_cfg_def)
  have "told_open (snd ?s) = hot_keys (m_bots (fst ?s))" using inv by blast
  moreover have "int (card (hot_keys (m_bots (fst ?s)))) \<le> 1" using inv c(1) by metis
  moreover have "int (card {k \<in> hot_keys (m_bots (fst ?s)). tenant_of (m_bots (fst ?s)) k = ''t''}) \<le> 1"
    using inv c(2,3) by metis
  ultimately show ?thesis using r unfolding Let_def by blast
qed

end
