(* ===== verification/Go_Strconv.thy ===== *)
theory Go_Strconv
  imports Prelude
begin

text \<open>
  The parts of Go's standard library that turn numbers and bytes into strings:
  \<open>strconv.ParseUint(s, 10, 64)\<close>, \<open>strconv.FormatUint(v, 10)\<close>, the decimal form of an
  \<open>int32\<close>, the \<open>string\<close>/\<open>[]byte\<close> conversions and the \<open>strings.Trim\<close> functions the
  source uses.
\<close>

section \<open>Strings and byte slices\<close>

definition str_bytes :: "string \<Rightarrow> bytes" where
  "str_bytes s = map (\<lambda>c. of_nat (of_char c)) s"

definition bytes_str :: "bytes \<Rightarrow> string" where
  "bytes_str b = map (\<lambda>x. char_of (unat x)) b"

lemma str_bytes_length [simp]: "length (str_bytes s) = length s"
  by (simp add: str_bytes_def)

lemma bytes_str_length [simp]: "length (bytes_str b) = length b"
  by (simp add: bytes_str_def)

text \<open>Every value of a byte and of a \<open>uint64\<close>.\<close>

lemma unat_byte_lt: "unat (x :: byte) < 256"
  using unsigned_less [of x] by simp

lemma unat_u64_le: "unat (v :: u64) \<le> 18446744073709551615"
  using unsigned_less [of v, where ?'a = nat] by simp

lemma unat_byte: "n < 256 \<Longrightarrow> unat (of_nat n :: byte) = n"
  by (simp add: unsigned_of_nat take_bit_eq_mod)

lemma unat_u64: "n < 18446744073709551616 \<Longrightarrow> unat (of_nat n :: u64) = n"
  by (simp add: unsigned_of_nat take_bit_eq_mod)

lemma bytes_str_bytes [simp]: "bytes_str (str_bytes s) = s"
proof -
  have "char_of (unat (of_nat (of_char c) :: byte)) = c" for c
    by (simp add: unat_byte)
  then show ?thesis by (simp add: str_bytes_def bytes_str_def comp_def map_idI)
qed

lemma str_bytes_str [simp]: "str_bytes (bytes_str b) = b"
proof -
  have "of_nat (of_char (char_of (unat x) :: char)) = x" for x :: byte
    using unat_byte_lt [of x] by simp
  then show ?thesis by (simp add: str_bytes_def bytes_str_def comp_def map_idI)
qed

lemma str_bytes_Nil_iff [simp]: "str_bytes s = [] \<longleftrightarrow> s = []"
  by (simp add: str_bytes_def)

text \<open>\<open>strings.TrimPrefix\<close> and \<open>strings.TrimRight\<close>.\<close>

definition TrimPrefix :: "string \<Rightarrow> string \<Rightarrow> string" where
  "TrimPrefix s p = (if take (length p) s = p then drop (length p) s else s)"

definition TrimRight :: "string \<Rightarrow> char set \<Rightarrow> string" where
  "TrimRight s cs = rev (dropWhile (\<lambda>c. c \<in> cs) (rev s))"

section \<open>Decimal numbers\<close>

definition digit_char :: "nat \<Rightarrow> char" where
  "digit_char d = char_of (48 + d)"

fun dec_digits :: "nat \<Rightarrow> string" where
  "dec_digits n = (if n < 10 then [digit_char n] else dec_digits (n div 10) @ [digit_char (n mod 10)])"

declare dec_digits.simps [simp del]

definition FormatUint :: "u64 \<Rightarrow> string" where
  "FormatUint v = dec_digits (unat v)"

definition FormatInt :: "int \<Rightarrow> string" where
  "FormatInt i = (if i < 0 then CHR ''-'' # dec_digits (nat (- i)) else dec_digits (nat i))"

datatype parse_error = ErrSyntax | ErrRange

abbreviation max_uint64 :: nat where "max_uint64 \<equiv> 18446744073709551615"

definition char_digit :: "char \<Rightarrow> nat option" where
  "char_digit c = (let n = of_char c in if 48 \<le> n \<and> n \<le> 57 then Some (n - 48) else None)"

text \<open>The loop stops at the first bad character with value 0, or at the first overflow with
  the largest value: whichever comes first.\<close>

fun parse_loop :: "nat \<Rightarrow> string \<Rightarrow> nat \<times> parse_error option" where
  "parse_loop n [] = (n, None)"
| "parse_loop n (c # cs) =
     (case char_digit c of
        None \<Rightarrow> (0, Some ErrSyntax)
      | Some d \<Rightarrow> if n * 10 + d > max_uint64 then (max_uint64, Some ErrRange)
                  else parse_loop (n * 10 + d) cs)"

definition ParseUint :: "string \<Rightarrow> u64 \<times> parse_error option" where
  "ParseUint s = (if s = [] then (0, Some ErrSyntax)
     else (case parse_loop 0 s of (n, err) \<Rightarrow> (of_nat n, err)))"

lemma char_digit_char: "d < 10 \<Longrightarrow> char_digit (digit_char d) = Some d"
  by (simp add: char_digit_def digit_char_def Let_def)

lemma parse_loop_append:
  "parse_loop n (xs @ ys) =
     (case parse_loop n xs of (v, None) \<Rightarrow> parse_loop v ys | (v, Some e) \<Rightarrow> (v, Some e))"
  by (induction n xs rule: parse_loop.induct) (auto split: option.splits)

lemma parse_dec_digits: "n \<le> max_uint64 \<Longrightarrow> parse_loop 0 (dec_digits n) = (n, None)"
proof (induction n rule: dec_digits.induct)
  case (1 n)
  show ?case
  proof (cases "n < 10")
    case True
    then show ?thesis by (simp add: dec_digits.simps [of n] char_digit_char)
  next
    case False
    have "parse_loop 0 (dec_digits (n div 10)) = (n div 10, None)" using False 1 by auto
    then show ?thesis
      using False 1(2) by (simp add: dec_digits.simps [of n] parse_loop_append char_digit_char)
  qed
qed

lemma dec_digits_nonempty [simp]: "dec_digits n \<noteq> []"
  by (subst dec_digits.simps) simp

lemma FormatUint_nonempty [simp]: "FormatUint v \<noteq> []"
  by (simp add: FormatUint_def)

lemma ParseUint_FormatUint [simp]: "ParseUint (FormatUint v) = (v, None)"
proof -
  have "unat v \<le> max_uint64" using unat_u64_le [of v] by simp
  then show ?thesis by (simp add: ParseUint_def FormatUint_def parse_dec_digits)
qed

lemma FormatUint_inj: "FormatUint a = FormatUint b \<longleftrightarrow> a = b"
  by (metis ParseUint_FormatUint prod.inject)

lemma ParseUint_empty [simp]: "ParseUint [] = (0, Some ErrSyntax)"
  by (simp add: ParseUint_def)

text \<open>The value a failed parse still returns: 0 for bad syntax, the maximum for overflow.\<close>

lemma parse_loop_error_value:
  "snd (parse_loop n s) = Some ErrSyntax \<Longrightarrow> fst (parse_loop n s) = 0"
  "snd (parse_loop n s) = Some ErrRange \<Longrightarrow> fst (parse_loop n s) = max_uint64"
  by (induction n s rule: parse_loop.induct) (auto split: option.splits if_splits)

lemma ParseUint_syntax: "snd (ParseUint s) = Some ErrSyntax \<Longrightarrow> fst (ParseUint s) = 0"
  using parse_loop_error_value(1) [of 0 s] by (auto simp: ParseUint_def split: prod.splits if_splits)

text \<open>Evaluation of the digits.\<close>

lemma digit_chars:
  "digit_char 0 = CHR ''0''" "digit_char 1 = CHR ''1''" "digit_char (Suc 0) = CHR ''1''"
  "digit_char 2 = CHR ''2''" "digit_char 3 = CHR ''3''" "digit_char 4 = CHR ''4''"
  "digit_char 5 = CHR ''5''" "digit_char 6 = CHR ''6''" "digit_char 7 = CHR ''7''"
  "digit_char 8 = CHR ''8''" "digit_char 9 = CHR ''9''"
  by (simp_all add: digit_char_def char_of_eq_iff)

lemmas digits_eval = FormatUint_def FormatInt_def dec_digits.simps digit_chars

lemma dec_digits_zero: "dec_digits 0 = ''0''"
  by (simp add: dec_digits.simps digit_char_def char_of_eq_iff)

lemma FormatUint_zero [simp]: "FormatUint 0 = ''0''"
  by (simp add: FormatUint_def dec_digits_zero)

lemma FormatUint_zero_iff: "FormatUint v = ''0'' \<longleftrightarrow> v = 0"
  by (metis FormatUint_inj FormatUint_zero)

end
