(* ===== verification/Go_Utf8.thy ===== *)
theory Go_Utf8
  imports Go_Strconv
begin

text \<open>
  How Go reads text: \<open>for _, r := range s\<close> decodes UTF-8, an ill-formed byte counting as one
  U+FFFD, and \<open>encoding/json\<close> writes a string with its HTML-safe escapes.
\<close>

section \<open>UTF-8\<close>

abbreviation RuneError :: nat where "RuneError \<equiv> 65533"

definition code :: "char \<Rightarrow> nat" where
  "code c = of_char c"

definition cont :: "char \<Rightarrow> bool" where
  "cont c \<longleftrightarrow> 128 \<le> code c \<and> code c < 192"

definition between :: "nat \<Rightarrow> nat \<Rightarrow> char \<Rightarrow> bool" where
  "between lo hi c \<longleftrightarrow> lo \<le> code c \<and> code c \<le> hi"

text \<open>\<open>utf8.DecodeRuneInString\<close>: the rune and the number of bytes it took.\<close>

definition decode2 :: "nat \<Rightarrow> string \<Rightarrow> nat \<times> nat" where
  "decode2 n r = (case r of
      b # _ \<Rightarrow> if cont b then ((n - 192) * 64 + (code b - 128), 2) else (RuneError, 1)
    | [] \<Rightarrow> (RuneError, 1))"

definition decode3 :: "nat \<Rightarrow> string \<Rightarrow> nat \<times> nat" where
  "decode3 n r = (case r of
      b # c # _ \<Rightarrow>
        if between (if n = 224 then 160 else 128) (if n = 237 then 159 else 191) b \<and> cont c
        then ((n - 224) * 4096 + (code b - 128) * 64 + (code c - 128), 3) else (RuneError, 1)
    | _ \<Rightarrow> (RuneError, 1))"

definition decode4 :: "nat \<Rightarrow> string \<Rightarrow> nat \<times> nat" where
  "decode4 n r = (case r of
      b # c # d # _ \<Rightarrow>
        if between (if n = 240 then 144 else 128) (if n = 244 then 143 else 191) b \<and> cont c \<and> cont d
        then ((n - 240) * 262144 + (code b - 128) * 4096 + (code c - 128) * 64 + (code d - 128), 4)
        else (RuneError, 1)
    | _ \<Rightarrow> (RuneError, 1))"

fun DecodeRune :: "string \<Rightarrow> nat \<times> nat" where
  "DecodeRune [] = (RuneError, 0)"
| "DecodeRune (a # r) =
     (let n = code a in
      if n < 128 then (n, 1)
      else if 194 \<le> n \<and> n < 224 then decode2 n r
      else if 224 \<le> n \<and> n < 240 then decode3 n r
      else if 240 \<le> n \<and> n \<le> 244 then decode4 n r
      else (RuneError, 1))"

lemmas decode_defs = decode2_def decode3_def decode4_def

lemma DecodeRune_width_pos: "s \<noteq> [] \<Longrightarrow> 0 < snd (DecodeRune s)"
  by (cases s) (auto simp: Let_def decode_defs split: list.splits)

lemma DecodeRune_width_le: "snd (DecodeRune s) \<le> length s"
  by (cases s) (auto simp: Let_def decode_defs split: list.splits)

lemma DecodeRune_drop: "s \<noteq> [] \<Longrightarrow> (r, n) = DecodeRune s \<Longrightarrow> length (drop n s) < length s"
  by (metis DecodeRune_width_pos diff_less length_drop length_greater_0_conv snd_conv)

function runes :: "string \<Rightarrow> nat list" where
  "runes s = (if s = [] then [] else
     (case DecodeRune s of (r, n) \<Rightarrow> r # runes (drop n s)))"
  by pat_completeness auto
termination
  by (relation "measure length") (simp, simp only: in_measure, erule (1) DecodeRune_drop)

declare runes.simps [simp del]

lemma runes_Nil [simp]: "runes [] = []"
  by (simp add: runes.simps)

text \<open>A byte below 128 ends every rune before it: no rune runs across it.\<close>

lemma DecodeRune_ascii: "code a < 128 \<Longrightarrow> DecodeRune (a # r) = (code a, 1)"
  by (simp add: Let_def)

lemma runes_ascii [simp]: "code a < 128 \<Longrightarrow> runes (a # r) = code a # runes r"
  by (simp add: runes.simps [of "a # r"] DecodeRune_ascii del: DecodeRune.simps)

lemma DecodeRune_before_ascii:
  assumes "s \<noteq> []" "code a < 128"
  shows "DecodeRune (s @ a # r) = DecodeRune s"
proof -
  have na: "\<not> cont a" "\<And>lo hi. 128 \<le> lo \<Longrightarrow> \<not> between lo hi a"
    using assms(2) by (auto simp: cont_def between_def)
  show ?thesis
    using assms(1) na by (cases s) (auto simp: Let_def decode_defs split: list.splits)
qed

lemma runes_append_ascii:
  "code a < 128 \<Longrightarrow> runes (s @ a # r) = runes s @ runes (a # r)"
proof (induction s rule: runes.induct)
  case (1 s)
  show ?case
  proof (cases "s = []")
    case False
    obtain c n where d: "DecodeRune s = (c, n)" by force
    then have d': "DecodeRune (s @ a # r) = (c, n)" using DecodeRune_before_ascii 1(2) False by simp
    have n: "n \<le> length s" using DecodeRune_width_le [of s] d by simp
    have "runes (s @ a # r) = c # runes (drop n s @ a # r)"
      using False d' n by (simp add: runes.simps [of "s @ a # r"] del: runes_ascii)
    also have "runes (drop n s @ a # r) = runes (drop n s) @ runes (a # r)"
      using 1(1) [OF False d [symmetric]] 1(2) by blast
    finally show ?thesis using False d by (simp add: runes.simps [of s])
  qed simp
qed

text \<open>Text whose every byte belongs to a well-formed sequence.\<close>

function valid_utf8 :: "string \<Rightarrow> bool" where
  "valid_utf8 s = (if s = [] then True else
     (case DecodeRune s of (r, n) \<Rightarrow>
        (r, n) \<noteq> (RuneError, 1) \<and> valid_utf8 (drop n s)))"
  by pat_completeness auto
termination
  by (relation "measure length") (simp, simp only: in_measure, erule (1) DecodeRune_drop)

declare valid_utf8.simps [simp del]

lemma valid_utf8_Nil [simp]: "valid_utf8 []"
  by (simp add: valid_utf8.simps)

lemma valid_utf8_ascii [simp]: "code a < 128 \<Longrightarrow> valid_utf8 (a # r) = valid_utf8 r"
  by (auto simp add: valid_utf8.simps [of "a # r"] DecodeRune_ascii simp del: DecodeRune.simps)

lemma decode_append:
  "decode2 n r \<noteq> (RuneError, 1) \<Longrightarrow> decode2 n (r @ t) = decode2 n r"
  "decode3 n r \<noteq> (RuneError, 1) \<Longrightarrow> decode3 n (r @ t) = decode3 n r"
  "decode4 n r \<noteq> (RuneError, 1) \<Longrightarrow> decode4 n (r @ t) = decode4 n r"
    apply (cases r; simp add: decode2_def)
   apply (cases r; cases "tl r"; simp add: decode3_def)
  apply (cases r; cases "tl r"; cases "tl (tl r)"; simp add: decode4_def)
  done

lemma DecodeRune_valid_append:
  assumes "DecodeRune s \<noteq> (RuneError, 1)" "s \<noteq> []"
  shows "DecodeRune (s @ t) = DecodeRune s"
  using assms by (cases s) (simp_all add: Let_def decode_append split: if_splits)

lemma runes_append_valid: "valid_utf8 s \<Longrightarrow> runes (s @ t) = runes s @ runes t"
proof (induction s rule: valid_utf8.induct)
  case (1 s)
  show ?case
  proof (cases "s = []")
    case False
    obtain c n where d: "DecodeRune s = (c, n)" by force
    have v: "(c, n) \<noteq> (RuneError, 1)" "valid_utf8 (drop n s)"
      using 1(2) False d by (auto simp: valid_utf8.simps [of s])
    then have d': "DecodeRune (s @ t) = (c, n)" using DecodeRune_valid_append False d by simp
    have n: "n \<le> length s" using DecodeRune_width_le [of s] d by simp
    have "runes (drop n s @ t) = runes (drop n s) @ runes t"
      using 1(1) [OF False d [symmetric]] v(2) by blast
    then show ?thesis using False d d' n by (simp add: runes.simps [of s] runes.simps [of "s @ t"])
  qed simp
qed

lemma valid_utf8_append: "valid_utf8 s \<Longrightarrow> valid_utf8 (s @ t) = valid_utf8 t"
proof (induction s rule: valid_utf8.induct)
  case (1 s)
  show ?case
  proof (cases "s = []")
    case False
    obtain c n where d: "DecodeRune s = (c, n)" by force
    have v: "(c, n) \<noteq> (RuneError, 1)" "valid_utf8 (drop n s)"
      using 1(2) False d by (auto simp: valid_utf8.simps [of s])
    then have d': "DecodeRune (s @ t) = (c, n)" using DecodeRune_valid_append False d by simp
    have n: "n \<le> length s" using DecodeRune_width_le [of s] d by simp
    have "valid_utf8 (drop n s @ t) = valid_utf8 t"
      using 1(1) [OF False d [symmetric]] v(2) by blast
    then show ?thesis using False d' v n by (simp add: valid_utf8.simps [of "s @ t"])
  qed simp
qed

lemma valid_utf8_split_ascii:
  "code a < 128 \<Longrightarrow> valid_utf8 (s @ a # r) \<Longrightarrow> valid_utf8 s \<and> valid_utf8 r"
proof (induction s rule: valid_utf8.induct)
  case (1 s)
  show ?case
  proof (cases "s = []")
    case False
    obtain c n where d: "DecodeRune s = (c, n)" by force
    then have d': "DecodeRune (s @ a # r) = (c, n)" using DecodeRune_before_ascii 1(2) False by simp
    have n: "n \<le> length s" using DecodeRune_width_le [of s] d by simp
    have v: "(c, n) \<noteq> (RuneError, 1)" "valid_utf8 (drop n s @ a # r)"
      using 1(3) False d' n by (auto simp: valid_utf8.simps [of "s @ a # r"])
    then have "valid_utf8 (drop n s) \<and> valid_utf8 r"
      using 1(1) [OF False d [symmetric]] 1(2) by blast
    then show ?thesis using False d v by (simp add: valid_utf8.simps [of s])
  qed (use 1 in simp)
qed

text \<open>Rules that evaluate the decoder on concrete text.\<close>

lemma runes_Cons: "runes (a # r) = (case DecodeRune (a # r) of (c, n) \<Rightarrow> c # runes (drop n (a # r)))"
  by (simp add: runes.simps [of "a # r"])

lemma valid_utf8_Cons:
  "valid_utf8 (a # r) = (case DecodeRune (a # r) of (c, n) \<Rightarrow> (c, n) \<noteq> (RuneError, 1) \<and> valid_utf8 (drop n (a # r)))"
  by (simp add: valid_utf8.simps [of "a # r"])

lemmas text_eval = runes_Cons valid_utf8_Cons Let_def decode_defs code_def cont_def between_def

section \<open>JSON strings\<close>

definition hex_digit :: "nat \<Rightarrow> char" where
  "hex_digit n = char_of (if n < 10 then 48 + n else 87 + n)"

text \<open>The escapes of one ASCII byte; \<open><\<close>, \<open>>\<close> and \<open>&\<close> are escaped too.\<close>

definition json_ascii :: "char \<Rightarrow> string" where
  "json_ascii a = (let n = code a in
     if n = 34 \<or> n = 92 then [char_of (92::nat), a]
     else if n = 8 then [char_of (92::nat), CHR ''b'']
     else if n = 12 then [char_of (92::nat), CHR ''f'']
     else if n = 10 then [char_of (92::nat), CHR ''n'']
     else if n = 13 then [char_of (92::nat), CHR ''r'']
     else if n = 9 then [char_of (92::nat), CHR ''t'']
     else if n < 32 \<or> n = 60 \<or> n = 62 \<or> n = 38
       then char_of (92::nat) # ''u00'' @ [hex_digit (n div 16), hex_digit (n mod 16)]
     else [a])"

function json_body :: "string \<Rightarrow> string" where
  "json_body s = (if s = [] then [] else
     (case DecodeRune s of (r, n) \<Rightarrow>
       (if code (hd s) < 128 then json_ascii (hd s)
        else if r = RuneError \<and> n = 1 then char_of (92::nat) # ''ufffd''
        else if r = 8232 \<or> r = 8233 then char_of (92::nat) # ''u202'' @ [hex_digit (r mod 16)]
        else take n s) @ json_body (drop n s)))"
  by pat_completeness auto
termination
  by (relation "measure length") (simp, simp only: in_measure, erule (1) DecodeRune_drop)

declare json_body.simps [simp del]

definition json_string :: "string \<Rightarrow> string" where
  "json_string s = char_of (34::nat) # json_body s @ [char_of (34::nat)]"

definition json_key :: "string \<Rightarrow> string" where
  "json_key k = json_string k @ '':''"

fun json_commas :: "string list \<Rightarrow> string" where
  "json_commas [] = []"
| "json_commas [x] = x"
| "json_commas (x # y # r) = x @ '','' @ json_commas (y # r)"

definition json_object :: "(string \<times> string) list \<Rightarrow> string" where
  "json_object kvs = ''{'' @ json_commas (map (\<lambda>(k, v). json_key k @ v) kvs) @ ''}''"

definition json_array :: "string list \<Rightarrow> string" where
  "json_array xs = ''['' @ json_commas xs @ '']''"

lemma json_body_plain [simp]:
  "code a < 128 \<Longrightarrow> json_body (a # r) = json_ascii a @ json_body r"
  by (simp add: json_body.simps [of "a # r"] DecodeRune_ascii del: DecodeRune.simps)

lemma json_body_Nil [simp]: "json_body [] = []"
  by (simp add: json_body.simps)

lemma json_array_nonempty [simp]: "json_array xs \<noteq> []"
  by (simp add: json_array_def)

end
