(* ===== verification/Content_Blob.thy ===== *)
theory Content_Blob
  imports Go_Utf8
begin

text \<open>
  \<open>lib/ws/content.go\<close>: the content blob of an outgoing message.  Markdown the clients cannot
  render is turned into entity spans measured in UTF-16 code units of the cleaned text.

  A slice expression \<open>text[a:b]\<close> panics when \<open>a > b\<close> or \<open>b > len(text)\<close>; that is the value
  \<open>None\<close>.  The four regular expressions have only ASCII delimiters and negated classes of
  ASCII characters, so matching them byte by byte is matching them rune by rune; each is the
  length of its match at the start of a string.
\<close>

definition slice :: "string \<Rightarrow> nat \<Rightarrow> nat \<Rightarrow> string option" where
  "slice t a b = (if a \<le> b \<and> b \<le> length t then Some (take (b - a) (drop a t)) else None)"

definition utf16Len :: "string \<Rightarrow> nat" where
  "utf16Len s = foldl (\<lambda>n r. if r > 65535 then n + 2 else n + 1) 0 (runes s)"

section \<open>The regular expressions\<close>

abbreviation NL :: char where "NL \<equiv> CHR 0x0A"
abbreviation TAB :: char where "TAB \<equiv> CHR 0x09"
abbreviation TICK :: char where "TICK \<equiv> CHR 0x60"
abbreviation STAR :: char where "STAR \<equiv> CHR 0x2A"

definition starts_with :: "string \<Rightarrow> string \<Rightarrow> bool" where
  "starts_with p s \<longleftrightarrow> take (length p) s = p"

text \<open>\<open>https?://[^\s<>\[\]()]+\<close>\<close>

definition url_char :: "char \<Rightarrow> bool" where
  "url_char c \<longleftrightarrow> c \<notin> {CHR '' '', TAB, NL, CHR 0x0C, CHR 0x0D, CHR ''<'', CHR ''>'',
     CHR ''['', CHR '']'', CHR ''('', CHR '')''}"

definition url_tail :: "nat \<Rightarrow> string \<Rightarrow> nat option" where
  "url_tail k r = (let b = takeWhile url_char (drop k r) in
     if b = [] then None else Some (k + length b))"

definition urlRE :: "string \<Rightarrow> nat option" where
  "urlRE r = (if starts_with ''https://'' r then url_tail 8 r
     else if starts_with ''http://'' r then url_tail 7 r else None)"

text \<open>\<open>\*\*([^*\n]+?)\*\*\<close>\<close>

definition boldRE :: "string \<Rightarrow> nat option" where
  "boldRE r = (if starts_with [STAR, STAR] r then
     (let b = takeWhile (\<lambda>c. c \<noteq> STAR \<and> c \<noteq> NL) (drop 2 r) in
      if b \<noteq> [] \<and> starts_with [STAR, STAR] (drop (2 + length b) r)
      then Some (length b + 4) else None)
     else None)"

text \<open>A back-tick, a one-line body without back-ticks, a back-tick.\<close>

definition inlineCodeRE :: "string \<Rightarrow> nat option" where
  "inlineCodeRE r = (if starts_with [TICK] r then
     (let b = takeWhile (\<lambda>c. c \<noteq> TICK \<and> c \<noteq> NL) (drop 1 r) in
      if b \<noteq> [] \<and> starts_with [TICK] (drop (1 + length b) r)
      then Some (length b + 2) else None)
     else None)"

definition fenceLineRE :: "string \<Rightarrow> bool" where
  "fenceLineRE l \<longleftrightarrow> starts_with [TICK, TICK, TICK] (dropWhile (\<lambda>c. c = CHR '' '' \<or> c = TAB) l)"

text \<open>\<open>FindAllStringIndex\<close> of an expression that matches no empty string.\<close>

fun find_all :: "(string \<Rightarrow> nat option) \<Rightarrow> nat \<Rightarrow> string \<Rightarrow> (nat \<times> nat) list" where
  "find_all re pos [] = []"
| "find_all re pos (c # cs) =
     (case re (c # cs) of
        None \<Rightarrow> find_all re (pos + 1) cs
      | Some n \<Rightarrow> (pos, pos + n) # find_all re (pos + n) (drop (n - 1) cs))"

section \<open>Spans\<close>

record linkSpan =
  ls_S :: nat
  ls_E :: nat

record markSpan =
  ms_S :: nat
  ms_E :: nat
  ms_Type :: string

type_synonym region = "nat \<times> nat"

record event =
  ev_s :: nat
  ev_e :: nat
  ev_kind :: string
  ev_body :: string

definition inside :: "nat \<Rightarrow> region list \<Rightarrow> bool" where
  "inside pos rs = list_ex (\<lambda>r. fst r \<le> pos \<and> pos < snd r) rs"

text \<open>\<open>strings.Split(text, "\n")\<close>\<close>

fun split_lines :: "string \<Rightarrow> string list" where
  "split_lines [] = [[]]"
| "split_lines (c # cs) =
     (if c = NL then [] # split_lines cs
      else (case split_lines cs of [] \<Rightarrow> [[c]] | l # ls \<Rightarrow> (c # l) # ls))"

definition fence_step :: "region list \<times> nat \<times> int \<Rightarrow> string \<Rightarrow> region list \<times> nat \<times> int" where
  "fence_step st line = (case st of (regions, offset, opened) \<Rightarrow>
     (case (if fenceLineRE line
            then (if opened < 0 then (regions, int offset)
                  else (regions @ [(nat opened, offset + length line)], - 1))
            else (regions, opened)) of
       (regions', opened') \<Rightarrow> (regions', offset + length line + 1, opened')))"

definition fenceRegions :: "string \<Rightarrow> region list" where
  "fenceRegions text = fst (foldl fence_step ([], 0, - 1) (split_lines text))"

definition link_step :: "string \<Rightarrow> linkSpan list option \<Rightarrow> nat \<times> nat \<Rightarrow> linkSpan list option" where
  "link_step text acc loc = (case (acc, slice text (fst loc) (snd loc), slice text 0 (fst loc)) of
       (Some links, Some m, Some pre) \<Rightarrow>
         (let url = TrimRight m (set ''.,;:!?'') in
          if url = '''' then Some links
          else (let start = utf16Len pre in
                Some (links @ [\<lparr>ls_S = start, ls_E = start + utf16Len url\<rparr>])))
     | _ \<Rightarrow> None)"

definition linkSpans :: "string \<Rightarrow> linkSpan list option" where
  "linkSpans text = foldl (link_step text) (Some []) (find_all urlRE 0 text)"

text \<open>Sub-slices of the text become the bodies of events.\<close>

fun add_events :: "string \<Rightarrow> (nat \<times> nat \<times> string \<times> nat \<times> nat) list \<Rightarrow> event list option" where
  "add_events text [] = Some []"
| "add_events text ((s, e, k, bs, be) # r) =
     (case (slice text bs be, add_events text r) of
        (Some body, Some evs) \<Rightarrow> Some (\<lparr>ev_s = s, ev_e = e, ev_kind = k, ev_body = body\<rparr> # evs)
      | _ \<Rightarrow> None)"

definition inline_regions :: "string \<Rightarrow> region list" where
  "inline_regions text = filter (\<lambda>loc. \<not> inside (fst loc) (fenceRegions text)) (find_all inlineCodeRE 0 text)"

definition bold_regions :: "string \<Rightarrow> region list" where
  "bold_regions text = (let masked = fenceRegions text @ inline_regions text in
     filter (\<lambda>loc. \<not> (inside (fst loc) masked \<or> inside (snd loc - 1) masked)) (find_all boldRE 0 text))"

definition markdown_events :: "string \<Rightarrow> event list option" where
  "markdown_events text = add_events text
     (map (\<lambda>f. (fst f, snd f, ''t'', fst f, snd f)) (fenceRegions text) @
      map (\<lambda>c. (fst c, snd c, ''s'', fst c, snd c)) (inline_regions text) @
      map (\<lambda>l. (fst l, snd l, ''b'', fst l + 2, snd l - 2)) (bold_regions text))"

text \<open>Drop every event that starts before the previous kept one ended.\<close>

fun keep_events :: "int \<Rightarrow> event list \<Rightarrow> event list" where
  "keep_events end [] = []"
| "keep_events end (ev # evs) =
     (if int (ev_s ev) < end then keep_events end evs
      else ev # keep_events (int (ev_e ev)) evs)"

record emit_state =
  b_out :: string
  outU16 :: nat
  spans :: "markSpan list"
  at_pos :: nat

definition emit :: "string \<Rightarrow> emit_state \<Rightarrow> emit_state" where
  "emit chunk st = st\<lparr>b_out := b_out st @ chunk, outU16 := outU16 st + utf16Len chunk\<rparr>"

fun emit_events :: "string \<Rightarrow> event list \<Rightarrow> emit_state \<Rightarrow> emit_state option" where
  "emit_events text [] st =
     (case slice text (at_pos st) (length text) of None \<Rightarrow> None | Some chunk \<Rightarrow> Some (emit chunk st))"
| "emit_events text (ev # evs) st =
     (case slice text (at_pos st) (ev_s ev) of
        None \<Rightarrow> None
      | Some chunk \<Rightarrow>
          (let st1 = emit chunk st; start = outU16 st1; st2 = emit (ev_body ev) st1 in
           emit_events text evs
             (st2\<lparr>spans := spans st2 @ [\<lparr>ms_S = start, ms_E = outU16 st2, ms_Type = ev_kind ev\<rparr>],
                  at_pos := ev_e ev\<rparr>)))"

definition markdownSpans :: "string \<Rightarrow> (string \<times> markSpan list) option" where
  "markdownSpans text =
     (if text = '''' then Some (text, [])
      else (case markdown_events text of
          None \<Rightarrow> None
        | Some events \<Rightarrow>
            if events = [] then Some (text, [])
            else map_option (\<lambda>st. (b_out st, spans st))
              (emit_events text (keep_events (- 1) (sort_key ev_s events))
                 \<lparr>b_out = '''', outU16 = 0, spans = [], at_pos = 0\<rparr>)))"

definition mark_json :: "markSpan \<Rightarrow> string" where
  "mark_json m = json_object [(''s'', FormatInt (int (ms_S m))), (''e'', FormatInt (int (ms_E m))),
     (''type'', json_string (ms_Type m))]"

text \<open>\<open>json.Marshal\<close> writes the keys of a map in sorted order.\<close>

definition BuildContent :: "string \<Rightarrow> string option" where
  "BuildContent text = (case markdownSpans text of
       None \<Rightarrow> None
     | Some (clean, marks) \<Rightarrow>
         (case linkSpans clean of
            None \<Rightarrow> None
          | Some links \<Rightarrow>
              (let marks' = marks @ map (\<lambda>l. \<lparr>ms_S = ls_S l, ms_E = ls_E l, ms_Type = ''lk''\<rparr>) links in
               Some (json_object ((if marks' = [] then [] else [(''mk'', json_array (map mark_json marks'))])
                 @ [(''t'', json_string clean)])))))"

end
