(* ===== verification/Content_Correct.thy ===== *)
theory Content_Correct
  imports Content_Blob
begin

text \<open>
  What \<open>content.go\<close> guarantees: building a blob never panics, every span covers in UTF-16
  units exactly the text it marks, and only bold markers are ever removed.
\<close>

section \<open>UTF-16 length\<close>

definition rune_units :: "nat \<Rightarrow> nat" where
  "rune_units r = (if r > 65535 then 2 else 1)"

lemma utf16Len_sum: "utf16Len s = sum_list (map rune_units (runes s))"
proof -
  have "foldl (\<lambda>n r. if r > 65535 then n + 2 else n + 1) n rs = n + sum_list (map rune_units rs)" for n rs
    by (induction rs arbitrary: n) (auto simp: rune_units_def)
  then show ?thesis by (simp add: utf16Len_def)
qed

lemma utf16Len_Nil [simp]: "utf16Len [] = 0"
  by (simp add: utf16Len_sum)

lemma utf16Len_append_valid: "valid_utf8 s \<Longrightarrow> utf16Len (s @ t) = utf16Len s + utf16Len t"
  by (simp add: utf16Len_sum runes_append_valid)

lemma utf16Len_append_ascii: "code a < 128 \<Longrightarrow> utf16Len (s @ a # r) = utf16Len s + utf16Len (a # r)"
  by (simp add: utf16Len_sum runes_append_ascii del: runes_ascii)

lemma utf16Len_pos: "s \<noteq> [] \<Longrightarrow> 0 < utf16Len s"
  by (cases "DecodeRune s") (auto simp: utf16Len_sum runes.simps [of s] rune_units_def)

section \<open>Places where a string may be cut\<close>

definition edge :: "string \<Rightarrow> nat \<Rightarrow> bool" where
  "edge t i \<longleftrightarrow> i \<le> length t \<and> (i = 0 \<or> i = length t \<or> code (t ! i) < 128 \<or> code (t ! (i - 1)) < 128)"

lemma edge_valid:
  assumes "edge t i" "valid_utf8 t"
  shows "valid_utf8 (take i t)" "valid_utf8 (drop i t)"
proof -
  have "valid_utf8 (take i t) \<and> valid_utf8 (drop i t)"
  proof -
    consider "i = 0" | "i = length t" | "i < length t" "code (t ! i) < 128"
      | "0 < i" "i \<le> length t" "code (t ! (i - 1)) < 128"
      using assms(1) by (auto simp: edge_def) fastforce
    then show ?thesis
    proof cases
      case 3
      have "t = take i t @ t ! i # drop (Suc i) t" using 3 by (simp add: id_take_nth_drop)
      then have "valid_utf8 (take i t) \<and> valid_utf8 (drop (Suc i) t)"
        using assms(2) valid_utf8_split_ascii 3 by metis
      then show ?thesis using 3 by (simp add: Cons_nth_drop_Suc [symmetric])
    next
      case 4
      have "t = take (i - 1) t @ t ! (i - 1) # drop i t"
        using 4 id_take_nth_drop [of "i - 1" t] by simp
      then have v: "valid_utf8 (take (i - 1) t)" "valid_utf8 (drop i t)"
        using assms(2) valid_utf8_split_ascii 4 by metis+
      have "take i t = take (i - 1) t @ [t ! (i - 1)]"
        using 4 take_Suc_conv_app_nth [of "i - 1" t] by simp
      then show ?thesis using v 4 by (simp add: valid_utf8_append)
    qed (use assms in auto)
  qed
  then show "valid_utf8 (take i t)" "valid_utf8 (drop i t)" by simp_all
qed

lemma edge_slice_valid:
  assumes "edge t i" "edge t j" "i \<le> j" "valid_utf8 t"
  shows "valid_utf8 (take (j - i) (drop i t))"
proof -
  have "take j t = take i t @ take (j - i) (drop i t)"
    using assms(3) by (metis le_add_diff_inverse take_add)
  then show ?thesis using edge_valid assms by (metis valid_utf8_append)
qed

section \<open>Matches\<close>

definition re_ok :: "(string \<Rightarrow> nat option) \<Rightarrow> bool" where
  "re_ok re \<longleftrightarrow> (\<forall>r n. re r = Some n \<longrightarrow> 0 < n \<and> n \<le> length r)"

lemma re_okD: "re_ok re \<Longrightarrow> re r = Some n \<Longrightarrow> 0 < n \<and> n \<le> length r"
  by (simp add: re_ok_def)

lemma starts_with_length: "starts_with p s \<Longrightarrow> length p \<le> length s"
  by (metis starts_with_def length_take min.cobounded1)

lemma starts_with_append: "starts_with p s \<longleftrightarrow> (\<exists>r. s = p @ r)"
  by (metis starts_with_def append_eq_conv_conj append_take_drop_id)

lemma find_all_mem:
  assumes "re_ok re" "(a, b) \<in> set (find_all re p r)"
  shows "p \<le> a \<and> a < b \<and> b \<le> p + length r \<and> re (drop (a - p) r) = Some (b - a)"
  using assms
proof (induction re p r rule: find_all.induct)
  case (2 re p c cs)
  show ?case
  proof (cases "re (c # cs)")
    case None
    then have *: "p + 1 \<le> a \<and> a < b \<and> b \<le> p + 1 + length cs \<and> re (drop (a - (p + 1)) cs) = Some (b - a)"
      using 2 by simp
    then have "drop (a - p) (c # cs) = drop (a - (p + 1)) cs" by (simp add: drop_Cons')
    then show ?thesis using * by simp
  next
    case (Some n)
    have n: "0 < n" "n \<le> length (c # cs)" using re_okD [OF 2(3) Some] by auto
    show ?thesis
    proof (cases "(a, b) = (p, p + n)")
      case True
      then show ?thesis using Some n by auto
    next
      case False
      then have *: "p + n \<le> a \<and> a < b \<and> b \<le> p + n + length (drop (n - 1) cs) \<and>
          re (drop (a - (p + n)) (drop (n - 1) cs)) = Some (b - a)"
        using 2 Some by auto
      then have "drop (a - p) (c # cs) = drop (a - (p + n)) (drop (n - 1) cs)"
        using n by (simp add: drop_Cons')
      then show ?thesis using * n by auto
    qed
  qed
qed simp

corollary find_all_0:
  assumes "re_ok re" "(a, b) \<in> set (find_all re 0 t)"
  shows "a < b" "b \<le> length t" "re (drop a t) = Some (b - a)"
  using find_all_mem [OF assms] by auto

text \<open>What each expression matches.\<close>

lemma takeWhile_split: "b = takeWhile P r \<Longrightarrow> starts_with q (drop (length b) r) \<Longrightarrow> \<exists>s. r = b @ q @ s"
  by (metis starts_with_append takeWhile_eq_take append_take_drop_id length_takeWhile_le)

lemma takeWhile_all: "b = takeWhile P r \<Longrightarrow> \<forall>c\<in>set b. P c"
  using set_takeWhileD by fastforce

lemma boldRE_match:
  "boldRE r = Some n \<Longrightarrow> \<exists>b s. r = [STAR, STAR] @ b @ [STAR, STAR] @ s \<and> n = length b + 4 \<and> b \<noteq> [] \<and>
     (\<forall>c\<in>set b. c \<noteq> STAR \<and> c \<noteq> NL)"
proof -
  assume a: "boldRE r = Some n"
  then obtain t where t: "r = [STAR, STAR] @ t" by (auto simp: boldRE_def starts_with_append split: if_splits)
  define b where "b = takeWhile (\<lambda>c. c \<noteq> STAR \<and> c \<noteq> NL) t"
  have b: "b \<noteq> []" "starts_with [STAR, STAR] (drop (length b) t)" "n = length b + 4"
    using a unfolding t by (auto simp: boldRE_def b_def starts_with_def Let_def split: if_splits)
  obtain s where "t = b @ [STAR, STAR] @ s" using takeWhile_split [OF b_def b(2)] by blast
  then show ?thesis using t b takeWhile_all [OF b_def] by auto
qed

lemma inlineCodeRE_match:
  "inlineCodeRE r = Some n \<Longrightarrow> \<exists>b s. r = [TICK] @ b @ [TICK] @ s \<and> n = length b + 2 \<and> b \<noteq> [] \<and>
     (\<forall>c\<in>set b. c \<noteq> TICK \<and> c \<noteq> NL)"
proof -
  assume a: "inlineCodeRE r = Some n"
  then obtain t where t: "r = [TICK] @ t" by (auto simp: inlineCodeRE_def starts_with_append split: if_splits)
  define b where "b = takeWhile (\<lambda>c. c \<noteq> TICK \<and> c \<noteq> NL) t"
  have b: "b \<noteq> []" "starts_with [TICK] (drop (length b) t)" "n = length b + 2"
    using a unfolding t by (auto simp: inlineCodeRE_def b_def starts_with_def Let_def split: if_splits)
  obtain s where "t = b @ [TICK] @ s" using takeWhile_split [OF b_def b(2)] by blast
  then show ?thesis using t b takeWhile_all [OF b_def] by auto
qed

lemma urlRE_match:
  "urlRE r = Some n \<Longrightarrow> \<exists>h b s. r = h @ b @ s \<and> h \<in> {''http://'', ''https://''} \<and> b \<noteq> [] \<and>
     n = length h + length b \<and> (\<forall>c\<in>set b. url_char c) \<and> (s = [] \<or> \<not> url_char (hd s))"
proof -
  assume a: "urlRE r = Some n"
  then obtain h where h: "h \<in> {''http://'', ''https://''}" "starts_with h r" "url_tail (length h) r = Some n"
  proof (cases "starts_with ''https://'' r")
    case True
    then show ?thesis using a that [of "''https://''"] by (simp add: urlRE_def eval_nat_numeral)
  next
    case False
    then show ?thesis using a that [of "''http://''"] by (simp add: urlRE_def eval_nat_numeral split: if_splits)
  qed
  define b where "b = takeWhile url_char (drop (length h) r)"
  have b: "b \<noteq> []" "n = length h + length b"
    using h(3) by (auto simp: url_tail_def b_def Let_def split: if_splits)
  have "starts_with [] (drop (length b) (drop (length h) r))" by (simp add: starts_with_def)
  then obtain s where "drop (length h) r = b @ [] @ s" using takeWhile_split [OF b_def] by blast
  moreover have "r = h @ drop (length h) r" using h(2) by (metis starts_with_def append_take_drop_id)
  ultimately have "r = h @ b @ s" by simp
  moreover have "s = [] \<or> \<not> url_char (hd s)"
  proof -
    have "s = dropWhile url_char (drop (length h) r)"
      using \<open>drop (length h) r = b @ [] @ s\<close> b_def by (metis append_Nil same_append_eq takeWhile_dropWhile_id)
    then show ?thesis using hd_dropWhile by blast
  qed
  ultimately show ?thesis using h(1) b takeWhile_all [OF b_def] by blast
qed

lemma re_oks: "re_ok boldRE" "re_ok inlineCodeRE" "re_ok urlRE"
  unfolding re_ok_def
proof (safe)
  fix r n
  { assume "boldRE r = Some n"
    from boldRE_match [OF this] obtain b s where "r = [STAR, STAR] @ b @ [STAR, STAR] @ s" "n = length b + 4"
      by blast
    then show "0 < n" "n \<le> length r" by simp_all }
  { assume "inlineCodeRE r = Some n"
    from inlineCodeRE_match [OF this] obtain b s where "r = [TICK] @ b @ [TICK] @ s" "n = length b + 2"
      by blast
    then show "0 < n" "n \<le> length r" by simp_all }
  { assume "urlRE r = Some n"
    from urlRE_match [OF this] obtain h b s where "r = h @ b @ s" "b \<noteq> []" "n = length h + length b"
      by blast
    then show "0 < n" "n \<le> length r" by simp_all }
qed

section \<open>Fenced blocks\<close>

fun join_lines :: "string list \<Rightarrow> string" where
  "join_lines [] = []"
| "join_lines [l] = l"
| "join_lines (l # m # ls) = l @ NL # join_lines (m # ls)"

lemma split_lines_nonempty [simp]: "split_lines t \<noteq> []"
  by (cases t) (auto split: list.splits)

lemma join_lines_Cons: "ls \<noteq> [] \<Longrightarrow> join_lines (l # ls) = l @ NL # join_lines ls"
  by (cases ls) auto

lemma join_split [simp]: "join_lines (split_lines t) = t"
proof (induction t)
  case (Cons c cs)
  obtain l ls where s: "split_lines cs = l # ls" by (cases "split_lines cs") auto
  have "join_lines ((c # l) # ls) = c # join_lines (l # ls)" by (cases ls) auto
  then show ?case using Cons s by (auto simp: join_lines_Cons)
qed simp

lemma fence_line_start: "fenceLineRE l \<Longrightarrow> l \<noteq> [] \<and> code (l ! 0) < 128"
  by (cases l) (auto simp: fenceLineRE_def starts_with_def code_def split: if_splits)

definition fence_ok :: "string \<Rightarrow> region \<Rightarrow> bool" where
  "fence_ok t r \<longleftrightarrow> fst r < snd r \<and> snd r \<le> length t \<and> edge t (fst r) \<and> edge t (snd r)"

lemma fence_fold:
  assumes "drop offset t = join_lines ls" "offset \<le> length t" "ls \<noteq> []"
    and "\<forall>r \<in> set rs. fence_ok t r"
    and "opened < 0 \<or> nat opened < offset \<and> edge t (nat opened)"
  shows "\<forall>r \<in> set (fst (foldl fence_step (rs, offset, opened) ls)). fence_ok t r"
  using assms
proof (induction ls arbitrary: offset rs opened)
  case (Cons l ls)
  let ?e = "offset + length l"
  have pre: "drop offset t = l @ drop ?e t"
    using Cons.prems(1) by (metis add.commute append_eq_conv_conj drop_drop join_lines.simps(2) join_lines_Cons append_Nil2)
  have len: "?e \<le> length t"
    using arg_cong [OF pre, of length] Cons.prems(2) by (simp split: if_splits)
  have e: "edge t ?e"
  proof (cases "ls = []")
    case True
    then show ?thesis using Cons.prems(1) pre len by (simp add: edge_def)
  next
    case False
    then have "drop ?e t = NL # join_lines ls" using Cons.prems(1) pre by (simp add: join_lines_Cons)
    then have "t ! ?e = NL" by (metis drop_eq_Nil2 hd_drop_conv_nth leI list.distinct(1) list.sel(1))
    then show ?thesis using len by (simp add: edge_def code_def)
  qed
  have o: "edge t offset \<and> l \<noteq> []" if "fenceLineRE l"
  proof -
    have l: "l \<noteq> []" "code (l ! 0) < 128" using fence_line_start [OF that] by auto
    then have "t ! offset = l ! 0" using pre len Cons.prems(2)
      by (metis add.right_neutral length_greater_0_conv nth_append nth_drop)
    then show ?thesis using l Cons.prems(2) by (simp add: edge_def)
  qed
  obtain rs' opened' where st: "fence_step (rs, offset, opened) l = (rs', ?e + 1, opened')"
    by (cases "if fenceLineRE l then (if opened < 0 then (rs, int offset)
        else (rs @ [(nat opened, ?e)], - 1)) else (rs, opened)") (auto simp: fence_step_def)
  have rs': "\<forall>r \<in> set rs'. fence_ok t r"
    using st Cons.prems(4,5) e len o by (auto simp: fence_step_def fence_ok_def split: if_splits)
  have op': "opened' < 0 \<or> nat opened' < ?e + 1 \<and> edge t (nat opened')"
    using st Cons.prems(5) o by (auto simp: fence_step_def split: if_splits)
  show ?case
  proof (cases "ls = []")
    case True
    then show ?thesis using st rs' by simp
  next
    case False
    then have d: "drop ?e t = NL # join_lines ls" using Cons.prems(1) pre by (simp add: join_lines_Cons)
    then have "drop (?e + 1) t = join_lines ls" by (metis add.commute drop_Suc_Cons drop_drop drop0 One_nat_def)
    moreover have "?e + 1 \<le> length t" using d len by (metis Suc_eq_plus1 drop_eq_Nil list.distinct(1) not_less_eq_eq)
    ultimately show ?thesis using Cons.IH [OF _ _ False rs' op'] st by simp
  qed
qed simp

lemma fenceRegions_ok: "r \<in> set (fenceRegions t) \<Longrightarrow> fence_ok t r"
  using fence_fold [of 0 t "split_lines t" "[]" "- 1"] by (simp add: fenceRegions_def)

section \<open>Events\<close>

text \<open>The source text of an event: bold carries its markers.\<close>

definition wrap :: "string \<Rightarrow> string \<Rightarrow> string" where
  "wrap k b = (if k = ''b'' then [STAR, STAR] @ b @ [STAR, STAR] else b)"

definition event_ok :: "string \<Rightarrow> event \<Rightarrow> bool" where
  "event_ok t ev \<longleftrightarrow> (\<exists>p q. t = p @ wrap (ev_kind ev) (ev_body ev) @ q \<and> ev_s ev = length p \<and>
       ev_e ev = length p + length (wrap (ev_kind ev) (ev_body ev))) \<and>
     ev_body ev \<noteq> [] \<and> edge t (ev_s ev) \<and> edge t (ev_e ev) \<and>
     (valid_utf8 t \<longrightarrow> valid_utf8 (ev_body ev))"

definition loc_ok :: "string \<Rightarrow> nat \<times> nat \<times> string \<times> nat \<times> nat \<Rightarrow> bool" where
  "loc_ok t l = (case l of (s, e, k, bs, be) \<Rightarrow> \<exists>body. slice t bs be = Some body \<and>
     event_ok t \<lparr>ev_s = s, ev_e = e, ev_kind = k, ev_body = body\<rparr>)"

lemma add_events_ok:
  "\<forall>l \<in> set ls. loc_ok t l \<Longrightarrow> \<exists>evs. add_events t ls = Some evs \<and> (\<forall>ev \<in> set evs. event_ok t ev)"
  by (induction ls) (fastforce simp: loc_ok_def)+

lemma event_plain:
  assumes "a < b" "b \<le> length t" "edge t a" "edge t b" "k \<noteq> ''b''"
  shows "loc_ok t (a, b, k, a, b)"
proof -
  have "t = take a t @ take (b - a) (drop a t) @ drop b t"
    using assms(1) by (metis append_assoc append_take_drop_id le_add_diff_inverse less_imp_le take_add)
  then have "t = take a t @ wrap k (take (b - a) (drop a t)) @ drop b t" using assms(5) by (simp add: wrap_def)
  then show ?thesis
    using assms edge_slice_valid [OF assms(3,4)]
    unfolding loc_ok_def event_ok_def
    by (intro case_prodI exI [of _ "take (b - a) (drop a t)"] conjI exI [of _ "take a t"] exI [of _ "drop b t"])
      (auto simp: slice_def wrap_def)
qed

lemma code_TICK_STAR [simp]: "code TICK = 96" "code STAR = 42" "code NL = 10"
  by (simp_all add: code_def)

lemma event_inline:
  assumes "(a, b) \<in> set (find_all inlineCodeRE 0 t)"
  shows "loc_ok t (a, b, ''s'', a, b)"
proof -
  note f = find_all_0 [OF re_oks(2) assms]
  from inlineCodeRE_match [OF f(3)] obtain c s where m: "drop a t = [TICK] @ c @ [TICK] @ s" "b - a = length c + 2"
    by blast
  have "b - 1 = a + (length c + 1)" using f m(2) by simp
  then have "t ! a = drop a t ! 0" "t ! (b - 1) = drop a t ! (length c + 1)"
    using f by (simp_all only: nth_drop) simp_all
  then have "t ! a = TICK" "t ! (b - 1) = TICK" using m(1) by (simp_all add: nth_append)
  then show ?thesis using f by (intro event_plain) (auto simp: edge_def)
qed

lemma event_bold:
  assumes "(a, b) \<in> set (find_all boldRE 0 t)"
  shows "loc_ok t (a, b, ''b'', a + 2, b - 2)"
proof -
  note f = find_all_0 [OF re_oks(1) assms]
  from boldRE_match [OF f(3)] obtain c s where m: "drop a t = [STAR, STAR] @ c @ [STAR, STAR] @ s"
      "b - a = length c + 4" "c \<noteq> []"
    by blast
  have t: "t = take a t @ wrap ''b'' c @ s" using m(1) by (metis append.assoc append_take_drop_id wrap_def)
  have b: "b = a + length c + 4" using f m(2) by simp
  have sl: "slice t (a + 2) (b - 2) = Some c"
  proof -
    have "drop (a + 2) t = drop 2 (drop a t)" by (simp add: add.commute)
    then have "take (length c) (drop (a + 2) t) = c" using m(1) by simp
    then show ?thesis using b f by (simp add: slice_def)
  qed
  have at: "t ! (a + i) = ([STAR, STAR] @ c @ [STAR, STAR] @ s) ! i" if "a + i \<le> length t" for i
    using m(1) that by (metis nth_drop f(1,2) less_imp_le order_trans)
  have "t ! a = STAR" "t ! (a + 1) = STAR" "t ! (a + (length c + 2)) = STAR" "t ! (a + (length c + 3)) = STAR"
    using at [of 0] at [of 1] at [of "length c + 2"] at [of "length c + 3"] b f by (simp_all add: nth_append)
  then have e: "edge t a" "edge t b" "edge t (a + 2)" "edge t (b - 2)"
    using b f by (auto simp: edge_def algebra_simps)
  have v: "valid_utf8 c" if "valid_utf8 t"
  proof -
    have "valid_utf8 (take (b - 2 - (a + 2)) (drop (a + 2) t))"
      using edge_slice_valid [OF e(3,4) _ that] b by simp
    then show ?thesis using sl by (simp add: slice_def split: if_splits)
  qed
  show ?thesis
    using sl t e v m(3) b f unfolding loc_ok_def event_ok_def
    by (intro case_prodI exI [of _ c] conjI exI [of _ "take a t"] exI [of _ s]) (auto simp: wrap_def)
qed

lemma markdown_events_ok:
  "\<exists>evs. markdown_events t = Some evs \<and> (\<forall>ev \<in> set evs. event_ok t ev)"
  unfolding markdown_events_def
proof (rule add_events_ok)
  have 1: "loc_ok t (fst f, snd f, ''t'', fst f, snd f)" if "f \<in> set (fenceRegions t)" for f
    using fenceRegions_ok [OF that] by (intro event_plain) (auto simp: fence_ok_def)
  have 2: "loc_ok t (fst c, snd c, ''s'', fst c, snd c)" if "c \<in> set (inline_regions t)" for c
    using that event_inline [of "fst c" "snd c"] by (auto simp: inline_regions_def)
  have 3: "loc_ok t (fst l, snd l, ''b'', fst l + 2, snd l - 2)" if "l \<in> set (bold_regions t)" for l
    using that event_bold [of "fst l" "snd l"] by (auto simp: bold_regions_def Let_def)
  show "\<forall>l \<in> set (map (\<lambda>f. (fst f, snd f, ''t'', fst f, snd f)) (fenceRegions t) @
      map (\<lambda>c. (fst c, snd c, ''s'', fst c, snd c)) (inline_regions t) @
      map (\<lambda>l. (fst l, snd l, ''b'', fst l + 2, snd l - 2)) (bold_regions t)). loc_ok t l"
    using 1 2 3 by (auto simp only: set_append set_map)
qed

section \<open>Emitting the clean text\<close>

text \<open>Kept events do not overlap, whatever their order was.\<close>

fun chained :: "nat \<Rightarrow> event list \<Rightarrow> bool" where
  "chained p [] = True"
| "chained p (ev # evs) = (p \<le> ev_s ev \<and> chained (ev_e ev) evs)"

lemma keep_events_chained: "end \<le> int p \<Longrightarrow> int p \<le> max 0 end \<Longrightarrow> chained p (keep_events end evs)"
  by (induction "end" evs arbitrary: p rule: keep_events.induct) auto

lemma keep_events_subset: "set (keep_events end evs) \<subseteq> set evs"
  by (induction "end" evs rule: keep_events.induct) auto

text \<open>A span points at its body in the clean text, and the body comes from the source.\<close>

definition span_exact :: "string \<Rightarrow> string \<Rightarrow> markSpan \<Rightarrow> bool" where
  "span_exact t clean m \<longleftrightarrow> (\<exists>pre body post. clean = pre @ body @ post \<and> body \<noteq> [] \<and>
     ms_S m = utf16Len pre \<and> ms_E m = utf16Len (pre @ body) \<and>
     (\<exists>p q. t = p @ wrap (ms_Type m) body @ q))"

lemma span_exact_append: "span_exact t c m \<Longrightarrow> span_exact t (c @ d) m"
  unfolding span_exact_def by (metis append.assoc)

lemma emit_events_total:
  assumes "chained (at_pos st) evs" "\<forall>ev \<in> set evs. event_ok t ev" "at_pos st \<le> length t"
  shows "\<exists>st'. emit_events t evs st = Some st'"
  using assms
proof (induction t evs st rule: emit_events.induct)
  case (2 t ev evs st)
  then have "event_ok t ev" by simp
  then have "ev_s ev \<le> length t" "ev_e ev \<le> length t" by (auto simp: event_ok_def)
  then show ?case using 2 by (simp add: slice_def Let_def emit_def)
qed (simp add: slice_def)

definition emit_inv :: "string \<Rightarrow> emit_state \<Rightarrow> bool" where
  "emit_inv t st \<longleftrightarrow> valid_utf8 (b_out st) \<and> outU16 st = utf16Len (b_out st) \<and> edge t (at_pos st) \<and>
     (\<forall>m \<in> set (spans st). span_exact t (b_out st) m \<and> ms_E m \<le> outU16 st) \<and>
     sorted_wrt (\<lambda>a b. ms_E a \<le> ms_S b) (spans st)"

lemma emit_inv_chunk:
  assumes "emit_inv t st" "valid_utf8 c"
  shows "emit_inv t (emit c st)"
  using assms by (auto simp: emit_inv_def emit_def valid_utf8_append utf16Len_append_valid
      intro: span_exact_append)

lemma emit_inv_event:
  assumes inv: "emit_inv t st" and ev: "event_ok t ev" and v: "valid_utf8 t"
  shows "emit_inv t ((emit (ev_body ev) st)\<lparr>spans := spans (emit (ev_body ev) st) @
      [\<lparr>ms_S = outU16 st, ms_E = outU16 (emit (ev_body ev) st), ms_Type = ev_kind ev\<rparr>], at_pos := ev_e ev\<rparr>)"
proof -
  have b: "valid_utf8 (ev_body ev)" "ev_body ev \<noteq> []" "edge t (ev_e ev)"
    and src: "\<exists>p q. t = p @ wrap (ev_kind ev) (ev_body ev) @ q"
    using ev v by (auto simp: event_ok_def)
  have "span_exact t (b_out st @ ev_body ev)
      \<lparr>ms_S = outU16 st, ms_E = outU16 st + utf16Len (ev_body ev), ms_Type = ev_kind ev\<rparr>"
    using src b inv unfolding span_exact_def
    by (intro exI [of _ "b_out st"] exI [of _ "ev_body ev"] exI [of _ "[]"])
      (simp add: emit_inv_def utf16Len_append_valid)
  then show ?thesis
    using emit_inv_chunk [OF inv b(1)] inv b by (auto simp: emit_inv_def emit_def sorted_wrt_append)
qed

lemma emit_events_inv:
  assumes "emit_events t evs st = Some st'" "emit_inv t st" "\<forall>ev \<in> set evs. event_ok t ev" "valid_utf8 t"
  shows "emit_inv t st'"
  using assms
proof (induction t evs st rule: emit_events.induct)
  case (1 t st)
  have "edge t (length t)" by (simp add: edge_def)
  then have "valid_utf8 (take (length t - at_pos st) (drop (at_pos st) t))" if "at_pos st \<le> length t"
    using 1 that by (intro edge_slice_valid) (auto simp: emit_inv_def)
  then show ?case using 1 by (auto simp: slice_def intro: emit_inv_chunk split: if_splits)
next
  case (2 t ev evs st)
  from 2(2) obtain chunk where c: "slice t (at_pos st) (ev_s ev) = Some chunk"
    by (auto split: option.splits)
  have "valid_utf8 (take (ev_s ev - at_pos st) (drop (at_pos st) t))"
    using 2 c by (intro edge_slice_valid) (auto simp: emit_inv_def event_ok_def slice_def split: if_splits)
  then have "emit_inv t (emit chunk st)" using 2 c by (auto simp: slice_def intro: emit_inv_chunk split: if_splits)
  from emit_inv_event [OF this _ 2(5)] show ?case using 2 c by (simp add: Let_def)
qed

lemma emit_events_stars:
  assumes "emit_events t evs st = Some st'" "\<forall>ev \<in> set evs. event_ok t ev"
    and "filter (\<lambda>c. c \<noteq> STAR) (b_out st) = filter (\<lambda>c. c \<noteq> STAR) (take (at_pos st) t)"
  shows "filter (\<lambda>c. c \<noteq> STAR) (b_out st') = filter (\<lambda>c. c \<noteq> STAR) t"
  using assms
proof (induction t evs st rule: emit_events.induct)
  case (1 t st)
  then show ?case
    by (auto simp: slice_def emit_def split: if_splits) (metis append_take_drop_id filter_append)
next
  case (2 t ev evs st)
  from 2(2) obtain chunk where c: "slice t (at_pos st) (ev_s ev) = Some chunk"
    by (auto split: option.splits)
  then have s: "take (ev_s ev) t = take (at_pos st) t @ chunk"
    by (auto simp: slice_def split: if_splits) (metis le_add_diff_inverse take_add)
  have "event_ok t ev" using 2 by simp
  then obtain p q where pq: "t = p @ wrap (ev_kind ev) (ev_body ev) @ q" "ev_s ev = length p"
      "ev_e ev = length p + length (wrap (ev_kind ev) (ev_body ev))"
    by (auto simp: event_ok_def)
  then have "take (ev_s ev) t = p" "take (ev_e ev) t = p @ wrap (ev_kind ev) (ev_body ev)" by simp_all
  then have "filter (\<lambda>c. c \<noteq> STAR) (take (ev_e ev) t) =
      filter (\<lambda>c. c \<noteq> STAR) (take (at_pos st) t @ chunk @ ev_body ev)"
    using s by (auto simp: wrap_def)
  then show ?case using 2 c by (auto simp: Let_def emit_def)
qed

section \<open>Results\<close>

abbreviation emit0 :: emit_state where
  "emit0 \<equiv> \<lparr>b_out = [], outU16 = 0, spans = [], at_pos = 0\<rparr>"

lemma keep_events_sorted_chained: "chained 0 (keep_events (- 1) evs)"
  by (rule keep_events_chained) auto

lemma markdownSpans_total: "\<exists>clean marks. markdownSpans t = Some (clean, marks)"
proof -
  obtain evs where e: "markdown_events t = Some evs" "\<forall>ev \<in> set evs. event_ok t ev"
    using markdown_events_ok by blast
  have "\<exists>st. emit_events t (keep_events (- 1) (sort_key ev_s evs)) emit0 = Some st"
    using e(2) keep_events_subset keep_events_sorted_chained by (intro emit_events_total) fastforce+
  then show ?thesis using e by (auto simp: markdownSpans_def)
qed

lemma markdownSpans_cases:
  assumes "markdownSpans t = Some (clean, marks)"
  obtains "clean = t" "marks = []"
  | evs st where "\<forall>ev \<in> set evs. event_ok t ev" "emit_events t evs emit0 = Some st"
      "clean = b_out st" "marks = spans st"
proof -
  obtain evs where e: "markdown_events t = Some evs" "\<forall>ev \<in> set evs. event_ok t ev"
    using markdown_events_ok by blast
  have "\<forall>ev \<in> set (keep_events (- 1) (sort_key ev_s evs)). event_ok t ev"
    using e(2) keep_events_subset by fastforce
  then show thesis using assms e(1) that by (auto simp: markdownSpans_def split: if_splits)
qed

lemma emit0_inv: "emit_inv t emit0"
  by (simp add: emit_inv_def edge_def)

lemma markdownSpans_inv:
  assumes "valid_utf8 t" "markdownSpans t = Some (clean, marks)"
  shows "valid_utf8 clean" "\<forall>m \<in> set marks. span_exact t clean m \<and> ms_E m \<le> utf16Len clean"
    "sorted_wrt (\<lambda>a b. ms_E a \<le> ms_S b) marks"
proof -
  have "valid_utf8 clean \<and> (\<forall>m \<in> set marks. span_exact t clean m \<and> ms_E m \<le> utf16Len clean) \<and>
      sorted_wrt (\<lambda>a b. ms_E a \<le> ms_S b) marks"
    using assms(2)
  proof (cases rule: markdownSpans_cases)
    case (2 evs st)
    have "emit_inv t st" using emit_events_inv [OF 2(2) emit0_inv 2(1) assms(1)] .
    then show ?thesis using 2 by (auto simp: emit_inv_def)
  qed (use assms in simp)
  then show "valid_utf8 clean" "\<forall>m \<in> set marks. span_exact t clean m \<and> ms_E m \<le> utf16Len clean"
    "sorted_wrt (\<lambda>a b. ms_E a \<le> ms_S b) marks" by simp_all
qed

lemma markdownSpans_only_stars:
  assumes "markdownSpans t = Some (clean, marks)"
  shows "filter (\<lambda>c. c \<noteq> STAR) clean = filter (\<lambda>c. c \<noteq> STAR) t"
  using assms
proof (cases rule: markdownSpans_cases)
  case (2 evs st)
  then show ?thesis using emit_events_stars [OF 2(2,1)] by simp
qed simp

text \<open>What may follow a URL, spelled out, and the places of the text where one stands: a scheme and
  at least one more character, up to the first such character or the end.\<close>

definition url_stops :: "char set" where
  "url_stops = set ('' <>[]()'' @ [CHR 0x09, CHR 0x0A, CHR 0x0C, CHR 0x0D])"

definition url_at :: "string \<Rightarrow> nat \<Rightarrow> nat \<Rightarrow> bool" where
  "url_at t a b \<longleftrightarrow> a \<le> b \<and> b \<le> length t \<and> (b < length t \<longrightarrow> t ! b \<in> url_stops) \<and>
     (\<exists>h \<in> {''http://'', ''https://''}. \<exists>c. take (b - a) (drop a t) = h @ c \<and> c \<noteq> [] \<and> set c \<inter> url_stops = {})"

text \<open>A link span for such a place: it covers the URL, in UTF-16 units, without the sentence
  punctuation at its end.\<close>

definition link_for :: "string \<Rightarrow> nat \<Rightarrow> nat \<Rightarrow> linkSpan \<Rightarrow> bool" where
  "link_for t a b l \<longleftrightarrow> (\<exists>url punct. take (b - a) (drop a t) = url @ punct \<and> url \<noteq> [] \<and>
     last url \<notin> set ''.,;:!?'' \<and> set punct \<subseteq> set ''.,;:!?'' \<and>
     ls_S l = utf16Len (take a t) \<and> ls_E l = utf16Len (take a t @ url))"

lemma url_char_stops: "url_char c \<longleftrightarrow> c \<notin> url_stops"
  by (auto simp: url_char_def url_stops_def)

lemma TrimRight_split: "\<exists>r. s = TrimRight s cs @ r \<and> set r \<subseteq> cs"
proof -
  have "rev s = takeWhile (\<lambda>c. c \<in> cs) (rev s) @ dropWhile (\<lambda>c. c \<in> cs) (rev s)" by simp
  then have "s = rev (dropWhile (\<lambda>c. c \<in> cs) (rev s)) @ rev (takeWhile (\<lambda>c. c \<in> cs) (rev s))"
    by (metis rev_append rev_rev_ident)
  then show ?thesis unfolding TrimRight_def using set_takeWhileD by fastforce
qed

lemma TrimRight_last: "TrimRight s cs \<noteq> [] \<Longrightarrow> last (TrimRight s cs) \<notin> cs"
  unfolding TrimRight_def by (metis (mono_tags, lifting) hd_dropWhile last_rev rev.simps(1))

lemma dropWhile_keeps: "P (last h) = False \<Longrightarrow> h \<noteq> [] \<Longrightarrow> \<exists>r'. dropWhile P (r @ rev h) = r' @ rev h"
proof (induction r)
  case Nil
  then have "dropWhile P (rev h) = rev h" by (simp add: dropWhile_eq_self_iff hd_rev)
  then show ?case by simp
next
  case (Cons c r)
  then show ?case by (cases "P c") (auto intro: exI [of _ "c # r"])
qed

lemma TrimRight_keeps: "h \<noteq> [] \<Longrightarrow> last h \<notin> cs \<Longrightarrow> \<exists>r'. TrimRight (h @ r) cs = h @ r'"
  using dropWhile_keeps [of "\<lambda>c. c \<in> cs" h "rev r"] unfolding TrimRight_def
  by (metis rev_append rev_rev_ident)

text \<open>The expression matches exactly such places.\<close>

lemma urlRE_iff: "a \<le> length t \<Longrightarrow> urlRE (drop a t) = Some (b - a) \<and> a \<le> b \<longleftrightarrow> url_at t a b"
proof
  assume a: "a \<le> length t" and m: "urlRE (drop a t) = Some (b - a) \<and> a \<le> b"
  from urlRE_match [of "drop a t" "b - a"] m obtain h c s where h: "drop a t = h @ c @ s" "h \<in> {''http://'', ''https://''}" "c \<noteq> []"
      "b - a = length h + length c" "\<forall>x\<in>set c. url_char x" "s = [] \<or> \<not> url_char (hd s)" by blast
  have "length t - a = length h + length c + length s" using arg_cong [OF h(1), of length] by simp
  then have l: "b + length s = length t" using h(4) a m [THEN conjunct2] by linarith
  have tk: "take (b - a) (drop a t) = h @ c" unfolding h(1,4) by simp
  have "drop b t = drop (b - a) (drop a t)" using m by simp
  also have "\<dots> = s" unfolding h(1,4) by simp
  finally have "t ! b = hd s" if "b < length t" using that by (metis hd_drop_conv_nth)
  then have "b < length t \<longrightarrow> t ! b \<in> url_stops" using h(6) l url_char_stops by auto
  then show "url_at t a b" unfolding url_at_def using m l h(2,3,5) tk url_char_stops by auto
next
  assume a: "a \<le> length t" and u: "url_at t a b"
  then obtain h c where h: "h \<in> {''http://'', ''https://''}" "take (b - a) (drop a t) = h @ c" "c \<noteq> []"
      "set c \<inter> url_stops = {}" "a \<le> b" "b \<le> length t" "b < length t \<longrightarrow> t ! b \<in> url_stops"
    unfolding url_at_def by blast
  have d: "drop a t = h @ c @ drop b t"
    using h(2,5) by (metis append_assoc append_take_drop_id drop_drop le_add_diff_inverse2)
  have n: "b - a = length h + length c"
    using arg_cong [OF h(2), of length] h(5,6) by simp
  have "takeWhile url_char (c @ drop b t) = c @ takeWhile url_char (drop b t)"
    using h(4) url_char_stops by (intro takeWhile_append2) auto
  moreover have "takeWhile url_char (drop b t) = []"
  proof (cases "drop b t")
    case (Cons x xs)
    then have "b < length t" "t ! b = x" by (auto simp: nth_via_drop) (metis drop_eq_Nil leI list.distinct(1))
    then show ?thesis using h(7) url_char_stops Cons by simp
  qed simp
  ultimately have w: "takeWhile url_char (c @ drop b t) = c" by simp
  from h(1) have "urlRE (drop a t) = Some (length h + length c)"
    unfolding d using w h(3) by (auto simp: urlRE_def url_tail_def starts_with_def Let_def)
  then show "urlRE (drop a t) = Some (b - a) \<and> a \<le> b" using n h(5) by simp
qed

lemma find_all_sorted: "re_ok re \<Longrightarrow> sorted_wrt (\<lambda>x y. snd x \<le> fst y) (find_all re p r)"
proof (induction re p r rule: find_all.induct)
  case (2 re p c cs)
  show ?case
  proof (cases "re (c # cs)")
    case (Some n)
    have "p + n \<le> a" if "(a, b) \<in> set (find_all re (p + n) (drop (n - 1) cs))" for a b
      using find_all_mem [OF 2(3) that] by blast
    then show ?thesis using 2 Some by auto
  qed (use 2 in simp)
qed simp

lemma find_all_complete:
  assumes "re_ok re" "i < length r" "re (drop i r) \<noteq> None"
  shows "\<exists>(a, b) \<in> set (find_all re p r). a \<le> p + i \<and> p + i < b"
  using assms
proof (induction re p r arbitrary: i rule: find_all.induct)
  case (2 re p c cs)
  show ?case
  proof (cases "re (c # cs)")
    case None
    then obtain j where j: "i = Suc j" using 2(5) by (cases i) auto
    then have "\<exists>(a, b) \<in> set (find_all re (p + 1) cs). a \<le> p + 1 + j \<and> p + 1 + j < b"
      using 2(1) [OF None 2(3)] 2(4,5) by simp
    then show ?thesis using None j by auto
  next
    case (Some n)
    have n: "0 < n" using re_okD [OF 2(3) Some] by simp
    show ?thesis
    proof (cases "i < n")
      case False
      then have d: "drop (i - n) (drop (n - 1) cs) = drop i (c # cs)" using n by (simp add: drop_Cons')
      have "\<exists>(a, b) \<in> set (find_all re (p + n) (drop (n - 1) cs)). a \<le> p + n + (i - n) \<and> p + n + (i - n) < b"
        by (rule 2(2) [OF Some 2(3)]) (use 2(4,5) False n d in auto)
      then show ?thesis using Some False by auto
    qed (use Some in auto)
  qed
qed simp

text \<open>A place inside a match ends where the match ends: neither has a stop in it.\<close>

lemma url_at_nostop: "url_at t a b \<Longrightarrow> a \<le> i \<Longrightarrow> i < b \<Longrightarrow> t ! i \<notin> url_stops"
proof -
  assume u: "url_at t a b" and i: "a \<le> i" "i < b"
  then obtain h c where h: "h \<in> {''http://'', ''https://''}" "take (b - a) (drop a t) = h @ c" "set c \<inter> url_stops = {}"
      "b \<le> length t" unfolding url_at_def by blast
  have "set h \<inter> url_stops = {}" using h(1) by (auto simp: url_stops_def)
  then have s: "set (take (b - a) (drop a t)) \<inter> url_stops = {}" unfolding h(2) using h(3) by auto
  have "t ! i = take (b - a) (drop a t) ! (i - a)" using i h(4) by simp
  also have "\<dots> \<in> set (take (b - a) (drop a t))" using i h(4) by (intro nth_mem) auto
  finally show ?thesis using s by blast
qed

lemma url_at_end:
  assumes "url_at t a b" "url_at t i j" "a \<le> i" "i < b"
  shows "j = b"
proof -
  have l: "b \<le> length t" "j \<le> length t" "i \<le> j" "b < length t \<longrightarrow> t ! b \<in> url_stops" "j < length t \<longrightarrow> t ! j \<in> url_stops"
    using assms(1,2) unfolding url_at_def by auto
  have "\<not> j < b" using url_at_nostop [OF assms(1), of j] l assms(3) by auto
  moreover have "\<not> b < j" using url_at_nostop [OF assms(2), of b] l assms(4) by auto
  ultimately show ?thesis by simp
qed

text \<open>The span of a match.\<close>

definition link_of :: "string \<Rightarrow> nat \<times> nat \<Rightarrow> linkSpan" where
  "link_of t m = \<lparr>ls_S = utf16Len (take (fst m) t), ls_E = utf16Len (take (fst m) t) +
     utf16Len (TrimRight (take (snd m - fst m) (drop (fst m) t)) (set ''.,;:!?''))\<rparr>"

lemma link_of_match:
  assumes "(a, b) \<in> set (find_all urlRE 0 t)"
  shows "url_at t a b" "link_for t a b (link_of t (a, b))"
    "link_step t (Some acc) (a, b) = Some (acc @ [link_of t (a, b)])"
proof -
  note f = find_all_0 [OF re_oks(3) assms]
  have ab: "a \<le> length t" "a \<le> b" using f by simp_all
  show u: "url_at t a b" using urlRE_iff [OF ab(1), of b] f(3) ab(2) by blast
  then obtain h c where h: "h \<in> {''http://'', ''https://''}" "take (b - a) (drop a t) = h @ c" unfolding url_at_def by blast
  let ?m = "take (b - a) (drop a t)" and ?p = "set ''.,;:!?''"
  let ?u = "TrimRight ?m ?p"
  have hh: "h \<noteq> []" "last h \<notin> ?p" "code (hd h) < 128" using h(1) by (auto simp: code_def)
  obtain u' where u': "?u = h @ u'" using TrimRight_keeps [OF hh(1,2)] unfolding h(2) by blast
  obtain r where r: "?m = ?u @ r" "set r \<subseteq> ?p" using TrimRight_split by blast
  have ne: "?u \<noteq> []" using u' hh(1) by simp
  have "utf16Len (take a t @ hd h # (tl h @ u')) = utf16Len (take a t) + utf16Len (hd h # (tl h @ u'))"
    by (rule utf16Len_append_ascii [OF hh(3)])
  then have "utf16Len (take a t @ ?u) = utf16Len (take a t) + utf16Len ?u"
    using hh(1) unfolding u' by (metis append_Cons list.collapse)
  then show "link_for t a b (link_of t (a, b))"
    unfolding link_for_def using r ne TrimRight_last [OF ne] by (intro exI [of _ ?u] exI [of _ r]) (simp add: link_of_def)
  have "slice t a b = Some ?m" "slice t 0 a = Some (take a t)" using f(1,2) by (simp_all add: slice_def)
  then show "link_step t (Some acc) (a, b) = Some (acc @ [link_of t (a, b)])"
    using ne unfolding link_step_def by (simp add: link_of_def Let_def del: list.set)
qed

lemma linkSpans_eq: "linkSpans t = Some (map (link_of t) (find_all urlRE 0 t))"
proof -
  have "foldl (link_step t) (Some acc) ms = Some (acc @ map (link_of t) ms)"
    if "set ms \<subseteq> set (find_all urlRE 0 t)" for acc ms
    using that
  proof (induction ms arbitrary: acc)
    case (Cons m ms)
    then show ?case using link_of_match(3) [of "fst m" "snd m" t acc] by (simp add: Cons.IH)
  qed simp
  from this [of "find_all urlRE 0 t" "[]"] show ?thesis by (simp add: linkSpans_def)
qed

lemma stops_ascii: "c \<in> url_stops \<union> set ''.,;:!?'' \<Longrightarrow> code c < 128"
  by (auto simp: url_stops_def code_def)

lemma link_before:
  assumes "url_at t a b" "link_for t a b l" "b \<le> a'" "a' \<le> length t"
  shows "ls_E l \<le> utf16Len (take a' t)"
proof -
  obtain url punct where u: "take (b - a) (drop a t) = url @ punct" "set punct \<subseteq> set ''.,;:!?''"
      "ls_E l = utf16Len (take a t @ url)" using assms(2) unfolding link_for_def by blast
  have ab: "a \<le> b" "b < length t \<longrightarrow> t ! b \<in> url_stops" using assms(1) unfolding url_at_def by auto
  let ?mid = "punct @ take (a' - b) (drop b t)"
  have "take a' t = take b t @ take (a' - b) (drop b t)" using assms(3) by (metis le_add_diff_inverse take_add)
  moreover have "take b t = take a t @ take (b - a) (drop a t)" using ab(1) by (metis le_add_diff_inverse take_add)
  ultimately have s: "take a' t = (take a t @ url) @ ?mid" using u(1) by simp
  show ?thesis
  proof (cases ?mid)
    case Nil
    then have "take a' t = take a t @ url" using s by simp
    then show ?thesis using u(3) by simp
  next
    case (Cons c cs)
    have "c \<in> url_stops \<union> set ''.,;:!?''"
    proof (cases punct)
      case Nil
      then have "b < a'" using Cons by (cases "a' - b") auto
      then have "c = t ! b" using Cons Nil assms(4) by (cases "drop b t"; cases "a' - b") (auto simp: nth_via_drop)
      then show ?thesis using ab(2) \<open>b < a'\<close> assms(4) by auto
    qed (use Cons u(2) in auto)
    then have "utf16Len ((take a t @ url) @ c # cs) = utf16Len (take a t @ url) + utf16Len (c # cs)"
      by (intro utf16Len_append_ascii stops_ascii)
    then show ?thesis using s Cons u(3) by simp
  qed
qed

lemma linkSpans_spec:
  "\<exists>ls. linkSpans t = Some ls \<and> (\<forall>l \<in> set ls. \<exists>a b. url_at t a b \<and> link_for t a b l) \<and>
     (\<forall>i j. url_at t i j \<longrightarrow> (\<exists>l \<in> set ls. \<exists>a \<le> i. url_at t a j \<and> link_for t a j l)) \<and>
     sorted_wrt (\<lambda>l l'. ls_E l \<le> ls_S l') ls"
proof (intro exI conjI)
  let ?ms = "find_all urlRE 0 t"
  show "linkSpans t = Some (map (link_of t) ?ms)" by (rule linkSpans_eq)
  show "\<forall>l \<in> set (map (link_of t) ?ms). \<exists>a b. url_at t a b \<and> link_for t a b l"
    using link_of_match(1,2) by fastforce
  show "\<forall>i j. url_at t i j \<longrightarrow> (\<exists>l \<in> set (map (link_of t) ?ms). \<exists>a \<le> i. url_at t a j \<and> link_for t a j l)"
  proof (intro allI impI)
    fix i j
    assume u: "url_at t i j"
    then obtain h c where h: "h \<in> {''http://'', ''https://''}" "take (j - i) (drop i t) = h @ c" "i \<le> j" "j \<le> length t"
      unfolding url_at_def by blast
    have "i < length t" using h by (cases "i = length t") auto
    then have "\<exists>(a, b) \<in> set ?ms. a \<le> 0 + i \<and> 0 + i < b"
      using urlRE_iff [of i t j] u by (intro find_all_complete [OF re_oks(3)]) auto
    then obtain a b where m: "(a, b) \<in> set ?ms" "a \<le> i" "i < b" by auto
    have "j = b" by (rule url_at_end [OF link_of_match(1) [OF m(1)] u m(2,3)])
    then show "\<exists>l \<in> set (map (link_of t) ?ms). \<exists>a \<le> i. url_at t a j \<and> link_for t a j l"
      using link_of_match(1,2) [OF m(1)] m(1,2) by force
  qed
  have "ls_E (link_of t x) \<le> ls_S (link_of t y)" if "x \<in> set ?ms" "y \<in> set ?ms" "snd x \<le> fst y" for x y
  proof -
    have x: "(fst x, snd x) \<in> set ?ms" "(fst y, snd y) \<in> set ?ms" using that by simp_all
    have "fst y \<le> length t" using find_all_0 [OF re_oks(3) x(2)] by simp
    from link_before [OF link_of_match(1,2) [OF x(1)] that(3) this] show ?thesis by (simp add: link_of_def)
  qed
  then show "sorted_wrt (\<lambda>l l'. ls_E l \<le> ls_S l') (map (link_of t) ?ms)"
    using sorted_wrt_mono_rel [OF _ find_all_sorted [OF re_oks(3)]] by (simp add: sorted_wrt_map)
qed

section \<open>The properties\<close>

text \<open>A text with an emoji, two bold spans and a code span nested in the second.\<close>

definition ex_text :: string where
  "ex_text = ''a '' @ [CHR 0xF0, CHR 0x9F, CHR 0x98, CHR 0x80] @ '' **b** **see '' @
     [TICK] @ ''x'' @ [TICK] @ ''** http://m.ai.''"

definition ex_clean :: string where
  "ex_clean = ''a '' @ [CHR 0xF0, CHR 0x9F, CHR 0x98, CHR 0x80] @ '' b see '' @
     [TICK] @ ''x'' @ [TICK] @ '' http://m.ai.''"

definition ex_marks :: "markSpan list" where
  "ex_marks = [\<lparr>ms_S = 5, ms_E = 6, ms_Type = ''b''\<rparr>, \<lparr>ms_S = 7, ms_E = 14, ms_Type = ''b''\<rparr>]"

lemmas find_eval = starts_with_def url_char_def url_tail_def urlRE_def boldRE_def inlineCodeRE_def
  fenceLineRE_def slice_def inside_def link_step_def

lemmas mark_eval = markdownSpans_def markdown_events_def fenceRegions_def inline_regions_def
  bold_regions_def fence_step_def emit_def linkSpans_def TrimRight_def utf16Len_sum rune_units_def

lemma ex_valid: "valid_utf8 ex_text"
  by (simp add: ex_text_def text_eval)

lemma ex_markdown: "markdownSpans ex_text = Some (ex_clean, ex_marks)"
  by (simp add: ex_text_def ex_clean_def ex_marks_def mark_eval find_eval text_eval)

lemma ex_links: "linkSpans ex_clean = Some [\<lparr>ls_S = 15, ls_E = 26\<rparr>]"
  by (simp add: ex_clean_def mark_eval find_eval text_eval)

lemma BuildContent_total: "\<exists>blob. BuildContent text = Some blob"
proof -
  obtain clean marks where m: "markdownSpans text = Some (clean, marks)" using markdownSpans_total by blast
  obtain ls where "linkSpans clean = Some ls" using linkSpans_spec by blast
  then show ?thesis using m by (simp add: BuildContent_def Let_def)
qed

text \<open>C39. Building the content blob returns for every text: no slice of the markdown pass is
  inverted or out of range, also when spans nest (the code drops the nested one).\<close>

theorem BuildContent_never_panics: "\<exists>blob. BuildContent text = Some blob"
  by (rule BuildContent_total)

text \<open>C31. On well-formed UTF-8 every entity span measures, in UTF-16 units of the cleaned text,
  exactly a non-empty body whose markup stands in the source text; the spans are in order and
  do not overlap.\<close>

theorem markdownSpans_exact:
  assumes "valid_utf8 text" "markdownSpans text = Some (clean, marks)"
  shows "(\<forall>m \<in> set marks. span_exact text clean m \<and> ms_E m \<le> utf16Len clean) \<and>
    sorted_wrt (\<lambda>a b. ms_E a \<le> ms_S b) marks"
  using markdownSpans_inv [OF assms] by blast

lemma markdownSpans_exact_witness:
  "span_exact ex_text ex_clean \<lparr>ms_S = 7, ms_E = 14, ms_Type = ''b''\<rparr>"
  using markdownSpans_exact [OF ex_valid ex_markdown] by (simp add: ex_marks_def)

text \<open>The markdown pass removes nothing but asterisks from a text.\<close>

theorem markdownSpans_removes_only_stars:
  assumes "markdownSpans text = Some (clean, marks)"
  shows "filter (\<lambda>c. c \<noteq> STAR) clean = filter (\<lambda>c. c \<noteq> STAR) text"
  using markdownSpans_only_stars [OF assms] .

lemma markdownSpans_removes_only_stars_witness:
  "filter (\<lambda>c. c \<noteq> STAR) ex_clean = filter (\<lambda>c. c \<noteq> STAR) ex_text"
  using markdownSpans_removes_only_stars [OF ex_markdown] .

text \<open>C32. The link spans are the URLs of the text: \<open>linkSpans\<close> returns; each span covers, in UTF-16
  units and without the sentence punctuation at its end, a place where a scheme and further
  characters other than blanks and brackets stand, as long as they go; no such place is left out
  (one that starts inside another ends with it); and the spans are in order and do not overlap.\<close>

theorem linkSpans_exact:
  "\<exists>ls. linkSpans text = Some ls \<and> (\<forall>l \<in> set ls. \<exists>a b. url_at text a b \<and> link_for text a b l) \<and>
     (\<forall>i j. url_at text i j \<longrightarrow> (\<exists>l \<in> set ls. \<exists>a \<le> i. url_at text a j \<and> link_for text a j l)) \<and>
     sorted_wrt (\<lambda>l l'. ls_E l \<le> ls_S l') ls"
  by (rule linkSpans_spec)

lemma linkSpans_exact_witness:
  "\<exists>a b. url_at ex_clean a b \<and> link_for ex_clean a b \<lparr>ls_S = 15, ls_E = 26\<rparr>"
  using linkSpans_exact [of ex_clean] ex_links by simp

end
