(* ===== verification/Protowire.thy ===== *)
theory Protowire
  imports Go_Strconv
begin

text \<open>
  The third-party package \<open>protobuf/encoding/protowire\<close> is a parameter of the model: the
  record \<open>wire_lib\<close> of the functions the source calls.  The locale \<open>wire\<close> names the
  documented behaviour the code relies on, and the loop every decoder of the source is
  written with, \<open>for len(b) > 0 { ConsumeTag ... }\<close>, is \<open>wire_loop\<close>.  The protobuf wire
  format itself, base-128 varints and length prefixes, is the instance \<open>std_wire\<close>.

  A \<open>Consume\<close> function returns a negative length on error; here that is \<open>Inl\<close> of the code.
\<close>

record wire_lib =
  AppendTag :: "bytes \<Rightarrow> nat \<Rightarrow> nat \<Rightarrow> bytes"
  AppendVarint :: "bytes \<Rightarrow> u64 \<Rightarrow> bytes"
  AppendBytes :: "bytes \<Rightarrow> bytes \<Rightarrow> bytes"
  AppendString :: "bytes \<Rightarrow> string \<Rightarrow> bytes"
  ConsumeTag :: "bytes \<Rightarrow> int + nat \<times> nat \<times> nat"
  ConsumeVarint :: "bytes \<Rightarrow> int + u64 \<times> nat"
  ConsumeBytes :: "bytes \<Rightarrow> int + bytes \<times> nat"
  ConsumeString :: "bytes \<Rightarrow> int + string \<times> nat"
  ConsumeFieldValue :: "nat \<Rightarrow> nat \<Rightarrow> bytes \<Rightarrow> int + nat"

abbreviation VarintType :: nat where "VarintType \<equiv> 0"
abbreviation Fixed64Type :: nat where "Fixed64Type \<equiv> 1"
abbreviation BytesType :: nat where "BytesType \<equiv> 2"
abbreviation Fixed32Type :: nat where "Fixed32Type \<equiv> 5"

text \<open>A field number of the wire format, and a slice a Go program can hold.\<close>

definition valid_num :: "nat \<Rightarrow> bool" where
  "valid_num n \<longleftrightarrow> 1 \<le> n \<and> n < 2 ^ 29"

definition fits :: "bytes \<Rightarrow> bool" where
  "fits b \<longleftrightarrow> length b < 2 ^ 63"

lemma fits_Nil [simp]: "fits []"
  by (simp add: fits_def)

section \<open>The decoding loop\<close>

text \<open>What one iteration of a loop's body asks for: leave the loop, go on after a value of
  \<open>n\<close> bytes, or nothing, because a loop nested in it did not return.\<close>

datatype 's verdict = Stop 's | Next nat 's | Hang

text \<open>\<open>None\<close> is a loop that does not return: a slice expression \<open>b[n:]\<close> past the end panics,
  and an iteration that consumes nothing repeats for ever.\<close>

function wire_loop :: "wire_lib \<Rightarrow> (int \<Rightarrow> 's \<Rightarrow> 's) \<Rightarrow> (nat \<Rightarrow> nat \<Rightarrow> bytes \<Rightarrow> 's \<Rightarrow> 's verdict) \<Rightarrow>
    bytes \<Rightarrow> 's \<Rightarrow> 's option" where
  "wire_loop w bad body b s =
     (if b = [] then Some s
      else (case ConsumeTag w b of
          Inl e \<Rightarrow> Some (bad e s)
        | Inr (num, ty, n) \<Rightarrow>
            if length b < n then None
            else (case body num ty (drop n b) s of
                Stop s' \<Rightarrow> Some s'
              | Hang \<Rightarrow> None
              | Next vn s' \<Rightarrow>
                  if length b < n + vn \<or> n + vn = 0 then None
                  else wire_loop w bad body (drop vn (drop n b)) s')))"
  by pat_completeness auto
termination
  by (relation "measure (\<lambda>(w, bad, body, b, s). length b)") auto

declare wire_loop.simps [simp del]

lemma wire_loop_Nil [simp]: "wire_loop w bad body [] s = Some s"
  by (simp add: wire_loop.simps)

text \<open>What every iteration keeps holds of the result.\<close>

lemma wire_loop_inv:
  assumes "P s" "wire_loop w bad body b s = Some r"
    and "\<And>e s. P s \<Longrightarrow> P (bad e s)"
    and "\<And>num ty b s s'. P s \<Longrightarrow> body num ty b s = Stop s' \<Longrightarrow> P s'"
    and "\<And>num ty b s n s'. P s \<Longrightarrow> body num ty b s = Next n s' \<Longrightarrow> P s'"
  shows "P r"
  using assms(1,2)
proof (induction "length b" arbitrary: b s rule: less_induct)
  case less
  show ?case
  proof (cases "b = []")
    case False
    show ?thesis
    proof (cases "ConsumeTag w b")
      case (Inl e)
      then have "bad e s = r" using less.prems(2) False by (simp add: wire_loop.simps [of w bad body b])
      then show ?thesis using assms(3) less.prems(1) by blast
    next
      case (Inr t)
      obtain num ty n where t: "t = (num, ty, n)" by (cases t) auto
      note ex = wire_loop.simps [of w bad body b s] False Inr t
      show ?thesis
      proof (cases "body num ty (drop n b) s")
        case (Stop s')
        then show ?thesis using less.prems assms(4) ex by (auto split: if_splits)
      next
        case (Next vn s')
        then have "wire_loop w bad body (drop vn (drop n b)) s' = Some r"
          "length (drop vn (drop n b)) < length b" "P s'"
          using less.prems assms(5) ex by (auto split: if_splits)
        then show ?thesis by (rule less.hyps [rotated 2])
      next
        case Hang
        then show ?thesis using less.prems ex by (auto split: if_splits)
      qed
    qed
  qed (use less.prems in simp)
qed

section \<open>Fields on the wire\<close>

datatype wire_field =
    FVarint nat u64
  | FBytes nat bytes
  | FFixed64 nat bytes
  | FFixed32 nat bytes

fun fnum :: "wire_field \<Rightarrow> nat" where
  "fnum (FVarint n _) = n"
| "fnum (FBytes n _) = n"
| "fnum (FFixed64 n _) = n"
| "fnum (FFixed32 n _) = n"

fun ftyp :: "wire_field \<Rightarrow> nat" where
  "ftyp (FVarint _ _) = VarintType"
| "ftyp (FBytes _ _) = BytesType"
| "ftyp (FFixed64 _ _) = Fixed64Type"
| "ftyp (FFixed32 _ _) = Fixed32Type"

fun field_ok :: "wire_field \<Rightarrow> bool" where
  "field_ok (FVarint n _) = valid_num n"
| "field_ok (FBytes n b) = (valid_num n \<and> fits b)"
| "field_ok (FFixed64 n b) = (valid_num n \<and> length b = 8)"
| "field_ok (FFixed32 n b) = (valid_num n \<and> length b = 4)"

fun enc_value :: "wire_lib \<Rightarrow> wire_field \<Rightarrow> bytes" where
  "enc_value w (FVarint _ v) = AppendVarint w [] v"
| "enc_value w (FBytes _ b) = AppendBytes w [] b"
| "enc_value w (FFixed64 _ b) = b"
| "enc_value w (FFixed32 _ b) = b"

definition enc_field :: "wire_lib \<Rightarrow> wire_field \<Rightarrow> bytes" where
  "enc_field w f = AppendTag w [] (fnum f) (ftyp f) @ enc_value w f"

definition enc_fields :: "wire_lib \<Rightarrow> wire_field list \<Rightarrow> bytes" where
  "enc_fields w fs = concat (map (enc_field w) fs)"

lemma enc_fields_simps [simp]:
  "enc_fields w [] = []"
  "enc_fields w (f # fs) = enc_field w f @ enc_fields w fs"
  "enc_fields w (fs @ gs) = enc_fields w fs @ enc_fields w gs"
  by (simp_all add: enc_fields_def)

section \<open>What protowire promises\<close>

locale wire =
  fixes w :: wire_lib
  assumes tag_append: "AppendTag w b n t = b @ AppendTag w [] n t"
    and varint_append: "AppendVarint w b x = b @ AppendVarint w [] x"
    and bytes_append: "AppendBytes w b v = b @ AppendVarint w [] (of_nat (length v)) @ v"
    and string_append: "AppendString w b s = AppendBytes w b (str_bytes s)"
    and consume_tag: "valid_num n \<Longrightarrow> t < 8 \<Longrightarrow>
        ConsumeTag w (AppendTag w [] n t @ r) = Inr (n, t, length (AppendTag w [] n t))"
    and consume_varint:
        "ConsumeVarint w (AppendVarint w [] x @ r) = Inr (x, length (AppendVarint w [] x))"
    and consume_bytes: "fits v \<Longrightarrow>
        ConsumeBytes w (AppendBytes w [] v @ r) = Inr (v, length (AppendBytes w [] v))"
    and consume_string: "ConsumeString w b = map_sum id (map_prod bytes_str id) (ConsumeBytes w b)"
    and value_varint: "ConsumeFieldValue w n VarintType b = map_sum id snd (ConsumeVarint w b)"
    and value_bytes: "ConsumeFieldValue w n BytesType b = map_sum id snd (ConsumeBytes w b)"
    and value_fixed64: "length v = 8 \<Longrightarrow> ConsumeFieldValue w n Fixed64Type (v @ r) = Inr 8"
    and value_fixed32: "length v = 4 \<Longrightarrow> ConsumeFieldValue w n Fixed32Type (v @ r) = Inr 4"
    and tag_bounds: "ConsumeTag w b = Inr (n, t, k) \<Longrightarrow> 0 < k \<and> k \<le> length b"
    and varint_bounds: "ConsumeVarint w b = Inr (x, k) \<Longrightarrow> k \<le> length b"
    and bytes_bounds: "ConsumeBytes w b = Inr (v, k) \<Longrightarrow> k \<le> length b"
    and value_bounds: "ConsumeFieldValue w n t b = Inr k \<Longrightarrow> k \<le> length b"
begin

lemma bytes_append': "AppendBytes w b v = b @ AppendBytes w [] v"
  by (metis append_Nil bytes_append)

lemma length_le_AppendBytes: "length v \<le> length (AppendBytes w [] v)"
  by (metis append_Nil bytes_append le_add2 length_append)

lemma value_field: "field_ok f \<Longrightarrow> ConsumeFieldValue w n (ftyp f) (enc_value w f @ r) = Inr (length (enc_value w f))"
  by (cases f) (auto simp: value_varint value_bytes value_fixed64 value_fixed32 consume_varint consume_bytes
      simp del: One_nat_def)

text \<open>A loop whose body steps over exactly one value at a time always returns.\<close>

lemma wire_loop_returns:
  assumes "\<And>num ty b s n s'. body num ty b s = Next n s' \<Longrightarrow> n \<le> length b"
    and "\<And>num ty b s. body num ty b s \<noteq> Hang"
  shows "\<exists>s'. wire_loop w bad body b s = Some s'"
proof (induction "length b" arbitrary: b s rule: less_induct)
  case less
  show ?case
  proof (cases "b = []")
    case False
    show ?thesis
    proof (cases "ConsumeTag w b")
      case (Inl e)
      then show ?thesis using False by (simp add: wire_loop.simps [of w bad body b])
    next
      case (Inr t)
      then obtain num ty n where t: "ConsumeTag w b = Inr (num, ty, n)" by (cases t) auto
      then have n: "0 < n" "n \<le> length b" using tag_bounds by auto
      show ?thesis
      proof (cases "body num ty (drop n b) s")
        case (Next vn s')
        then have vn: "n + vn \<le> length b" using assms(1) n by fastforce
        have "length (drop vn (drop n b)) < length b" using n vn by simp
        then obtain r where "wire_loop w bad body (drop vn (drop n b)) s' = Some r" using less by blast
        then show ?thesis using False t n vn Next by (simp add: wire_loop.simps [of w bad body b])
      qed (use False t n assms(2) in \<open>auto simp: wire_loop.simps [of w bad body b]\<close>)
    qed
  qed simp
qed

text \<open>On encoded fields the loop is a fold over the fields.\<close>

lemma wire_loop_field:
  assumes "field_ok f" "body (fnum f) (ftyp f) (enc_value w f @ r) s = Next (length (enc_value w f)) s'"
  shows "wire_loop w bad body (enc_field w f @ r) s = wire_loop w bad body r s'"
proof -
  let ?t = "AppendTag w [] (fnum f) (ftyp f)"
  have "ConsumeTag w (?t @ enc_value w f @ r) = Inr (fnum f, ftyp f, length ?t)"
    using assms(1) by (intro consume_tag) (cases f; simp)+
  moreover from this have "0 < length ?t" using tag_bounds by blast
  ultimately show ?thesis
    using assms(2) by (simp add: enc_field_def wire_loop.simps [of w bad body "?t @ enc_value w f @ r"])
qed

lemma wire_loop_field_stop:
  assumes "field_ok f" "body (fnum f) (ftyp f) (enc_value w f @ r) s = Stop s'"
  shows "wire_loop w bad body (enc_field w f @ r) s = Some s'"
proof -
  let ?t = "AppendTag w [] (fnum f) (ftyp f)"
  have "ConsumeTag w (?t @ enc_value w f @ r) = Inr (fnum f, ftyp f, length ?t)"
    using assms(1) by (intro consume_tag) (cases f; simp)+
  moreover from this have "0 < length ?t" using tag_bounds by blast
  ultimately show ?thesis
    using assms(2) by (simp add: enc_field_def wire_loop.simps [of w bad body "?t @ enc_value w f @ r"])
qed

lemma wire_loop_fields:
  assumes "\<And>f r s. f \<in> set fs \<Longrightarrow>
      body (fnum f) (ftyp f) (enc_value w f @ r) s = Next (length (enc_value w f)) (upd f s)"
    and "\<And>f. f \<in> set fs \<Longrightarrow> field_ok f"
  shows "wire_loop w bad body (enc_fields w fs @ r) s = wire_loop w bad body r (foldl (\<lambda>s f. upd f s) s fs)"
  using assms
proof (induction fs arbitrary: s)
  case (Cons f fs)
  have "wire_loop w bad body (enc_field w f @ enc_fields w fs @ r) s =
      wire_loop w bad body (enc_fields w fs @ r) (upd f s)"
    using Cons.prems by (intro wire_loop_field) auto
  then show ?case using Cons by simp
qed simp

text \<open>The inner slices of a frame that fits also fit.\<close>

lemma fits_field_inner: "fits (enc_field w (FBytes n b)) \<Longrightarrow> fits b"
  using length_le_AppendBytes [of b] by (simp add: fits_def enc_field_def)

lemma fits_fields: "fits (enc_fields w fs) \<Longrightarrow> f \<in> set fs \<Longrightarrow> fits (enc_field w f)"
  by (induction fs) (auto simp: fits_def)

end

section \<open>The wire format\<close>

fun enc_varint :: "nat \<Rightarrow> bytes" where
  "enc_varint v = (if v < 128 then [of_nat v] else of_nat (v mod 128 + 128) # enc_varint (v div 128))"

declare enc_varint.simps [simp del]

text \<open>At most ten bytes, the tenth at most 1; -1 is a truncated value, -3 an overflow.\<close>

fun dec_varint :: "nat \<Rightarrow> bytes \<Rightarrow> int + nat \<times> nat" where
  "dec_varint left [] = Inl (- 1)"
| "dec_varint 0 (b # bs) = (if unat b < 2 then Inr (unat b, 1) else Inl (- 3))"
| "dec_varint (Suc left) (b # bs) =
     (if unat b < 128 then Inr (unat b, 1)
      else (case dec_varint left bs of
              Inl e \<Rightarrow> Inl e
            | Inr (v, k) \<Rightarrow> Inr (unat b - 128 + 128 * v, k + 1)))"

definition std_ConsumeVarint :: "bytes \<Rightarrow> int + u64 \<times> nat" where
  "std_ConsumeVarint b = map_sum id (map_prod of_nat id) (dec_varint 9 b)"

definition std_ConsumeTag :: "bytes \<Rightarrow> int + nat \<times> nat \<times> nat" where
  "std_ConsumeTag b = (case dec_varint 9 b of Inl e \<Rightarrow> Inl e
     | Inr (v, k) \<Rightarrow> if valid_num (v div 8) then Inr (v div 8, v mod 8, k) else Inl (- 2))"

definition std_ConsumeBytes :: "bytes \<Rightarrow> int + bytes \<times> nat" where
  "std_ConsumeBytes b = (case dec_varint 9 b of Inl e \<Rightarrow> Inl e
     | Inr (m, k) \<Rightarrow> if m \<le> length b - k then Inr (take m (drop k b), k + m) else Inl (- 1))"

definition std_ConsumeFieldValue :: "nat \<Rightarrow> nat \<Rightarrow> bytes \<Rightarrow> int + nat" where
  "std_ConsumeFieldValue n t b =
     (if t = VarintType then map_sum id snd (std_ConsumeVarint b)
      else if t = Fixed32Type then (if length b < 4 then Inl (- 1) else Inr 4)
      else if t = Fixed64Type then (if length b < 8 then Inl (- 1) else Inr 8)
      else if t = BytesType then map_sum id snd (std_ConsumeBytes b)
      else Inl (- 4))"  \<comment> \<open>groups, which no proto3 message uses, are refused\<close>

definition std_wire :: wire_lib where
  "std_wire = \<lparr>
     AppendTag = (\<lambda>b n t. b @ enc_varint (8 * n + t)),
     AppendVarint = (\<lambda>b v. b @ enc_varint (unat v)),
     AppendBytes = (\<lambda>b v. b @ enc_varint (unat (of_nat (length v) :: u64)) @ v),
     AppendString = (\<lambda>b s. b @ enc_varint (unat (of_nat (length s) :: u64)) @ str_bytes s),
     ConsumeTag = std_ConsumeTag,
     ConsumeVarint = std_ConsumeVarint,
     ConsumeBytes = std_ConsumeBytes,
     ConsumeString = (\<lambda>b. map_sum id (map_prod bytes_str id) (std_ConsumeBytes b)),
     ConsumeFieldValue = std_ConsumeFieldValue\<rparr>"

lemma dec_enc_varint:
  "v < 2 * 128 ^ left \<Longrightarrow> dec_varint left (enc_varint v @ r) = Inr (v, length (enc_varint v))"
proof (induction left arbitrary: v)
  case 0
  then show ?case by (simp add: enc_varint.simps [of v] unat_byte)
next
  case (Suc left)
  show ?case
  proof (cases "v < 128")
    case True
    then show ?thesis by (simp add: enc_varint.simps [of v] unat_byte)
  next
    case False
    have "v div 128 < 2 * 128 ^ left" using Suc.prems by (simp add: less_mult_imp_div_less mult.commute mult.left_commute)
    then have "dec_varint left (enc_varint (v div 128) @ r) = Inr (v div 128, length (enc_varint (v div 128)))"
      by (rule Suc.IH)
    moreover have "unat (of_nat (v mod 128 + 128) :: byte) = v mod 128 + 128" by (simp only: unat_byte)
    ultimately show ?thesis using False by (simp add: enc_varint.simps [of v] del: of_nat_add)
  qed
qed

lemma dec_varint_bounds: "dec_varint left b = Inr (v, k) \<Longrightarrow> 0 < k \<and> k \<le> length b"
  by (induction left b arbitrary: v k rule: dec_varint.induct) (auto split: if_splits sum.splits)

lemma dec_enc_u64: "dec_varint 9 (enc_varint (unat (v :: u64)) @ r) = Inr (unat v, length (enc_varint (unat v)))"
  using unat_u64_le [of v] by (intro dec_enc_varint) simp

interpretation std: wire std_wire
proof (unfold_locales, goal_cases)
  case (5 n t r)
  have "dec_varint 9 (enc_varint (8 * n + t) @ r) = Inr (8 * n + t, length (enc_varint (8 * n + t)))"
    using 5 by (intro dec_enc_varint) (simp add: valid_num_def)
  then show ?case using 5 by (simp add: std_wire_def std_ConsumeTag_def)
next
  case (6 v r)
  show ?case by (simp add: std_wire_def std_ConsumeVarint_def dec_enc_u64)
next
  case (7 v r)
  have "unat (of_nat (length v) :: u64) = length v" using 7 by (simp add: fits_def unat_u64)
  then show ?case using dec_enc_u64 [of "of_nat (length v)" "v @ r"]
    by (simp add: std_wire_def std_ConsumeBytes_def)
next
  case (13 b n t k)
  then show ?case by (auto simp: std_wire_def std_ConsumeTag_def dest: dec_varint_bounds split: sum.splits if_splits)
next
  case (14 b v k)
  then show ?case by (cases "dec_varint 9 b") (auto simp: std_wire_def std_ConsumeVarint_def dest: dec_varint_bounds)
next
  case (15 b v k)
  then show ?case
    by (auto simp: std_wire_def std_ConsumeBytes_def dest!: dec_varint_bounds split: sum.splits if_splits)
next
  case (16 n t b k)
  then show ?case
    by (cases "dec_varint 9 b")
      (auto simp: std_wire_def std_ConsumeFieldValue_def std_ConsumeVarint_def std_ConsumeBytes_def
        dest!: dec_varint_bounds split: if_splits)
qed (simp_all add: std_wire_def std_ConsumeFieldValue_def)

end
