(* ===== verification/Wire.thy ===== *)
theory Wire
  imports Protowire Content_Blob
begin

text \<open>
  \<open>lib/ws/wire.go\<close>: the outgoing envelopes, hand-encoded with protowire (the parameter \<open>w\<close>).
  Each builder is the code's sequence of appends; the lemmas give the list of wire fields the
  result is the encoding of.
\<close>

abbreviation envClanJoin :: nat where "envClanJoin \<equiv> 3"
abbreviation envChannelMessage :: nat where "envChannelMessage \<equiv> 6"
abbreviation envChannelMessageSend :: nat where "envChannelMessageSend \<equiv> 8"
abbreviation envError :: nat where "envError \<equiv> 12"
abbreviation envPing :: nat where "envPing \<equiv> 22"
abbreviation envTyping :: nat where "envTyping \<equiv> 24"
abbreviation envMessageReactionEvent :: nat where "envMessageReactionEvent \<equiv> 26"

record Mention =
  mn_UserID :: string
  mn_S :: i32
  mn_E :: i32

record Ref =
  RefMessageID :: string
  ref_SenderID :: string
  SenderUsername :: string
  SenderAvatar :: string
  ref_Content :: string

record SendOpts =
  so_Ref :: "Ref option"
  so_Mentions :: "Mention list"
  MentionEveryone :: bool

text \<open>\<open>v, _ := strconv.ParseUint(s, 10, 64)\<close> keeps the value and drops the error.\<close>

definition id_of :: "string \<Rightarrow> u64" where
  "id_of s = fst (ParseUint s)"

definition appendVarintField :: "wire_lib \<Rightarrow> bytes \<Rightarrow> nat \<Rightarrow> u64 \<Rightarrow> bytes" where
  "appendVarintField w b num v =
     (if v = 0 then b else AppendVarint w (AppendTag w b num VarintType) v)"

definition appendStringField :: "wire_lib \<Rightarrow> bytes \<Rightarrow> nat \<Rightarrow> string \<Rightarrow> bytes" where
  "appendStringField w b num v =
     (if v = '''' then b else AppendString w (AppendTag w b num BytesType) v)"

definition appendMessageField :: "wire_lib \<Rightarrow> bytes \<Rightarrow> nat \<Rightarrow> bytes \<Rightarrow> bytes" where
  "appendMessageField w b num msg = AppendBytes w (AppendTag w b num BytesType) msg"

text \<open>\<open>uint64(uint32(x))\<close> of an \<open>int32\<close>.\<close>

definition u64_of_i32 :: "i32 \<Rightarrow> u64" where
  "u64_of_i32 x = ucast x"

definition append_mention :: "wire_lib \<Rightarrow> bytes \<Rightarrow> Mention \<Rightarrow> bytes" where
  "append_mention w msg m =
     (let mm = appendVarintField w [] 2 (id_of (mn_UserID m));
          mm = appendVarintField w mm 7 (u64_of_i32 (mn_S m));
          mm = appendVarintField w mm 8 (u64_of_i32 (mn_E m))
      in appendMessageField w msg 4 mm)"

definition append_ref :: "wire_lib \<Rightarrow> bytes \<Rightarrow> Ref \<Rightarrow> bytes" where
  "append_ref w msg r =
     (let mr = appendVarintField w [] 2 (id_of (RefMessageID r));
          mr = appendStringField w mr 3 (ref_Content r);
          mr = appendVarintField w mr 6 (id_of (ref_SenderID r));
          mr = appendStringField w mr 7 (SenderUsername r);
          mr = appendStringField w mr 8 (SenderAvatar r)
      in appendMessageField w msg 6 mr)"

definition BuildSendEnvelopeRaw ::
    "wire_lib \<Rightarrow> string \<Rightarrow> string \<Rightarrow> i32 \<Rightarrow> bool \<Rightarrow> string \<Rightarrow> SendOpts \<Rightarrow> bytes" where
  "BuildSendEnvelopeRaw w channelID clanID mode isPublic content opts =
     (let msg = appendVarintField w [] 1 (id_of clanID);
          msg = appendVarintField w msg 2 (id_of channelID);
          msg = appendStringField w msg 3 content;
          msg = foldl (append_mention w) msg (so_Mentions opts);
          msg = (case so_Ref opts of None \<Rightarrow> msg | Some r \<Rightarrow> append_ref w msg r);
          msg = appendVarintField w msg 7 (u64_of_i32 mode);
          msg = (if MentionEveryone opts then appendVarintField w msg 9 1 else msg);
          msg = (if isPublic then appendVarintField w msg 11 1 else msg)
      in appendMessageField w [] envChannelMessageSend msg)"

definition BuildSendEnvelope ::
    "wire_lib \<Rightarrow> string \<Rightarrow> string \<Rightarrow> i32 \<Rightarrow> bool \<Rightarrow> string \<Rightarrow> SendOpts \<Rightarrow> bytes option" where
  "BuildSendEnvelope w channelID clanID mode isPublic text opts =
     (case BuildContent text of None \<Rightarrow> None
      | Some blob \<Rightarrow> Some (BuildSendEnvelopeRaw w channelID clanID mode isPublic blob opts))"

definition BuildClanJoinEnvelope :: "wire_lib \<Rightarrow> string \<Rightarrow> bytes" where
  "BuildClanJoinEnvelope w clanID =
     (let inner = appendVarintField w [] 1 (id_of clanID) in appendMessageField w [] envClanJoin inner)"

definition BuildTypingEnvelope ::
    "wire_lib \<Rightarrow> string \<Rightarrow> string \<Rightarrow> string \<Rightarrow> string \<Rightarrow> string \<Rightarrow> i32 \<Rightarrow> bool \<Rightarrow> bytes" where
  "BuildTypingEnvelope w channelID clanID senderID senderUsername senderDisplayName mode isPublic =
     (let name = (if senderDisplayName = '''' then senderUsername else senderDisplayName);
          msg = appendVarintField w [] 1 (id_of clanID);
          msg = appendVarintField w msg 2 (id_of channelID);
          msg = appendVarintField w msg 3 (id_of senderID);
          msg = appendVarintField w msg 4 (u64_of_i32 mode);
          msg = (if isPublic then appendVarintField w msg 5 1 else msg);
          msg = appendStringField w msg 6 senderUsername;
          msg = appendStringField w msg 7 name
      in appendMessageField w [] envTyping msg)"

definition BuildReactionEnvelope ::
    "wire_lib \<Rightarrow> string \<Rightarrow> string \<Rightarrow> string \<Rightarrow> string \<Rightarrow> string \<Rightarrow> bool \<Rightarrow> i32 \<Rightarrow> bool \<Rightarrow> bytes" where
  "BuildReactionEnvelope w clanID channelID messageID emojiID emoji action mode isPublic =
     (let msg = (if emojiID \<noteq> '''' then appendVarintField w [] 2 (id_of emojiID) else []);
          msg = appendStringField w msg 3 emoji;
          msg = (if action then appendVarintField w msg 7 1 else msg);
          msg = appendVarintField w msg 9 (id_of channelID);
          msg = appendVarintField w msg 10 (id_of messageID);
          msg = appendVarintField w msg 11 (id_of clanID);
          msg = appendVarintField w msg 12 (u64_of_i32 mode);
          msg = (if isPublic then appendVarintField w msg 14 1 else msg)
      in appendMessageField w [] envMessageReactionEvent msg)"

definition BuildStickerEnvelope ::
    "wire_lib \<Rightarrow> string \<Rightarrow> string \<Rightarrow> i32 \<Rightarrow> bool \<Rightarrow> string \<Rightarrow> string \<Rightarrow> bytes" where
  "BuildStickerEnvelope w channelID clanID mode isPublic stickerShortcode stickerURL =
     (let att = appendStringField w [] 1 stickerShortcode;
          att = appendStringField w att 3 stickerURL;
          att = appendStringField w att 4 ''sticker'';
          msg = appendVarintField w [] 1 (id_of clanID);
          msg = appendVarintField w msg 2 (id_of channelID);
          msg = appendMessageField w msg 5 att;
          msg = appendVarintField w msg 7 (u64_of_i32 mode);
          msg = (if isPublic then appendVarintField w msg 11 1 else msg)
      in appendMessageField w [] envChannelMessageSend msg)"

definition BuildPingEnvelope :: "wire_lib \<Rightarrow> bytes" where
  "BuildPingEnvelope w = appendMessageField w [] envPing []"

definition BuildPingEnvelopeWithCid :: "wire_lib \<Rightarrow> u64 \<Rightarrow> bytes" where
  "BuildPingEnvelopeWithCid w cid =
     (let env = appendVarintField w [] 1 cid in env @ appendMessageField w [] envPing [])"

section \<open>The fields the builders encode\<close>

definition vfield :: "nat \<Rightarrow> u64 \<Rightarrow> wire_field list" where
  "vfield n v = (if v = 0 then [] else [FVarint n v])"

definition sfield :: "nat \<Rightarrow> string \<Rightarrow> wire_field list" where
  "sfield n s = (if s = '''' then [] else [FBytes n (str_bytes s)])"

definition bfield :: "nat \<Rightarrow> bool \<Rightarrow> wire_field list" where
  "bfield n p = (if p then [FVarint n 1] else [])"

definition mention_fields :: "Mention \<Rightarrow> wire_field list" where
  "mention_fields m = vfield 2 (id_of (mn_UserID m)) @ vfield 7 (u64_of_i32 (mn_S m)) @
     vfield 8 (u64_of_i32 (mn_E m))"

definition ref_fields :: "Ref \<Rightarrow> wire_field list" where
  "ref_fields r = vfield 2 (id_of (RefMessageID r)) @ sfield 3 (ref_Content r) @
     vfield 6 (id_of (ref_SenderID r)) @ sfield 7 (SenderUsername r) @ sfield 8 (SenderAvatar r)"

definition send_fields ::
    "wire_lib \<Rightarrow> string \<Rightarrow> string \<Rightarrow> i32 \<Rightarrow> bool \<Rightarrow> string \<Rightarrow> SendOpts \<Rightarrow> wire_field list" where
  "send_fields w channelID clanID mode isPublic content opts =
     vfield 1 (id_of clanID) @ vfield 2 (id_of channelID) @ sfield 3 content @
     map (\<lambda>m. FBytes 4 (enc_fields w (mention_fields m))) (so_Mentions opts) @
     (case so_Ref opts of None \<Rightarrow> [] | Some r \<Rightarrow> [FBytes 6 (enc_fields w (ref_fields r))]) @
     vfield 7 (u64_of_i32 mode) @ bfield 9 (MentionEveryone opts) @ bfield 11 isPublic"

definition typing_fields :: "string \<Rightarrow> string \<Rightarrow> string \<Rightarrow> string \<Rightarrow> string \<Rightarrow> i32 \<Rightarrow> bool \<Rightarrow> wire_field list" where
  "typing_fields channelID clanID senderID user name mode isPublic =
     vfield 1 (id_of clanID) @ vfield 2 (id_of channelID) @ vfield 3 (id_of senderID) @
     vfield 4 (u64_of_i32 mode) @ bfield 5 isPublic @ sfield 6 user @
     sfield 7 (if name = '''' then user else name)"

definition reaction_fields :: "string \<Rightarrow> string \<Rightarrow> string \<Rightarrow> string \<Rightarrow> string \<Rightarrow> bool \<Rightarrow> i32 \<Rightarrow> bool \<Rightarrow> wire_field list" where
  "reaction_fields clanID channelID messageID emojiID emoji action mode isPublic =
     vfield 2 (id_of emojiID) @ sfield 3 emoji @ bfield 7 action @ vfield 9 (id_of channelID) @
     vfield 10 (id_of messageID) @ vfield 11 (id_of clanID) @ vfield 12 (u64_of_i32 mode) @
     bfield 14 isPublic"

definition sticker_fields :: "wire_lib \<Rightarrow> string \<Rightarrow> string \<Rightarrow> i32 \<Rightarrow> bool \<Rightarrow> string \<Rightarrow> string \<Rightarrow> wire_field list" where
  "sticker_fields w channelID clanID mode isPublic short url =
     vfield 1 (id_of clanID) @ vfield 2 (id_of channelID) @
     [FBytes 5 (enc_fields w (sfield 1 short @ sfield 3 url @ sfield 4 ''sticker''))] @
     vfield 7 (u64_of_i32 mode) @ bfield 11 isPublic"

lemma id_of_empty [simp]: "id_of '''' = 0"
  by (simp add: id_of_def)

lemma id_of_FormatUint [simp]: "id_of (FormatUint v) = v"
  by (simp add: id_of_def)

context wire begin

lemma append_varint_field [wire_simps]: "appendVarintField w b n v = b @ enc_fields w (vfield n v)"
  by (simp add: appendVarintField_def vfield_def enc_field_def)
    (metis append.assoc tag_append varint_append)

lemma append_string_field [wire_simps]: "appendStringField w b n s = b @ enc_fields w (sfield n s)"
  by (simp add: appendStringField_def sfield_def enc_field_def string_append)
    (metis append.assoc tag_append bytes_append')

lemma append_message_field [wire_simps]: "appendMessageField w b n m = b @ enc_fields w [FBytes n m]"
  by (simp add: appendMessageField_def enc_field_def) (metis append.assoc tag_append bytes_append')

lemma append_bool_field [wire_simps]:
  "(if p then appendVarintField w b n 1 else b) = b @ enc_fields w (bfield n p)"
  by (simp add: append_varint_field vfield_def bfield_def)

lemma append_mention_eq [wire_simps]:
  "append_mention w b m = b @ enc_fields w [FBytes 4 (enc_fields w (mention_fields m))]"
  by (simp add: append_mention_def wire_simps mention_fields_def)

lemma append_mentions [wire_simps]:
  "foldl (append_mention w) b ms =
     b @ enc_fields w (map (\<lambda>m. FBytes 4 (enc_fields w (mention_fields m))) ms)"
  by (induction ms arbitrary: b) (simp_all add: append_mention_eq)

lemma append_ref_eq [wire_simps]:
  "append_ref w b r = b @ enc_fields w [FBytes 6 (enc_fields w (ref_fields r))]"
  by (simp add: append_ref_def wire_simps ref_fields_def)

lemma BuildSendEnvelopeRaw_fields:
  "BuildSendEnvelopeRaw w ch cl mode pub content opts =
     enc_fields w [FBytes 8 (enc_fields w (send_fields w ch cl mode pub content opts))]"
  by (cases "so_Ref opts") (simp_all add: BuildSendEnvelopeRaw_def wire_simps send_fields_def Let_def)

lemma BuildClanJoinEnvelope_fields:
  "BuildClanJoinEnvelope w cl = enc_fields w [FBytes 3 (enc_fields w (vfield 1 (id_of cl)))]"
  by (simp add: BuildClanJoinEnvelope_def wire_simps)

lemma BuildTypingEnvelope_fields:
  "BuildTypingEnvelope w ch cl sender user name mode pub =
     enc_fields w [FBytes 24 (enc_fields w (typing_fields ch cl sender user name mode pub))]"
  by (simp add: BuildTypingEnvelope_def wire_simps typing_fields_def Let_def)

lemma BuildReactionEnvelope_fields:
  "BuildReactionEnvelope w cl ch msg eid e action mode pub =
     enc_fields w [FBytes 26 (enc_fields w (reaction_fields cl ch msg eid e action mode pub))]"
  by (simp add: BuildReactionEnvelope_def wire_simps reaction_fields_def Let_def)
    (simp add: vfield_def)

lemma BuildStickerEnvelope_fields:
  "BuildStickerEnvelope w ch cl mode pub short url =
     enc_fields w [FBytes 8 (enc_fields w (sticker_fields w ch cl mode pub short url))]"
  by (simp add: BuildStickerEnvelope_def wire_simps sticker_fields_def Let_def)

lemma BuildPingEnvelopeWithCid_fields:
  "BuildPingEnvelopeWithCid w cid = enc_fields w (vfield 1 cid @ [FBytes 22 []])"
  by (simp add: BuildPingEnvelopeWithCid_def wire_simps)

end

end
