(* ===== verification/Decode.thy ===== *)
theory Decode
  imports Wire Bot_Types
begin

text \<open>
  \<open>lib/ws/decode.go\<close> and \<open>lib/ws/ack.go\<close>: reading a raw Envelope frame without unmarshalling
  it.  Every loop is an instance of \<open>wire_loop\<close>; a visitor that captures variables of its
  caller is a function on their state, and \<open>None\<close> is a loop that does not return.  A \<open>[]byte\<close>
  argument that may be nil is an option.
\<close>

datatype wire_err = ParseError int

section \<open>The walkers\<close>

definition walkWire_body :: "wire_lib \<Rightarrow> nat \<Rightarrow> (bytes \<Rightarrow> 's \<Rightarrow> 's option) \<Rightarrow>
    nat \<Rightarrow> nat \<Rightarrow> bytes \<Rightarrow> 's \<Rightarrow> 's verdict" where
  "walkWire_body w want visit num ty b s =
     (if num = want \<and> ty = BytesType then
        (case ConsumeBytes w b of
           Inl _ \<Rightarrow> Stop s
         | Inr (v, vn) \<Rightarrow> (case visit v s of None \<Rightarrow> Hang | Some s' \<Rightarrow> Next vn s'))
      else (case ConsumeFieldValue w num ty b of Inl _ \<Rightarrow> Stop s | Inr n \<Rightarrow> Next n s))"

definition walkWire :: "wire_lib \<Rightarrow> bytes \<Rightarrow> nat \<Rightarrow> (bytes \<Rightarrow> 's \<Rightarrow> 's option) \<Rightarrow> 's \<Rightarrow> 's option" where
  "walkWire w b want visit s = wire_loop w (\<lambda>_ s. s) (walkWire_body w want visit) b s"

definition walkVarints_body :: "wire_lib \<Rightarrow> (nat \<Rightarrow> u64 \<Rightarrow> bytes option \<Rightarrow> 's \<Rightarrow> 's option) \<Rightarrow>
    nat \<Rightarrow> nat \<Rightarrow> bytes \<Rightarrow> 's \<Rightarrow> 's verdict" where
  "walkVarints_body w visit num ty b s =
     (if ty = VarintType then
        (case ConsumeVarint w b of
           Inl _ \<Rightarrow> Stop s
         | Inr (v, vn) \<Rightarrow> (case visit num v None s of None \<Rightarrow> Hang | Some s' \<Rightarrow> Next vn s'))
      else if ty = BytesType then
        (case ConsumeBytes w b of
           Inl _ \<Rightarrow> Stop s
         | Inr (v, vn) \<Rightarrow> (case visit num 0 (Some v) s of None \<Rightarrow> Hang | Some s' \<Rightarrow> Next vn s'))
      else (case ConsumeFieldValue w num ty b of Inl _ \<Rightarrow> Stop s | Inr vn \<Rightarrow> Next vn s))"

definition walkVarints :: "wire_lib \<Rightarrow> bytes \<Rightarrow> (nat \<Rightarrow> u64 \<Rightarrow> bytes option \<Rightarrow> 's \<Rightarrow> 's option) \<Rightarrow> 's \<Rightarrow> 's option" where
  "walkVarints w b visit s = wire_loop w (\<lambda>_ s. s) (walkVarints_body w visit) b s"

section \<open>Nested lists to JSON\<close>

text \<open>\<open>string(sv)\<close> of a slice that may be nil.\<close>

definition opt_str :: "bytes option \<Rightarrow> string" where
  "opt_str sv = (case sv of None \<Rightarrow> '''' | Some b \<Rightarrow> bytes_str b)"

record json_mention =
  jm_UserID :: string
  jm_S :: i32
  jm_E :: i32

record json_attachment =
  ja_Filename :: string
  ja_URL :: string
  ja_Filetype :: string
  ja_Size :: i32

record json_ref =
  jr_MessageID :: string
  jr_SenderID :: string
  jr_Content :: string

text \<open>\<open>int32(v)\<close> keeps the low 32 bits.\<close>

definition i32_of_u64 :: "u64 \<Rightarrow> i32" where
  "i32_of_u64 v = ucast v"

definition mention_visit :: "nat \<Rightarrow> u64 \<Rightarrow> bytes option \<Rightarrow> json_mention \<Rightarrow> json_mention option" where
  "mention_visit num v sv m = Some
     (if num = 2 then m\<lparr>jm_UserID := FormatUint v\<rparr>
      else if num = 7 then m\<lparr>jm_S := i32_of_u64 v\<rparr>
      else if num = 8 then m\<lparr>jm_E := i32_of_u64 v\<rparr> else m)"

definition attachment_visit :: "nat \<Rightarrow> u64 \<Rightarrow> bytes option \<Rightarrow> json_attachment \<Rightarrow> json_attachment option" where
  "attachment_visit num v sv a = Some
     (if num = 1 then a\<lparr>ja_Filename := opt_str sv\<rparr>
      else if num = 2 then a\<lparr>ja_Size := i32_of_u64 v\<rparr>
      else if num = 3 then a\<lparr>ja_URL := opt_str sv\<rparr>
      else if num = 4 then a\<lparr>ja_Filetype := opt_str sv\<rparr> else a)"

definition ref_visit :: "nat \<Rightarrow> u64 \<Rightarrow> bytes option \<Rightarrow> json_ref \<Rightarrow> json_ref option" where
  "ref_visit num v sv r = Some
     (if num = 1 then r\<lparr>jr_MessageID := FormatUint v\<rparr>
      else if num = 3 then r\<lparr>jr_Content := opt_str sv\<rparr>
      else if num = 6 then r\<lparr>jr_SenderID := FormatUint v\<rparr> else r)"

definition mention_json :: "json_mention \<Rightarrow> string" where
  "mention_json m = json_object [(''user_id'', json_string (jm_UserID m)),
     (''s'', FormatInt (sint (jm_S m))), (''e'', FormatInt (sint (jm_E m)))]"

definition attachment_json :: "json_attachment \<Rightarrow> string" where
  "attachment_json a = json_object [(''filename'', json_string (ja_Filename a)),
     (''url'', json_string (ja_URL a)), (''filetype'', json_string (ja_Filetype a)),
     (''size'', FormatInt (sint (ja_Size a)))]"

definition ref_json :: "json_ref \<Rightarrow> string" where
  "ref_json r = json_object [(''message_id'', json_string (jr_MessageID r)),
     (''message_sender_id'', json_string (jr_SenderID r)), (''content'', json_string (jr_Content r))]"

definition mention0 :: json_mention where
  "mention0 = \<lparr>jm_UserID = '''', jm_S = 0, jm_E = 0\<rparr>"

definition attachment0 :: json_attachment where
  "attachment0 = \<lparr>ja_Filename = '''', ja_URL = '''', ja_Filetype = '''', ja_Size = 0\<rparr>"

definition ref0 :: json_ref where
  "ref0 = \<lparr>jr_MessageID = '''', jr_SenderID = '''', jr_Content = ''''\<rparr>"

text \<open>The three converters share their shape: collect one value per field-1 item.\<close>

definition collect_items :: "wire_lib \<Rightarrow> 'a \<Rightarrow> (nat \<Rightarrow> u64 \<Rightarrow> bytes option \<Rightarrow> 'a \<Rightarrow> 'a option) \<Rightarrow>
    bytes \<Rightarrow> 'a list option" where
  "collect_items w zero visit b = walkWire w b 1
     (\<lambda>item out. (case walkVarints w item visit zero of None \<Rightarrow> None | Some m \<Rightarrow> Some (out @ [m]))) []"

definition items_json :: "('a \<Rightarrow> string) \<Rightarrow> 'a list \<Rightarrow> string" where
  "items_json f out = (if out = [] then '''' else json_array (map f out))"

definition mentionsToJSON :: "wire_lib \<Rightarrow> bytes \<Rightarrow> string option" where
  "mentionsToJSON w b = map_option (items_json mention_json) (collect_items w mention0 mention_visit b)"

definition attachmentsToJSON :: "wire_lib \<Rightarrow> bytes \<Rightarrow> string option" where
  "attachmentsToJSON w b =
     map_option (items_json attachment_json) (collect_items w attachment0 attachment_visit b)"

definition refsToJSON :: "wire_lib \<Rightarrow> bytes \<Rightarrow> string option" where
  "refsToJSON w b = map_option (items_json ref_json) (collect_items w ref0 ref_visit b)"

section \<open>A channel message\<close>

definition message_bytes :: "wire_lib \<Rightarrow> nat \<Rightarrow> string \<Rightarrow> Message \<Rightarrow> Message option" where
  "message_bytes w num v msg =
     (if num = 6 then Some (msg\<lparr>Username := v\<rparr>)
      else if num = 7 then Some (msg\<lparr>Avatar := v\<rparr>)
      else if num = 8 then Some (msg\<lparr>Content := v\<rparr>)
      else if num = 9 then Some (msg\<lparr>ChannelLabel := v\<rparr>)
      else if num = 12 then Some (msg\<lparr>DisplayName := v\<rparr>)
      else if num = 13 then Some (msg\<lparr>ClanNick := v\<rparr>)
      else if num = 16 then map_option (\<lambda>j. msg\<lparr>Mentions := j\<rparr>) (mentionsToJSON w (str_bytes v))
      else if num = 17 then map_option (\<lambda>j. msg\<lparr>Attachments := j\<rparr>) (attachmentsToJSON w (str_bytes v))
      else if num = 18 then map_option (\<lambda>j. msg\<lparr>References := j\<rparr>) (refsToJSON w (str_bytes v))
      else Some msg)"

definition message_varint :: "nat \<Rightarrow> u64 \<Rightarrow> Message \<Rightarrow> Message" where
  "message_varint num v msg =
     (if num = 1 then msg\<lparr>ClanID := FormatUint v\<rparr>
      else if num = 2 then msg\<lparr>ChannelID := FormatUint v\<rparr>
      else if num = 3 then msg\<lparr>MessageID := FormatUint v\<rparr>
      else if num = 5 then msg\<lparr>SenderID := FormatUint v\<rparr>
      else if num = 22 then msg\<lparr>Mode := i32_of_u64 v\<rparr>
      else if num = 24 then msg\<lparr>IsPublic := (v \<noteq> 0)\<rparr>
      else msg)"

type_synonym fields_result = "Message \<times> wire_err option"

definition message_body :: "wire_lib \<Rightarrow> nat \<Rightarrow> nat \<Rightarrow> bytes \<Rightarrow> fields_result \<Rightarrow> fields_result verdict" where
  "message_body w num ty b s =
     (if ty = BytesType then
        (case ConsumeString w b of
           Inl e \<Rightarrow> Stop (fst s, Some (ParseError e))
         | Inr (v, n) \<Rightarrow> (case message_bytes w num v (fst s) of
               None \<Rightarrow> Hang | Some msg \<Rightarrow> Next n (msg, None)))
      else if ty = VarintType then
        (case ConsumeVarint w b of
           Inl e \<Rightarrow> Stop (fst s, Some (ParseError e))
         | Inr (v, n) \<Rightarrow> Next n (message_varint num v (fst s), None))
      else (case ConsumeFieldValue w num ty b of
           Inl e \<Rightarrow> Stop (fst s, Some (ParseError e))
         | Inr n \<Rightarrow> Next n (fst s, None)))"

definition decodeChannelMessageFields :: "wire_lib \<Rightarrow> bytes \<Rightarrow> fields_result option" where
  "decodeChannelMessageFields w b =
     wire_loop w (\<lambda>e s. (fst s, Some (ParseError e))) (message_body w) b (Message0, None)"

type_synonym decode_result = "Message \<times> bool \<times> wire_err option"

definition frame_body :: "wire_lib \<Rightarrow> nat \<Rightarrow> nat \<Rightarrow> bytes \<Rightarrow> decode_result \<Rightarrow> decode_result verdict" where
  "frame_body w num ty b s =
     (if num = envChannelMessage \<and> ty = BytesType then
        (case ConsumeBytes w b of
           Inl e \<Rightarrow> Stop (Message0, False, Some (ParseError e))
         | Inr (sub, _) \<Rightarrow> (case decodeChannelMessageFields w sub of
               None \<Rightarrow> Hang
             | Some (msg, Some err) \<Rightarrow> Stop (Message0, False, Some err)
             | Some (msg, None) \<Rightarrow> Stop (msg, True, None)))
      else (case ConsumeFieldValue w num ty b of
           Inl e \<Rightarrow> Stop (Message0, False, Some (ParseError e))
         | Inr vn \<Rightarrow> Next vn s))"

definition DecodeChannelMessage :: "wire_lib \<Rightarrow> bytes \<Rightarrow> decode_result option" where
  "DecodeChannelMessage w frame =
     wire_loop w (\<lambda>e s. (Message0, False, Some (ParseError e))) (frame_body w) frame (Message0, False, None)"

section \<open>Acknowledgements\<close>

abbreviation envChannelMessageAck :: nat where "envChannelMessageAck \<equiv> 7"
abbreviation envChannelMessageUpdate :: nat where "envChannelMessageUpdate \<equiv> 9"

record Ack =
  Cid :: u64
  ack_MessageID :: string
  Err :: bool

definition Ack0 :: Ack where
  "Ack0 = \<lparr>Cid = 0, ack_MessageID = '''', Err = False\<rparr>"

record ack_state =
  as_ack :: Ack
  hasCid :: bool
  hasReply :: bool

definition ack_inner :: "nat \<Rightarrow> u64 \<Rightarrow> bytes option \<Rightarrow> Ack \<Rightarrow> Ack option" where
  "ack_inner f fv fs a = Some
     (if f \<noteq> 2 then a
      else (case fs of None \<Rightarrow> a\<lparr>ack_MessageID := FormatUint fv\<rparr>
            | Some b \<Rightarrow> a\<lparr>ack_MessageID := bytes_str b\<rparr>))"

definition ack_visit :: "wire_lib \<Rightarrow> nat \<Rightarrow> u64 \<Rightarrow> bytes option \<Rightarrow> ack_state \<Rightarrow> ack_state option" where
  "ack_visit w num v sub s =
     (if num = 1 \<and> sub = None then Some (s\<lparr>as_ack := (as_ack s)\<lparr>Cid := v\<rparr>, hasCid := True\<rparr>)
      else if num = 1 \<and> sub \<noteq> None then
        (case ParseUint (opt_str sub) of
           (n, None) \<Rightarrow> Some (s\<lparr>as_ack := (as_ack s)\<lparr>Cid := n\<rparr>, hasCid := True\<rparr>)
         | (n, Some e) \<Rightarrow> Some s)
      else if num = envChannelMessageAck \<and> sub \<noteq> None then
        (case walkVarints w (the sub) ack_inner (as_ack s) of
           None \<Rightarrow> None
         | Some a \<Rightarrow> Some (s\<lparr>as_ack := a, hasReply := True\<rparr>))
      else if num = envError \<and> sub \<noteq> None then
        Some (s\<lparr>as_ack := (as_ack s)\<lparr>Err := True\<rparr>, hasReply := True\<rparr>)
      else Some s)"

definition DecodeAck :: "wire_lib \<Rightarrow> bytes \<Rightarrow> (Ack \<times> bool) option" where
  "DecodeAck w frame =
     map_option (\<lambda>s. (as_ack s, hasCid s \<and> hasReply s))
       (walkVarints w frame (ack_visit w) \<lparr>as_ack = Ack0, hasCid = False, hasReply = False\<rparr>)"

definition WithCid :: "wire_lib \<Rightarrow> u64 \<Rightarrow> bytes \<Rightarrow> bytes" where
  "WithCid w cid env = appendVarintField w [] 1 cid @ env"

definition BuildUpdateEnvelope ::
    "wire_lib \<Rightarrow> string \<Rightarrow> string \<Rightarrow> string \<Rightarrow> i32 \<Rightarrow> bool \<Rightarrow> string \<Rightarrow> bytes option" where
  "BuildUpdateEnvelope w channelID clanID messageID mode isPublic text =
     (case BuildContent text of None \<Rightarrow> None
      | Some blob \<Rightarrow> Some
          (let msg = appendVarintField w [] 1 (id_of clanID);
               msg = appendVarintField w msg 2 (id_of channelID);
               msg = appendVarintField w msg 3 (id_of messageID);
               msg = appendStringField w msg 4 blob;
               msg = appendVarintField w msg 7 (u64_of_i32 mode);
               msg = (if isPublic then appendVarintField w msg 8 1 else msg);
               msg = appendVarintField w msg 9 1
           in appendMessageField w [] envChannelMessageUpdate msg))"

end
