(* ===== verification/Rest.thy ===== *)
theory Rest
  imports Decode Go_Utf8
begin

text \<open>
  \<open>lib/rest\<close>: the REST client.  The network is the record \<open>net\<close>: whether a URL can be made
  into a request, what the HTTP client answers to a request, what the generated client
  \<open>mezonapi\<close> answers to a list call, and how \<open>json.Unmarshal\<close> fills the session struct.
  Responses are walked with protowire; the loops that report an error carry it in their state.
\<close>

section \<open>Requests and answers\<close>

record http_request =
  rq_method :: string
  rq_url :: string
  rq_body :: bytes
  rq_headers :: "(string \<times> string) list"

record http_response =
  StatusCode :: int
  Body :: bytes

record session_json =
  sj_Token :: string
  sj_RefreshToken :: string
  sj_RefreshTokenC :: string
  sj_UserID :: string
  sj_UserIDC :: string
  sj_APIURL :: string
  sj_WSURL :: string

record ApiChannelMessage =
  api_ChannelId :: string
  api_ClanId :: string
  api_MessageId :: string
  api_SenderId :: string
  api_Content :: string
  api_Mentions :: string
  api_Attachments :: string
  api_References :: string
  api_Username :: string
  api_DisplayName :: string
  api_ClanNick :: string
  api_ChannelLabel :: string
  api_Mode :: i32
  api_IsPublic :: bool

record list_opts =
  lo_Direction :: i32
  lo_ClanId :: "string option"
  lo_MessageId :: "string option"
  lo_Limit :: "i32 option"

record list_result =
  lr_Messages :: "ApiChannelMessage list"
  lr_LastSeen :: "string option"

datatype rest_err =
    ErrRequest
  | ErrTransport
  | HTTPError int string
  | ErrStatus int string
  | ErrBadResponse
  | ErrNoToken
  | ErrTag
  | ErrBytesField nat
  | ErrVarintField nat
  | ErrField nat
  | ErrMessageBytes
  | ErrBadClan string
  | ErrList

record net =
  url_ok :: "string \<Rightarrow> bool"
  http_Do :: "http_request \<Rightarrow> http_response option"
  api_List :: "string option \<Rightarrow> string \<Rightarrow> list_opts \<Rightarrow> list_result option"
  Unmarshal_session :: "bytes \<Rightarrow> session_json option"

record Session =
  ses_Token :: string
  ses_RefreshToken :: string
  ses_UserID :: string
  ses_APIURL :: string
  ses_WSURL :: string

record Client =
  basePath :: string

text \<open>\<open>New\<close>: the default base path is the generated configuration's.\<close>

definition New_Client :: "string \<Rightarrow> string \<Rightarrow> Client" where
  "New_Client dflt base = \<lparr>basePath = TrimRight (if base \<noteq> '''' then base else dflt) {CHR ''/''}\<rparr>"

text \<open>\<open>base64.StdEncoding\<close>\<close>

definition b64_char :: "nat \<Rightarrow> char" where
  "b64_char n = char_of (if n < 26 then 65 + n else if n < 52 then 71 + n
     else if n < 62 then n - 4 else if n = 62 then 43 else 47)"

fun base64 :: "bytes \<Rightarrow> string" where
  "base64 [] = ''''"
| "base64 [a] = [b64_char (unat a div 4), b64_char (unat a mod 4 * 16), CHR ''='', CHR ''='']"
| "base64 [a, b] = [b64_char (unat a div 4), b64_char (unat a mod 4 * 16 + unat b div 16),
     b64_char (unat b mod 16 * 4), CHR ''='']"
| "base64 (a # b # c # r) = [b64_char (unat a div 4), b64_char (unat a mod 4 * 16 + unat b div 16),
     b64_char (unat b mod 16 * 4 + unat c div 64), b64_char (unat c mod 64)] @ base64 r"

definition auth_body :: "string \<Rightarrow> string \<Rightarrow> bytes" where
  "auth_body appID apiKey = str_bytes (json_object [(''account'',
     json_object [(''appid'', json_string appID), (''token'', json_string apiKey)])])"

definition auth_request :: "Client \<Rightarrow> string \<Rightarrow> string \<Rightarrow> http_request" where
  "auth_request c appID apiKey = \<lparr>rq_method = ''POST'',
     rq_url = basePath c @ ''/v2/apps/authenticate/token'', rq_body = auth_body appID apiKey,
     rq_headers = [(''Content-Type'', ''application/json''),
       (''Authorization'', ''Basic '' @ base64 (str_bytes (appID @ '':'' @ apiKey)))]\<rparr>"

definition Authenticate :: "net \<Rightarrow> Client \<Rightarrow> string \<Rightarrow> string \<Rightarrow> rest_err + Session" where
  "Authenticate net c appID apiKey =
     (let req = auth_request c appID apiKey in
      if \<not> url_ok net (rq_url req) then Inl ErrRequest
      else (case http_Do net req of
          None \<Rightarrow> Inl ErrTransport
        | Some res \<Rightarrow>
            (let payload = take (2 ^ 20) (Body res) in
             if StatusCode res \<noteq> 200 then Inl (ErrStatus (StatusCode res) (bytes_str payload))
             else (case Unmarshal_session net payload of
                 None \<Rightarrow> Inl ErrBadResponse
               | Some sess \<Rightarrow>
                   if sj_Token sess = '''' then Inl ErrNoToken
                   else Inr \<lparr>ses_Token = sj_Token sess,
                     ses_RefreshToken = (if sj_RefreshToken sess = '''' then sj_RefreshTokenC sess else sj_RefreshToken sess),
                     ses_UserID = (if sj_UserID sess = '''' then sj_UserIDC sess else sj_UserID sess),
                     ses_APIURL = sj_APIURL sess, ses_WSURL = sj_WSURL sess\<rparr>))))"

section \<open>Listing messages\<close>

text \<open>\<open>authCtx\<close>: an empty token leaves the context, and so the request, without one.\<close>

definition authCtx :: "string \<Rightarrow> string option" where
  "authCtx token = (if token = '''' then None else Some token)"

definition fromAPI :: "ApiChannelMessage \<Rightarrow> Message" where
  "fromAPI m = Message0\<lparr>ChannelID := api_ChannelId m, ClanID := api_ClanId m, MessageID := api_MessageId m,
     SenderID := api_SenderId m, Content := api_Content m, Mentions := api_Mentions m,
     Attachments := api_Attachments m, References := api_References m, Username := api_Username m,
     DisplayName := api_DisplayName m, ClanNick := api_ClanNick m, ChannelLabel := api_ChannelLabel m,
     Mode := api_Mode m, IsPublic := api_IsPublic m\<rparr>"

definition list_options :: "string \<Rightarrow> string \<Rightarrow> i32 \<Rightarrow> list_opts" where
  "list_options clanID cursor limit = \<lparr>lo_Direction = 1,
     lo_ClanId = (if clanID \<noteq> '''' then Some clanID else None),
     lo_MessageId = (if cursor \<noteq> '''' then Some cursor else None),
     lo_Limit = (if 0 < sint limit then Some limit else None)\<rparr>"

definition ListSince :: "net \<Rightarrow> string \<Rightarrow> string \<Rightarrow> string \<Rightarrow> string \<Rightarrow> i32 \<Rightarrow>
    Message list \<times> string \<times> rest_err option" where
  "ListSince net token channelID clanID cursor limit =
     (case api_List net (authCtx token) channelID (list_options clanID cursor limit) of
        None \<Rightarrow> ([], cursor, Some ErrList)
      | Some res \<Rightarrow>
          (map fromAPI (lr_Messages res),
           (case lr_LastSeen res of
              Some i \<Rightarrow> if i \<noteq> '''' then i
                else if lr_Messages res \<noteq> [] then api_MessageId (last (lr_Messages res)) else cursor
            | None \<Rightarrow> if lr_Messages res \<noteq> [] then api_MessageId (last (lr_Messages res)) else cursor),
           None))"

section \<open>Walking responses\<close>

definition walk_body :: "wire_lib \<Rightarrow> (nat \<Rightarrow> u64 \<Rightarrow> bytes option \<Rightarrow> 's \<Rightarrow> 's option) \<Rightarrow>
    nat \<Rightarrow> nat \<Rightarrow> bytes \<Rightarrow> 's \<Rightarrow> 's verdict" where
  "walk_body w fn num ty b s =
     (if ty = VarintType then
        (case ConsumeVarint w b of
           Inl _ \<Rightarrow> Stop s
         | Inr (v, n) \<Rightarrow> (case fn num v None s of None \<Rightarrow> Hang | Some s' \<Rightarrow> Next n s'))
      else if ty = BytesType then
        (case ConsumeBytes w b of
           Inl _ \<Rightarrow> Stop s
         | Inr (v, n) \<Rightarrow> (case fn num 0 (Some v) s of None \<Rightarrow> Hang | Some s' \<Rightarrow> Next n s'))
      else (case ConsumeFieldValue w num ty b of Inl _ \<Rightarrow> Stop s | Inr n \<Rightarrow> Next n s))"

definition walk :: "wire_lib \<Rightarrow> bytes \<Rightarrow> (nat \<Rightarrow> u64 \<Rightarrow> bytes option \<Rightarrow> 's \<Rightarrow> 's option) \<Rightarrow> 's \<Rightarrow> 's option" where
  "walk w b fn s = wire_loop w (\<lambda>_ s. s) (walk_body w fn) b s"

definition eachRepeated_body :: "wire_lib \<Rightarrow> (bytes \<Rightarrow> 's \<Rightarrow> 's option) \<Rightarrow>
    nat \<Rightarrow> nat \<Rightarrow> bytes \<Rightarrow> 's \<times> rest_err option \<Rightarrow> ('s \<times> rest_err option) verdict" where
  "eachRepeated_body w fn num ty b s =
     (if num = 1 \<and> ty = BytesType then
        (case ConsumeBytes w b of
           Inl _ \<Rightarrow> Stop (fst s, Some ErrMessageBytes)
         | Inr (msg, n) \<Rightarrow> (case fn msg (fst s) of None \<Rightarrow> Hang | Some s' \<Rightarrow> Next n (s', None)))
      else (case ConsumeFieldValue w num ty b of
           Inl _ \<Rightarrow> Stop (fst s, Some (ErrField num))
         | Inr n \<Rightarrow> Next n s))"

definition eachRepeated :: "wire_lib \<Rightarrow> bytes \<Rightarrow> (bytes \<Rightarrow> 's \<Rightarrow> 's option) \<Rightarrow> 's \<Rightarrow> ('s \<times> rest_err option) option" where
  "eachRepeated w b fn s =
     wire_loop w (\<lambda>_ s. (fst s, Some ErrTag)) (eachRepeated_body w fn) b (s, None)"

text \<open>\<open>walkFields\<close> shows the type of a field; \<open>visit num typ v u\<close>.\<close>

definition walkFields_body :: "wire_lib \<Rightarrow> (nat \<Rightarrow> nat \<Rightarrow> bytes option \<Rightarrow> u64 \<Rightarrow> 's \<Rightarrow> 's option) \<Rightarrow>
    nat \<Rightarrow> nat \<Rightarrow> bytes \<Rightarrow> 's \<times> rest_err option \<Rightarrow> ('s \<times> rest_err option) verdict" where
  "walkFields_body w visit num ty b s =
     (if ty = BytesType then
        (case ConsumeBytes w b of
           Inl _ \<Rightarrow> Stop (fst s, Some (ErrBytesField num))
         | Inr (v, n) \<Rightarrow> (case visit num ty (Some v) 0 (fst s) of None \<Rightarrow> Hang | Some s' \<Rightarrow> Next n (s', None)))
      else if ty = VarintType then
        (case ConsumeVarint w b of
           Inl _ \<Rightarrow> Stop (fst s, Some (ErrVarintField num))
         | Inr (u, n) \<Rightarrow> (case visit num ty None u (fst s) of None \<Rightarrow> Hang | Some s' \<Rightarrow> Next n (s', None)))
      else (case ConsumeFieldValue w num ty b of
           Inl _ \<Rightarrow> Stop (fst s, Some (ErrField num))
         | Inr n \<Rightarrow> Next n s))"

definition walkFields :: "wire_lib \<Rightarrow> bytes \<Rightarrow> (nat \<Rightarrow> nat \<Rightarrow> bytes option \<Rightarrow> u64 \<Rightarrow> 's \<Rightarrow> 's option) \<Rightarrow>
    's \<Rightarrow> ('s \<times> rest_err option) option" where
  "walkFields w b visit s =
     wire_loop w (\<lambda>_ s. (fst s, Some ErrTag)) (walkFields_body w visit) b (s, None)"

section \<open>The account\<close>

record Account =
  ac_UserID :: string
  ac_Username :: string
  ac_DisplayName :: string

definition Account0 :: Account where
  "Account0 = \<lparr>ac_UserID = '''', ac_Username = '''', ac_DisplayName = ''''\<rparr>"

definition user_visit :: "nat \<Rightarrow> nat \<Rightarrow> bytes option \<Rightarrow> u64 \<Rightarrow> Account \<Rightarrow> Account option" where
  "user_visit num ty v u acc = Some
     (if num = 1 \<and> ty = VarintType then acc\<lparr>ac_UserID := FormatUint u\<rparr>
      else if num = 2 \<and> ty = BytesType then acc\<lparr>ac_Username := opt_str v\<rparr>
      else if num = 3 \<and> ty = BytesType then acc\<lparr>ac_DisplayName := opt_str v\<rparr>
      else acc)"

definition account_visit :: "wire_lib \<Rightarrow> nat \<Rightarrow> nat \<Rightarrow> bytes option \<Rightarrow> u64 \<Rightarrow> Account \<Rightarrow> Account option" where
  "account_visit w num ty v u acc =
     (if num \<noteq> 1 \<or> ty \<noteq> BytesType then Some acc
      else map_option fst (walkFields w (case v of None \<Rightarrow> [] | Some b \<Rightarrow> b) user_visit acc))"

definition accountFromWire :: "wire_lib \<Rightarrow> bytes \<Rightarrow> (rest_err + Account) option" where
  "accountFromWire w b = map_option (\<lambda>(acc, err). case err of None \<Rightarrow> Inr acc | Some e \<Rightarrow> Inl e)
     (walkFields w b (account_visit w) Account0)"

definition rpc_base :: "Client \<Rightarrow> string \<Rightarrow> string" where
  "rpc_base c baseURL = (let base = TrimRight baseURL {CHR ''/''} in if base = '''' then basePath c else base)"

definition rpc_request :: "Client \<Rightarrow> string \<Rightarrow> string \<Rightarrow> string \<Rightarrow> bytes \<Rightarrow> http_request" where
  "rpc_request c baseURL sessionToken method body = \<lparr>rq_method = ''POST'',
     rq_url = rpc_base c baseURL @ ''/mezon.api.Mezon/'' @ method, rq_body = body,
     rq_headers = [(''Content-Type'', ''application/proto''), (''Accept'', ''application/proto''),
       (''Authorization'', ''Bearer '' @ sessionToken)]\<rparr>"

definition GetAccount :: "net \<Rightarrow> wire_lib \<Rightarrow> Client \<Rightarrow> string \<Rightarrow> string \<Rightarrow> (rest_err + Account) option" where
  "GetAccount net w c baseURL sessionToken =
     (let req = rpc_request c baseURL sessionToken ''GetAccount'' [] in
      if \<not> url_ok net (rq_url req) then Some (Inl ErrRequest)
      else (case http_Do net req of
          None \<Rightarrow> Some (Inl ErrTransport)
        | Some res \<Rightarrow>
            (let payload = take (2 ^ 20) (Body res) in
             if StatusCode res \<noteq> 200 then Some (Inl (ErrStatus (StatusCode res) (bytes_str payload)))
             else accountFromWire w payload)))"

section \<open>Clans and channels\<close>

record Clan =
  clan_ID :: string
  clan_Name :: string

record Channel =
  chan_ID :: string
  chan_Label :: string

abbreviation channelTypeText :: u64 where "channelTypeText \<equiv> 1"

definition rpc :: "net \<Rightarrow> Client \<Rightarrow> string \<Rightarrow> string \<Rightarrow> string \<Rightarrow> bytes \<Rightarrow> rest_err + bytes" where
  "rpc net c baseURL sessionToken method body =
     (let req = rpc_request c baseURL sessionToken method body in
      if \<not> url_ok net (rq_url req) then Inl ErrRequest
      else (case http_Do net req of
          None \<Rightarrow> Inl ErrTransport
        | Some res \<Rightarrow>
            (let payload = take (4 * 2 ^ 20) (Body res) in
             if StatusCode res \<noteq> 200 then Inl (HTTPError (StatusCode res) (bytes_str payload))
             else Inr payload)))"

definition clan_visit :: "nat \<Rightarrow> u64 \<Rightarrow> bytes option \<Rightarrow> Clan \<Rightarrow> Clan option" where
  "clan_visit num v b cl = Some
     (if num = 2 then cl\<lparr>clan_Name := opt_str b\<rparr>
      else if num = 5 then cl\<lparr>clan_ID := FormatUint v\<rparr> else cl)"

definition add_clan :: "wire_lib \<Rightarrow> bytes \<Rightarrow> Clan list \<Rightarrow> Clan list option" where
  "add_clan w desc clans =
     (case walk w desc clan_visit \<lparr>clan_ID = '''', clan_Name = ''''\<rparr> of
        None \<Rightarrow> None
      | Some cl \<Rightarrow> Some (if clan_ID cl \<noteq> '''' \<and> clan_ID cl \<noteq> ''0'' then clans @ [cl] else clans))"

definition ListClans :: "net \<Rightarrow> wire_lib \<Rightarrow> Client \<Rightarrow> string \<Rightarrow> string \<Rightarrow> (rest_err + Clan list) option" where
  "ListClans net w c baseURL sessionToken =
     (case rpc net c baseURL sessionToken ''ListClanDescs'' [] of
        Inl e \<Rightarrow> Some (Inl e)
      | Inr payload \<Rightarrow>
          map_option (\<lambda>(clans, err). case err of None \<Rightarrow> Inr clans | Some e \<Rightarrow> Inl e)
            (eachRepeated w payload (add_clan w) []))"

definition ListClanIDs :: "net \<Rightarrow> wire_lib \<Rightarrow> Client \<Rightarrow> string \<Rightarrow> string \<Rightarrow> (rest_err + string list) option" where
  "ListClanIDs net w c baseURL sessionToken =
     map_option (map_sum id (map clan_ID)) (ListClans net w c baseURL sessionToken)"

definition channel_visit :: "nat \<Rightarrow> u64 \<Rightarrow> bytes option \<Rightarrow> Channel \<times> u64 \<Rightarrow> (Channel \<times> u64) option" where
  "channel_visit num v b s = (case s of (ch, typ) \<Rightarrow> Some
     (if num = 3 then (ch\<lparr>chan_ID := FormatUint v\<rparr>, typ)
      else if num = 6 then (ch, v)
      else if num = 8 then (ch\<lparr>chan_Label := opt_str b\<rparr>, typ) else (ch, typ)))"

definition add_channel :: "wire_lib \<Rightarrow> bytes \<Rightarrow> Channel list \<Rightarrow> Channel list option" where
  "add_channel w desc chans =
     (case walk w desc channel_visit (\<lparr>chan_ID = '''', chan_Label = ''''\<rparr>, channelTypeText) of
        None \<Rightarrow> None
      | Some (ch, typ) \<Rightarrow> Some (if chan_ID ch \<noteq> '''' \<and> chan_ID ch \<noteq> ''0'' \<and> typ = channelTypeText
          then chans @ [ch] else chans))"

definition ListChannels :: "net \<Rightarrow> wire_lib \<Rightarrow> Client \<Rightarrow> string \<Rightarrow> string \<Rightarrow> string \<Rightarrow> (rest_err + Channel list) option" where
  "ListChannels net w c baseURL sessionToken clanID =
     (case ParseUint clanID of
        (_, Some _) \<Rightarrow> Some (Inl (ErrBadClan clanID))
      | (cid, None) \<Rightarrow>
          (let req = AppendVarint w (AppendTag w [] 4 VarintType) cid;
               req = AppendVarint w (AppendTag w req 5 VarintType) channelTypeText in
           (case rpc net c baseURL sessionToken ''ListChannelDescs'' req of
              Inl e \<Rightarrow> Some (Inl e)
            | Inr payload \<Rightarrow>
                map_option (\<lambda>(chans, err). case err of None \<Rightarrow> Inr chans | Some e \<Rightarrow> Inl e)
                  (eachRepeated w payload (add_channel w) []))))"

end
