(* ===== verification/Decode_Correct.thy ===== *)
theory Decode_Correct
  imports Decode
begin

text \<open>
  What the decoders compute, stated on the list of wire fields a frame encodes: for each
  field number the last occurrence wins, whatever the order, and every other field is
  skipped.  The facts are proved once in the locale \<open>wire\<close>, from the laws of protowire.
\<close>

section \<open>Fields by number\<close>

definition bytes_at :: "nat \<Rightarrow> wire_field list \<Rightarrow> bytes list" where
  "bytes_at n fs = concat (map (\<lambda>f. case f of FBytes m b \<Rightarrow> if m = n then [b] else [] | _ \<Rightarrow> []) fs)"

definition varints_at :: "nat \<Rightarrow> wire_field list \<Rightarrow> u64 list" where
  "varints_at n fs = concat (map (\<lambda>f. case f of FVarint m v \<Rightarrow> if m = n then [v] else [] | _ \<Rightarrow> []) fs)"

text \<open>What \<open>walkVarints\<close> shows of a field: a number (0 for bytes) and a string (empty for varints).\<close>

definition nums_at :: "nat \<Rightarrow> wire_field list \<Rightarrow> u64 list" where
  "nums_at n fs = concat (map (\<lambda>f. case f of
       FVarint m v \<Rightarrow> if m = n then [v] else [] | FBytes m b \<Rightarrow> if m = n then [0] else [] | _ \<Rightarrow> []) fs)"

definition strs_at :: "nat \<Rightarrow> wire_field list \<Rightarrow> string list" where
  "strs_at n fs = concat (map (\<lambda>f. case f of
       FVarint m v \<Rightarrow> if m = n then [''''] else [] | FBytes m b \<Rightarrow> if m = n then [bytes_str b] else [] | _ \<Rightarrow> []) fs)"

definition last_or :: "'a \<Rightarrow> 'a list \<Rightarrow> 'a" where
  "last_or d xs = (if xs = [] then d else last xs)"

lemma last_or_simps [simp]: "last_or d [] = d" "last_or d (xs @ [x]) = x" "last_or d [x] = x"
  by (simp_all add: last_or_def)

lemmas at_defs = bytes_at_def varints_at_def nums_at_def strs_at_def

lemma at_append [simp]:
  "bytes_at n (fs @ gs) = bytes_at n fs @ bytes_at n gs"
  "varints_at n (fs @ gs) = varints_at n fs @ varints_at n gs"
  "nums_at n (fs @ gs) = nums_at n fs @ nums_at n gs"
  "strs_at n (fs @ gs) = strs_at n fs @ strs_at n gs"
  by (simp_all add: at_defs)

lemma at_Nil [simp]: "bytes_at n [] = []" "varints_at n [] = []" "nums_at n [] = []" "strs_at n [] = []"
  by (simp_all add: at_defs)

lemma at_Cons:
  "bytes_at n (f # fs) = bytes_at n [f] @ bytes_at n fs"
  "varints_at n (f # fs) = varints_at n [f] @ varints_at n fs"
  "nums_at n (f # fs) = nums_at n [f] @ nums_at n fs"
  "strs_at n (f # fs) = strs_at n [f] @ strs_at n fs"
  by (simp_all add: at_defs)

lemma at_single [simp]:
  "bytes_at n [FBytes m b] = (if m = n then [b] else [])"
  "bytes_at n [FVarint m v] = []" "bytes_at n [FFixed64 m b] = []" "bytes_at n [FFixed32 m b] = []"
  "varints_at n [FVarint m v] = (if m = n then [v] else [])"
  "varints_at n [FBytes m b] = []" "varints_at n [FFixed64 m b] = []" "varints_at n [FFixed32 m b] = []"
  "nums_at n [FVarint m v] = (if m = n then [v] else [])"
  "nums_at n [FBytes m b] = (if m = n then [0] else [])"
  "nums_at n [FFixed64 m b] = []" "nums_at n [FFixed32 m b] = []"
  "strs_at n [FVarint m v] = (if m = n then [''''] else [])"
  "strs_at n [FBytes m b] = (if m = n then [bytes_str b] else [])"
  "strs_at n [FFixed64 m b] = []" "strs_at n [FFixed32 m b] = []"
  by (simp_all add: at_defs)

lemma at_vfield [simp]:
  "bytes_at n (vfield m v) = []"
  "varints_at n (vfield m v) = (if m = n \<and> v \<noteq> 0 then [v] else [])"
  "nums_at n (vfield m v) = (if m = n \<and> v \<noteq> 0 then [v] else [])"
  "strs_at n (vfield m v) = (if m = n \<and> v \<noteq> 0 then [''''] else [])"
  by (simp_all add: vfield_def)

lemma at_sfield [simp]:
  "bytes_at n (sfield m s) = (if m = n \<and> s \<noteq> '''' then [str_bytes s] else [])"
  "varints_at n (sfield m s) = []"
  "nums_at n (sfield m s) = (if m = n \<and> s \<noteq> '''' then [0] else [])"
  "strs_at n (sfield m s) = (if m = n \<and> s \<noteq> '''' then [s] else [])"
  by (simp_all add: sfield_def)

lemma at_bfield [simp]:
  "bytes_at n (bfield m p) = []"
  "varints_at n (bfield m p) = (if m = n \<and> p then [1] else [])"
  "nums_at n (bfield m p) = (if m = n \<and> p then [1] else [])"
  "strs_at n (bfield m p) = (if m = n \<and> p then [''''] else [])"
  by (simp_all add: bfield_def)

lemma bytes_at_mem: "b \<in> set (bytes_at n fs) \<Longrightarrow> FBytes n b \<in> set fs"
  by (auto simp: bytes_at_def split: wire_field.splits if_splits)

section \<open>The walkers on encoded fields\<close>

definition total_visit :: "(nat \<Rightarrow> u64 \<Rightarrow> bytes option \<Rightarrow> 's \<Rightarrow> 's option) \<Rightarrow> bool" where
  "total_visit visit \<longleftrightarrow> (\<forall>num v sv s. visit num v sv s \<noteq> None)"

definition visit_field :: "(nat \<Rightarrow> u64 \<Rightarrow> bytes option \<Rightarrow> 's \<Rightarrow> 's option) \<Rightarrow> 's \<Rightarrow> wire_field \<Rightarrow> 's" where
  "visit_field visit s f = (case f of
       FVarint n v \<Rightarrow> the (visit n v None s)
     | FBytes n b \<Rightarrow> the (visit n 0 (Some b) s)
     | _ \<Rightarrow> s)"

lemma total_visitD: "total_visit visit \<Longrightarrow> \<exists>s'. visit num v sv s = Some s'"
  by (auto simp: total_visit_def)

lemma total_visits: "total_visit mention_visit" "total_visit attachment_visit" "total_visit ref_visit"
    "total_visit ack_inner"
  by (auto simp: total_visit_def mention_visit_def attachment_visit_def ref_visit_def ack_inner_def)

text \<open>The three items, read off their fields.\<close>

definition spec_mention :: "wire_field list \<Rightarrow> json_mention" where
  "spec_mention fs = \<lparr>jm_UserID = last_or '''' (map FormatUint (nums_at 2 fs)),
     jm_S = last_or 0 (map i32_of_u64 (nums_at 7 fs)), jm_E = last_or 0 (map i32_of_u64 (nums_at 8 fs))\<rparr>"

definition spec_attachment :: "wire_field list \<Rightarrow> json_attachment" where
  "spec_attachment fs = \<lparr>ja_Filename = last_or '''' (strs_at 1 fs), ja_URL = last_or '''' (strs_at 3 fs),
     ja_Filetype = last_or '''' (strs_at 4 fs), ja_Size = last_or 0 (map i32_of_u64 (nums_at 2 fs))\<rparr>"

definition spec_ref :: "wire_field list \<Rightarrow> json_ref" where
  "spec_ref fs = \<lparr>jr_MessageID = last_or '''' (map FormatUint (nums_at 1 fs)),
     jr_SenderID = last_or '''' (map FormatUint (nums_at 6 fs)), jr_Content = last_or '''' (strs_at 3 fs)\<rparr>"

lemma fold_mention: "foldl (visit_field mention_visit) mention0 fs = spec_mention fs"
proof (induction fs rule: rev_induct)
  case (snoc f fs)
  then show ?case by (cases f) (auto simp: visit_field_def mention_visit_def spec_mention_def)
qed (simp add: mention0_def spec_mention_def)

lemma fold_attachment: "foldl (visit_field attachment_visit) attachment0 fs = spec_attachment fs"
proof (induction fs rule: rev_induct)
  case (snoc f fs)
  then show ?case by (cases f) (auto simp: visit_field_def attachment_visit_def spec_attachment_def opt_str_def)
qed (simp add: attachment0_def spec_attachment_def)

lemma fold_ref: "foldl (visit_field ref_visit) ref0 fs = spec_ref fs"
proof (induction fs rule: rev_induct)
  case (snoc f fs)
  then show ?case by (cases f) (auto simp: visit_field_def ref_visit_def spec_ref_def opt_str_def)
qed (simp add: ref0_def spec_ref_def)

context wire begin

lemma varints_body_field:
  assumes "field_ok f" "total_visit visit"
  shows "walkVarints_body w visit (fnum f) (ftyp f) (enc_value w f @ r) s =
     Next (length (enc_value w f)) (visit_field visit s f)"
proof (cases f)
  case (FVarint n v)
  obtain s' where "visit n v None s = Some s'" using total_visitD [OF assms(2)] by blast
  then show ?thesis using FVarint by (simp add: walkVarints_body_def consume_varint visit_field_def)
next
  case (FBytes n b)
  obtain s' where "visit n 0 (Some b) s = Some s'" using total_visitD [OF assms(2)] by blast
  then show ?thesis using FBytes assms(1) by (simp add: walkVarints_body_def consume_bytes visit_field_def)
next
  case (FFixed64 n b)
  then show ?thesis using value_field [OF assms(1), of "fnum f" r] by (simp add: walkVarints_body_def visit_field_def)
next
  case (FFixed32 n b)
  then show ?thesis using value_field [OF assms(1), of "fnum f" r] by (simp add: walkVarints_body_def visit_field_def)
qed

lemma walkVarints_app:
  assumes "\<forall>f \<in> set fs. field_ok f" "total_visit visit"
  shows "walkVarints w (enc_fields w fs @ r) visit s = walkVarints w r visit (foldl (visit_field visit) s fs)"
  unfolding walkVarints_def using assms
  by (subst wire_loop_fields [where upd = "\<lambda>f s. visit_field visit s f"]) (auto simp: varints_body_field)

lemma walkVarints_fields:
  assumes "\<forall>f \<in> set fs. field_ok f" "total_visit visit"
  shows "walkVarints w (enc_fields w fs) visit s = Some (foldl (visit_field visit) s fs)"
  using walkVarints_app [OF assms, of "[]"] by (simp add: walkVarints_def)

lemma walkVarints_total: "total_visit visit \<Longrightarrow> \<exists>s'. walkVarints w b visit s = Some s'"
  unfolding walkVarints_def
proof (rule wire_loop_returns)
  fix num ty b s n s'
  assume "walkVarints_body w visit num ty b s = Next n s'"
  then show "n \<le> length b"
    using varint_bounds bytes_bounds value_bounds
    by (auto simp: walkVarints_body_def split: if_splits sum.splits option.splits prod.splits)
next
  fix num ty b s
  assume t: "total_visit visit"
  then have v: "(visit i a c d = None) = False" for i a c d by (auto simp: total_visit_def)
  show "walkVarints_body w visit num ty b s \<noteq> Hang"
    by (simp add: v walkVarints_body_def split: sum.splits option.splits prod.splits)
qed

lemma walkWire_body_field:
  assumes "field_ok f" "\<And>b s. visit b s \<noteq> None"
  shows "walkWire_body w want visit (fnum f) (ftyp f) (enc_value w f @ r) s =
     Next (length (enc_value w f)) (foldl (\<lambda>s b. the (visit b s)) s (bytes_at want [f]))"
proof (cases "fnum f = want \<and> ftyp f = BytesType")
  case True
  then obtain b where f: "f = FBytes want b" by (cases f) auto
  obtain s' where "visit b s = Some s'" using assms(2) by blast
  then show ?thesis using f assms(1) by (simp add: walkWire_body_def consume_bytes)
next
  case False
  then have "bytes_at want [f] = []" by (cases f) auto
  then show ?thesis using False value_field [OF assms(1), of "fnum f" r] by (auto simp: walkWire_body_def)
qed

lemma walkWire_fields:
  assumes "\<forall>f \<in> set fs. field_ok f" "\<And>b s. visit b s \<noteq> None"
  shows "walkWire w (enc_fields w fs) want visit s = Some (foldl (\<lambda>s b. the (visit b s)) s (bytes_at want fs))"
proof -
  have "walkWire w (enc_fields w fs @ []) want visit s =
      walkWire w [] want visit (foldl (\<lambda>s f. foldl (\<lambda>s b. the (visit b s)) s (bytes_at want [f])) s fs)"
    unfolding walkWire_def using assms
    by (subst wire_loop_fields [where upd = "\<lambda>f s. foldl (\<lambda>s b. the (visit b s)) s (bytes_at want [f])"])
      (auto simp: walkWire_body_field)
  moreover have "foldl (\<lambda>s f. foldl (\<lambda>s b. the (visit b s)) s (bytes_at want [f])) s fs =
      foldl (\<lambda>s b. the (visit b s)) s (bytes_at want fs)"
  proof (induction fs arbitrary: s)
    case (Cons f fs)
    have "bytes_at want (f # fs) = bytes_at want [f] @ bytes_at want fs" by (rule at_Cons)
    then show ?case using Cons by simp
  qed simp
  ultimately show ?thesis by (simp add: walkWire_def)
qed

lemma walkWire_total:
  assumes "\<And>b s. visit b s \<noteq> None"
  shows "\<exists>s'. walkWire w b want visit s = Some s'"
  unfolding walkWire_def
proof (rule wire_loop_returns)
  fix num ty b s n s'
  assume "walkWire_body w want visit num ty b s = Next n s'"
  then show "n \<le> length b"
    using bytes_bounds value_bounds
    by (auto simp: walkWire_body_def split: if_splits sum.splits option.splits prod.splits)
next
  fix num ty b s
  have v: "(visit i s = None) = False" for i s using assms by simp
  show "walkWire_body w want visit num ty b s \<noteq> Hang"
    by (simp add: v walkWire_body_def split: sum.splits option.splits prod.splits)
qed

end

section \<open>Messages\<close>

definition ids_at :: "nat \<Rightarrow> wire_field list \<Rightarrow> string" where
  "ids_at n fs = last_or '''' (map FormatUint (varints_at n fs))"

definition text_at :: "nat \<Rightarrow> wire_field list \<Rightarrow> string" where
  "text_at n fs = last_or '''' (map bytes_str (bytes_at n fs))"

definition spec_message :: "wire_lib \<Rightarrow> wire_field list \<Rightarrow> Message" where
  "spec_message w fs = \<lparr>ChannelID = ids_at 2 fs, ClanID = ids_at 1 fs, MessageID = ids_at 3 fs,
     SenderID = ids_at 5 fs, Content = text_at 8 fs,
     Mentions = last_or '''' (map (\<lambda>b. the (mentionsToJSON w b)) (bytes_at 16 fs)),
     Attachments = last_or '''' (map (\<lambda>b. the (attachmentsToJSON w b)) (bytes_at 17 fs)),
     References = last_or '''' (map (\<lambda>b. the (refsToJSON w b)) (bytes_at 18 fs)),
     Username = text_at 6 fs, Avatar = text_at 7 fs, DisplayName = text_at 12 fs,
     ClanNick = text_at 13 fs, ChannelLabel = text_at 9 fs,
     Mode = last_or 0 (map i32_of_u64 (varints_at 22 fs)),
     IsPublic = last_or False (map (\<lambda>v. v \<noteq> 0) (varints_at 24 fs))\<rparr>"

definition message_upd :: "wire_lib \<Rightarrow> wire_field \<Rightarrow> Message \<Rightarrow> Message" where
  "message_upd w f msg = (case f of
       FVarint n v \<Rightarrow> message_varint n v msg
     | FBytes n b \<Rightarrow> the (message_bytes w n (bytes_str b) msg)
     | _ \<Rightarrow> msg)"

context wire begin

lemma collect_items_fields:
  assumes "\<forall>f \<in> set fs. field_ok f" "bytes_at 1 fs = map (enc_fields w) items"
    and "\<forall>it \<in> set items. \<forall>f \<in> set it. field_ok f" "total_visit visit"
  shows "collect_items w zero visit (enc_fields w fs) = Some (map (foldl (visit_field visit) zero) items)"
proof -
  let ?v = "\<lambda>item out. (case walkVarints w item visit zero of None \<Rightarrow> None | Some m \<Rightarrow> Some (out @ [m]))"
  have "?v b s \<noteq> None" for b s using walkVarints_total [OF assms(4), of b zero] by auto
  then have "collect_items w zero visit (enc_fields w fs) =
      Some (foldl (\<lambda>s b. the (?v b s)) [] (map (enc_fields w) items))"
    unfolding collect_items_def using walkWire_fields [OF assms(1), of ?v] assms(2) by simp
  also have "foldl (\<lambda>s b. the (?v b s)) s (map (enc_fields w) items) =
      s @ map (foldl (visit_field visit) zero) items" for s
    using assms(3) by (induction items arbitrary: s) (simp_all add: walkVarints_fields assms(4))
  finally show ?thesis by simp
qed

lemma collect_items_total: "total_visit visit \<Longrightarrow> \<exists>out. collect_items w zero visit b = Some out"
  unfolding collect_items_def
proof (rule walkWire_total)
  fix b s
  assume t: "total_visit visit"
  show "(case walkVarints w b visit zero of None \<Rightarrow> None | Some m \<Rightarrow> Some (s @ [m])) \<noteq> None"
    using walkVarints_total [OF t, of b zero] by auto
qed

lemma json_total:
  "\<exists>j. mentionsToJSON w b = Some j" "\<exists>j. attachmentsToJSON w b = Some j" "\<exists>j. refsToJSON w b = Some j"
  using collect_items_total total_visits
  by (auto simp: mentionsToJSON_def attachmentsToJSON_def refsToJSON_def)

lemma message_bytes_total: "\<exists>m. message_bytes w num v msg = Some m"
  using json_total [of "str_bytes v"] by (auto simp: message_bytes_def)

lemma message_body_field:
  assumes "field_ok f"
  shows "message_body w (fnum f) (ftyp f) (enc_value w f @ r) s =
     Next (length (enc_value w f)) (message_upd w f (fst s), None)"
proof (cases f)
  case (FBytes n b)
  obtain m where "message_bytes w n (bytes_str b) (fst s) = Some m" using message_bytes_total by blast
  then show ?thesis
    using FBytes assms by (simp add: message_body_def consume_string consume_bytes message_upd_def)
next
  case (FFixed64 n b)
  then show ?thesis using value_field [OF assms, of "fnum f" r] by (simp add: message_body_def message_upd_def)
next
  case (FFixed32 n b)
  then show ?thesis using value_field [OF assms, of "fnum f" r] by (simp add: message_body_def message_upd_def)
qed (simp add: message_body_def consume_varint message_upd_def)

lemma fold_message: "foldl (\<lambda>m f. message_upd w f m) Message0 fs = spec_message w fs"
proof (induction fs rule: rev_induct)
  case (snoc f fs)
  show ?case
  proof (cases f)
    case (FVarint n v)
    then show ?thesis using snoc
      by (simp add: message_upd_def message_varint_def spec_message_def ids_at_def text_at_def)
  next
    case (FBytes n b)
    then show ?thesis using snoc json_total [of b]
      by (auto simp add: message_upd_def message_bytes_def spec_message_def ids_at_def text_at_def)
  qed (use snoc in \<open>simp_all add: message_upd_def spec_message_def ids_at_def text_at_def\<close>)
qed (simp add: Message0_def spec_message_def ids_at_def text_at_def)

lemma decodeFields_fields:
  assumes "\<forall>f \<in> set fs. field_ok f"
  shows "decodeChannelMessageFields w (enc_fields w fs) = Some (spec_message w fs, None)"
proof -
  have "decodeChannelMessageFields w (enc_fields w fs @ []) =
      Some (foldl (\<lambda>s f. (message_upd w f (fst s), None)) (Message0, None) fs)"
    unfolding decodeChannelMessageFields_def using assms
    by (subst wire_loop_fields [where upd = "\<lambda>f s. (message_upd w f (fst s), None)"])
      (auto simp: message_body_field)
  moreover have "foldl (\<lambda>s f. (message_upd w f (fst s), None :: wire_err option)) (m, None) fs =
      (foldl (\<lambda>m f. message_upd w f m) m fs, None)" for m
    by (induction fs arbitrary: m) simp_all
  ultimately show ?thesis by (simp add: fold_message)
qed

lemma decodeFields_total: "\<exists>r. decodeChannelMessageFields w b = Some r"
  unfolding decodeChannelMessageFields_def
proof (rule wire_loop_returns)
  fix num ty b s n s'
  assume "message_body w num ty b s = Next n s'"
  then show "n \<le> length b"
    using varint_bounds bytes_bounds value_bounds
    by (auto simp: message_body_def consume_string map_sum_def split: if_splits sum.splits option.splits prod.splits)
next
  fix num ty b s
  have v: "(message_bytes w i a m = None) = False" for i a m using message_bytes_total [of i a m] by auto
  show "message_body w num ty b s \<noteq> Hang"
    by (simp add: v message_body_def split: sum.splits option.splits prod.splits)
qed

text \<open>The frame: everything before the channel message is skipped, everything after it unread.\<close>

lemma frame_body_skip:
  assumes "field_ok f" "bytes_at 6 [f] = []"
  shows "frame_body w (fnum f) (ftyp f) (enc_value w f @ r) s = Next (length (enc_value w f)) s"
proof -
  have "\<not> (fnum f = 6 \<and> ftyp f = BytesType)" using assms(2) by (cases f) auto
  then show ?thesis using value_field [OF assms(1), of "fnum f" r] by (auto simp: frame_body_def)
qed

lemma bytes_at_nil_mem: "bytes_at n fs = [] \<Longrightarrow> f \<in> set fs \<Longrightarrow> bytes_at n [f] = []"
  by (induction fs) (auto simp: at_Cons(1) [of n _ "_ # _"] at_Cons(1) [of n _ fs] bytes_at_def)

lemma frame_skip:
  assumes "\<forall>f \<in> set pre. field_ok f" "bytes_at 6 pre = []"
  shows "DecodeChannelMessage w (enc_fields w pre @ r) = DecodeChannelMessage w r"
proof -
  have "foldl (\<lambda>s f. s) s pre = s" for s :: decode_result by (induction pre) simp_all
  then show ?thesis
    unfolding DecodeChannelMessage_def using assms
    by (subst wire_loop_fields [where upd = "\<lambda>f s. s"])
      (auto simp: frame_body_skip bytes_at_nil_mem)
qed

lemma DecodeChannelMessage_fields:
  assumes "\<forall>f \<in> set pre. field_ok f" "bytes_at 6 pre = []" "\<forall>f \<in> set fs. field_ok f"
    and "fits (enc_fields w fs)"
  shows "DecodeChannelMessage w (enc_fields w (pre @ [FBytes 6 (enc_fields w fs)]) @ rest) =
    Some (spec_message w fs, True, None)"
proof -
  have ok: "field_ok (FBytes 6 (enc_fields w fs))" using assms(4) by (simp add: valid_num_def)
  have "DecodeChannelMessage w (enc_field w (FBytes 6 (enc_fields w fs)) @ rest) =
      Some (spec_message w fs, True, None)"
    unfolding DecodeChannelMessage_def
    by (rule wire_loop_field_stop [OF ok])
      (simp add: frame_body_def consume_bytes assms(4) decodeFields_fields [OF assms(3)])
  then show ?thesis using frame_skip [OF assms(1,2)] by simp
qed

lemma DecodeChannelMessage_none:
  assumes "\<forall>f \<in> set fs. field_ok f" "bytes_at 6 fs = []"
  shows "DecodeChannelMessage w (enc_fields w fs) = Some (Message0, False, None)"
  using frame_skip [OF assms, of "[]"] by (simp add: DecodeChannelMessage_def)

lemma DecodeChannelMessage_total: "\<exists>r. DecodeChannelMessage w b = Some r"
  unfolding DecodeChannelMessage_def
proof (rule wire_loop_returns)
  fix num ty b s n s'
  assume "frame_body w num ty b s = Next n s'"
  then show "n \<le> length b"
    using value_bounds
    by (auto simp: frame_body_def split: if_splits sum.splits option.splits prod.splits)
next
  fix num ty b s
  have v: "(decodeChannelMessageFields w c = None) = False" for c using decodeFields_total [of c] by auto
  show "frame_body w num ty b s \<noteq> Hang"
    by (simp add: v frame_body_def split: sum.splits option.splits prod.splits)
qed

end

lemma DecodeChannelMessage_outcome:
  assumes "DecodeChannelMessage w b = Some (m, ok, err)"
  shows "(ok \<longrightarrow> err = None) \<and> (\<not> ok \<longrightarrow> m = Message0)"
proof -
  define P where "P = (\<lambda>(m, ok, err :: wire_err option). (ok \<longrightarrow> err = None) \<and> (\<not> ok \<longrightarrow> m = Message0))"
  have "P (m, ok, err)"
  proof (rule wire_loop_inv [where P = P, OF _ assms [unfolded DecodeChannelMessage_def]])
    show "P (Message0, False, None)" by (simp add: P_def)
    show "P (Message0, False, Some (ParseError e))" for e by (simp add: P_def)
    show "P s'" if "P s" "frame_body w num ty b s = Stop s'" for num ty b s s'
      using that by (auto simp: P_def frame_body_def split: if_splits sum.splits option.splits prod.splits)
    show "P s'" if "P s" "frame_body w num ty b s = Next n s'" for num ty b s n s'
      using that by (auto simp: P_def frame_body_def split: if_splits sum.splits option.splits prod.splits)
  qed
  then show ?thesis by (simp add: P_def)
qed

section \<open>Acknowledgements\<close>

definition cids_at :: "wire_field list \<Rightarrow> u64 list" where
  "cids_at fs = concat (map (\<lambda>f. case f of
       FVarint n v \<Rightarrow> if n = 1 then [v] else []
     | FBytes n b \<Rightarrow> if n = 1 then (case ParseUint (bytes_str b) of (v, None) \<Rightarrow> [v] | _ \<Rightarrow> []) else []
     | _ \<Rightarrow> []) fs)"

definition ack_ids :: "wire_field list \<Rightarrow> string list" where
  "ack_ids fs = concat (map (\<lambda>f. case f of
       FVarint n v \<Rightarrow> if n = 2 then [FormatUint v] else []
     | FBytes n b \<Rightarrow> if n = 2 then [bytes_str b] else []
     | _ \<Rightarrow> []) fs)"

lemma cids_append [simp]: "cids_at (fs @ gs) = cids_at fs @ cids_at gs"
  by (simp add: cids_at_def)

lemma ack_ids_append [simp]: "ack_ids (fs @ gs) = ack_ids fs @ ack_ids gs"
  by (simp add: ack_ids_def)

lemma cids_single [simp]:
  "cids_at []  = []" "cids_at [FVarint n v] = (if n = 1 then [v] else [])"
  "n \<noteq> 1 \<Longrightarrow> cids_at [FBytes n b] = []" "cids_at [FFixed64 n b] = []" "cids_at [FFixed32 n b] = []"
  by (simp_all add: cids_at_def)

lemma fold_ack_inner:
  "foldl (visit_field ack_inner) a fs = a\<lparr>ack_MessageID := last_or (ack_MessageID a) (ack_ids fs)\<rparr>"
proof (induction fs rule: rev_induct)
  case (snoc f fs)
  then show ?case by (cases f) (auto simp: visit_field_def ack_inner_def ack_ids_def last_or_def)
qed (simp add: ack_ids_def)

definition spec_ack :: "wire_field list \<Rightarrow> wire_field list list \<Rightarrow> Ack" where
  "spec_ack fs subs = \<lparr>Cid = last_or 0 (cids_at fs), ack_MessageID = last_or '''' (concat (map ack_ids subs)),
     Err = (bytes_at 12 fs \<noteq> [])\<rparr>"

lemma last_or_append: "last_or d (xs @ ys) = last_or (last_or d xs) ys"
  by (simp add: last_or_def)

context wire begin

lemma ack_visit_total: "total_visit (ack_visit w)"
proof -
  have v: "(walkVarints w b ack_inner a = None) = False" for b a
    using walkVarints_total [OF total_visits(4), of b a] by auto
  show ?thesis by (simp add: v total_visit_def ack_visit_def split: option.splits prod.splits)
qed

lemma fold_ack:
  assumes "bytes_at 7 fs = map (enc_fields w) subs" "\<forall>sub \<in> set subs. \<forall>f \<in> set sub. field_ok f"
  shows "foldl (visit_field (ack_visit w)) \<lparr>as_ack = Ack0, hasCid = False, hasReply = False\<rparr> fs =
    \<lparr>as_ack = spec_ack fs subs, hasCid = (cids_at fs \<noteq> []),
     hasReply = (bytes_at 7 fs \<noteq> [] \<or> bytes_at 12 fs \<noteq> [])\<rparr>"
  using assms
proof (induction fs arbitrary: subs rule: rev_induct)
  case Nil
  then show ?case by (simp add: spec_ack_def Ack0_def)
next
  case (snoc f fs)
  show ?case
  proof (cases f)
    case (FVarint n v)
    then show ?thesis using snoc by (simp add: visit_field_def ack_visit_def spec_ack_def)
  next
    case (FBytes n b)
    show ?thesis
    proof (cases "n = 7")
      case True
      then obtain subs' sub where s: "subs = subs' @ [sub]" "bytes_at 7 fs = map (enc_fields w) subs'" "b = enc_fields w sub"
        using snoc.prems(1) FBytes by (cases subs rule: rev_cases) auto
      then show ?thesis using snoc FBytes True
        by (simp add: visit_field_def ack_visit_def spec_ack_def walkVarints_fields total_visits fold_ack_inner last_or_append)
    next
      case False
      then have IH: "foldl (visit_field (ack_visit w)) \<lparr>as_ack = Ack0, hasCid = False, hasReply = False\<rparr> fs =
          \<lparr>as_ack = spec_ack fs subs, hasCid = (cids_at fs \<noteq> []),
           hasReply = (bytes_at 7 fs \<noteq> [] \<or> bytes_at 12 fs \<noteq> [])\<rparr>"
        using snoc FBytes by simp
      show ?thesis
        using False FBytes unfolding foldl_append IH
        by (auto simp: visit_field_def ack_visit_def spec_ack_def cids_at_def opt_str_def
            split: prod.splits option.splits)
    qed
  qed (use snoc in \<open>simp_all add: visit_field_def spec_ack_def\<close>)
qed

lemma DecodeAck_fields:
  assumes "\<forall>f \<in> set fs. field_ok f" "bytes_at 7 fs = map (enc_fields w) subs"
    and "\<forall>sub \<in> set subs. \<forall>f \<in> set sub. field_ok f"
  shows "DecodeAck w (enc_fields w fs) =
    Some (spec_ack fs subs, cids_at fs \<noteq> [] \<and> (bytes_at 7 fs \<noteq> [] \<or> bytes_at 12 fs \<noteq> []))"
  unfolding DecodeAck_def walkVarints_fields [OF assms(1) ack_visit_total] fold_ack [OF assms(2,3)] by simp

lemma DecodeAck_total: "\<exists>r. DecodeAck w b = Some r"
  using walkVarints_total [OF ack_visit_total] by (auto simp: DecodeAck_def)

lemma WithCid_fields: "WithCid w cid (enc_fields w fs) = enc_fields w (vfield 1 cid @ fs)"
  by (simp add: WithCid_def append_varint_field)

end

end
