(* ===== verification/Wire_Correct.thy ===== *)
theory Wire_Correct
  imports Decode_Correct
begin

text \<open>
  The properties of the wire layer (\<open>wire.go\<close>, \<open>decode.go\<close>, \<open>ack.go\<close>).  Each holds for every
  protowire that keeps the laws of \<open>wire\<close>; the witnesses use the real format, \<open>std_wire\<close>.
\<close>

section \<open>Shared facts\<close>

lemma i32_round_trip [simp]: "i32_of_u64 (u64_of_i32 x) = x"
  by (simp add: i32_of_u64_def u64_of_i32_def ucast_down_ucast_id is_down)

lemma u64_of_i32_zero [simp]: "u64_of_i32 x = 0 \<longleftrightarrow> x = 0"
  by (metis i32_round_trip i32_of_u64_def u64_of_i32_def unsigned_0)

lemma i32_of_u64_0 [simp]: "i32_of_u64 0 = 0"
  by (simp add: i32_of_u64_def)

text \<open>A generic reader: every field a walker shows, in order.\<close>

definition collect :: "nat \<Rightarrow> u64 \<Rightarrow> bytes option \<Rightarrow> (nat \<times> u64 \<times> bytes option) list \<Rightarrow>
    (nat \<times> u64 \<times> bytes option) list option" where
  "collect num v sv acc = Some (acc @ [(num, v, sv)])"

fun shown :: "wire_field \<Rightarrow> (nat \<times> u64 \<times> bytes option) list" where
  "shown (FVarint n v) = [(n, v, None)]"
| "shown (FBytes n b) = [(n, 0, Some b)]"
| "shown (FFixed64 n b) = []"
| "shown (FFixed32 n b) = []"

definition read_fields :: "wire_lib \<Rightarrow> bytes \<Rightarrow> (nat \<times> u64 \<times> bytes option) list option" where
  "read_fields w b = walkVarints w b collect []"

lemma total_collect: "total_visit collect"
  by (simp add: total_visit_def collect_def)

lemma fold_collect: "foldl (visit_field collect) acc fs = acc @ concat (map shown fs)"
proof (induction fs arbitrary: acc)
  case (Cons f fs)
  then show ?case by (cases f) (simp_all add: visit_field_def collect_def)
qed simp

context wire begin

lemma read_fields_enc:
  "\<forall>f \<in> set fs. field_ok f \<Longrightarrow> read_fields w (enc_fields w fs) = Some (concat (map shown fs))"
  by (simp add: read_fields_def walkVarints_fields total_collect fold_collect)

end

text \<open>Fields without fixed-width values, in a frame that fits, are all well-formed.\<close>

fun plain :: "wire_field \<Rightarrow> bool" where
  "plain (FVarint n v) = valid_num n"
| "plain (FBytes n b) = valid_num n"
| "plain _ = False"

lemma plain_parts [simp]:
  "list_all plain (vfield n v) = (v = 0 \<or> valid_num n)"
  "list_all plain (sfield n s) = (s = '''' \<or> valid_num n)"
  "list_all plain (bfield n p) = (p \<longrightarrow> valid_num n)"
  by (auto simp: vfield_def sfield_def bfield_def)

lemma plain_fields:
  "list_all plain (mention_fields m)" "list_all plain (ref_fields r)"
  "list_all plain (send_fields w ch cl mode pub content opts)"
  "list_all plain (typing_fields ch cl sender user name mode pub)"
  "list_all plain (reaction_fields cl ch msg eid e action mode pub)"
  "list_all plain (sticker_fields w ch cl mode pub short url)"
  by (simp_all add: mention_fields_def ref_fields_def send_fields_def typing_fields_def
      reaction_fields_def sticker_fields_def valid_num_def list.pred_map comp_def list.pred_True
      split: option.splits)

context wire begin

lemma plain_ok:
  assumes "list_all plain fs" "fits (enc_fields w fs)"
  shows "\<forall>f \<in> set fs. field_ok f"
proof
  fix f
  assume f: "f \<in> set fs"
  then have p: "plain f" "fits (enc_field w f)" using assms fits_fields by (auto simp: list_all_iff)
  then show "field_ok f" by (cases f) (auto dest: fits_field_inner)
qed

text \<open>A frame made of one message field.\<close>

lemma one_field_ok: "valid_num n \<Longrightarrow> fits (enc_fields w [FBytes n b]) \<Longrightarrow> \<forall>f \<in> set [FBytes n b]. field_ok f"
  by (rule plain_ok) simp_all

lemma one_field_inner: "fits (enc_fields w [FBytes n b]) \<Longrightarrow> fits b"
  using fits_field_inner by simp

lemma read_envelope:
  assumes "valid_num n" "list_all plain fs" "fits (enc_fields w [FBytes n (enc_fields w fs)])"
  shows "\<exists>msg. read_fields w (enc_fields w [FBytes n (enc_fields w fs)]) = Some [(n, 0, Some msg)] \<and>
    read_fields w msg = Some (concat (map shown fs))"
  using read_fields_enc [OF one_field_ok [OF assms(1,3)]]
    read_fields_enc [OF plain_ok [OF assms(2) one_field_inner [OF assms(3)]]] by auto

text \<open>A request of the client, even under a cid, holds no field an ack is recognised by.\<close>

lemma request_not_ack:
  assumes "valid_num n" "n \<noteq> 1" "n \<noteq> 7" "n \<noteq> 12" "fits b"
  shows "\<exists>a. DecodeAck w (WithCid w cid (enc_fields w [FBytes n b])) = Some (a, False)"
proof -
  have ok: "\<forall>f \<in> set (vfield 1 cid @ [FBytes n b]). field_ok f"
    using assms(1,5) by (auto simp: vfield_def valid_num_def)
  have "bytes_at 7 (vfield 1 cid @ [FBytes n b]) = map (enc_fields w) []" using assms by simp
  from DecodeAck_fields [OF ok this] show ?thesis
    unfolding WithCid_fields using assms by (simp add: vfield_def del: enc_fields_simps)
qed

end

text \<open>The edit request, and the two frames of one constant field.\<close>

definition update_fields :: "string \<Rightarrow> string \<Rightarrow> string \<Rightarrow> i32 \<Rightarrow> bool \<Rightarrow> string \<Rightarrow> wire_field list" where
  "update_fields channelID clanID messageID mode isPublic blob =
     vfield 1 (id_of clanID) @ vfield 2 (id_of channelID) @ vfield 3 (id_of messageID) @ sfield 4 blob @
     vfield 7 (u64_of_i32 mode) @ bfield 8 isPublic @ bfield 9 True"

lemma plain_update: "list_all plain (update_fields ch cl mid mode pub blob)"
  by (simp add: update_fields_def valid_num_def)

context wire begin

lemma BuildUpdateEnvelope_fields:
  "BuildContent text = Some blob \<Longrightarrow> BuildUpdateEnvelope w ch cl mid mode pub text =
     Some (enc_fields w [FBytes 9 (enc_fields w (update_fields ch cl mid mode pub blob))])"
  by (simp add: BuildUpdateEnvelope_def wire_simps update_fields_def Let_def)
    (simp add: vfield_def bfield_def)

lemma BuildPingEnvelope_fields: "BuildPingEnvelope w = enc_fields w [FBytes 22 []]"
  by (simp add: BuildPingEnvelope_def wire_simps)

lemma read_ping: "read_fields w (BuildPingEnvelopeWithCid w cid) = Some (concat (map shown (vfield 1 cid)) @ [(22, 0, Some [])])"
  "read_fields w (BuildPingEnvelope w) = Some [(22, 0, Some [])]"
proof -
  have ok: "\<forall>f \<in> set (vfield 1 cid @ [FBytes 22 []]). field_ok f"
    using fits_Nil by (auto simp: vfield_def valid_num_def)
  show "read_fields w (BuildPingEnvelopeWithCid w cid) = Some (concat (map shown (vfield 1 cid)) @ [(22, 0, Some [])])"
    unfolding BuildPingEnvelopeWithCid_fields read_fields_enc [OF ok] by simp
  have ok2: "\<forall>f \<in> set [FBytes 22 []]. field_ok f" using fits_Nil by (simp add: valid_num_def)
  show "read_fields w (BuildPingEnvelope w) = Some [(22, 0, Some [])]"
    unfolding BuildPingEnvelope_fields read_fields_enc [OF ok2] by simp
qed

end

section \<open>The properties\<close>

text \<open>Concrete frames for the witnesses.\<close>

definition ex_opts :: SendOpts where
  "ex_opts = \<lparr>so_Ref = Some \<lparr>RefMessageID = ''77'', ref_SenderID = ''5'', SenderUsername = ''bob'',
       SenderAvatar = '''', ref_Content = ''hi''\<rparr>,
     so_Mentions = [\<lparr>mn_UserID = ''42'', mn_S = 0, mn_E = 3\<rparr>], MentionEveryone = True\<rparr>"

lemmas frame_eval = std_wire_def enc_varint.simps enc_field_def vfield_def sfield_def bfield_def
  id_of_def ParseUint_def char_digit_def Let_def str_bytes_def fits_def valid_num_def

text \<open>C12. An inbound frame that carries a channel message, after any other well-formed fields
  and before any bytes at all, decodes to exactly the message of its fields: for each field
  number the last occurrence wins, ids become decimal strings, unknown fields are skipped.\<close>

theorem DecodeChannelMessage_correct:
  assumes "wire w" "\<forall>f \<in> set pre. field_ok f" "bytes_at 6 pre = []" "\<forall>f \<in> set fs. field_ok f"
    and "fits (enc_fields w fs)"
  shows "DecodeChannelMessage w (enc_fields w (pre @ [FBytes 6 (enc_fields w fs)]) @ rest) =
    Some (spec_message w fs, True, None)"
  using wire.DecodeChannelMessage_fields [OF assms] .

definition ex_fs :: "wire_field list" where
  "ex_fs = [FVarint 1 10, FVarint 2 20, FVarint 3 99, FFixed32 40 [1, 2, 3, 4], FBytes 8 (str_bytes ''hi''),
     FVarint 3 100, FVarint 24 1]"

lemma ex_fs_ok: "\<forall>f \<in> set ex_fs. field_ok f" "fits (enc_fields std_wire ex_fs)"
  by (simp_all add: ex_fs_def frame_eval)

lemma ex_fs_message:
  "MessageID (spec_message w ex_fs) = ''100''" "Content (spec_message w ex_fs) = ''hi''"
  "IsPublic (spec_message w ex_fs)"
  by (simp_all add: ex_fs_def spec_message_def ids_at_def text_at_def at_defs last_or_def digits_eval)

lemma DecodeChannelMessage_correct_witness:
  "DecodeChannelMessage std_wire (enc_fields std_wire ([FVarint 1 7] @ [FBytes 6 (enc_fields std_wire ex_fs)])
      @ [255]) = Some (spec_message std_wire ex_fs, True, None) \<and>
   MessageID (spec_message std_wire ex_fs) = ''100''"
  using DecodeChannelMessage_correct [OF std.wire_axioms _ _ ex_fs_ok, of "[FVarint 1 7]" "[255]"] ex_fs_message
  by (simp add: valid_num_def)

text \<open>C36. Decoding is total: on any frame, well-formed or not, \<open>DecodeChannelMessage\<close> returns
  (no slice out of range, no endless loop); when it reports a message there is no error, and
  when it does not the message is the zero value.\<close>

theorem DecodeChannelMessage_robust:
  assumes "wire w"
  shows "\<exists>m ok err. DecodeChannelMessage w frame = Some (m, ok, err) \<and>
    (ok \<longrightarrow> err = None) \<and> (\<not> ok \<longrightarrow> m = Message0)"
proof -
  obtain m ok err where r: "DecodeChannelMessage w frame = Some (m, ok, err)"
    using wire.DecodeChannelMessage_total [OF assms, of frame] by auto
  then show ?thesis using DecodeChannelMessage_outcome [OF r] by blast
qed

lemma DecodeChannelMessage_robust_witness:
  "\<exists>m ok err. DecodeChannelMessage std_wire [50, 200, 1, 8] = Some (m, ok, err) \<and>
    (ok \<longrightarrow> err = None) \<and> (\<not> ok \<longrightarrow> m = Message0)"
  by (rule DecodeChannelMessage_robust [OF std.wire_axioms])

text \<open>A frame without a channel message (pings, acks, presence and every other case) is
  passed over without an error and without decoding anything.\<close>

theorem DecodeChannelMessage_other_frames:
  assumes "wire w" "\<forall>f \<in> set fs. field_ok f" "bytes_at 6 fs = []"
  shows "DecodeChannelMessage w (enc_fields w fs) = Some (Message0, False, None)"
  using wire.DecodeChannelMessage_none [OF assms] .

lemma DecodeChannelMessage_other_frames_witness:
  "DecodeChannelMessage std_wire (enc_fields std_wire [FVarint 1 3, FBytes 22 []]) = Some (Message0, False, None)"
  by (rule DecodeChannelMessage_other_frames [OF std.wire_axioms]) (simp_all add: valid_num_def fits_def at_defs)

text \<open>The nested lists of mentions, attachments and references become the JSON array of
  their items, each item read off its own fields in any order; an empty list becomes the empty
  string, not \<open>[]\<close> or \<open>null\<close>.\<close>

theorem nested_lists_to_JSON:
  assumes "wire w" "\<forall>f \<in> set fs. field_ok f" "bytes_at 1 fs = map (enc_fields w) items"
    and "\<forall>it \<in> set items. \<forall>f \<in> set it. field_ok f"
  shows "mentionsToJSON w (enc_fields w fs) = Some (items_json mention_json (map spec_mention items)) \<and>
    attachmentsToJSON w (enc_fields w fs) = Some (items_json attachment_json (map spec_attachment items)) \<and>
    refsToJSON w (enc_fields w fs) = Some (items_json ref_json (map spec_ref items))"
  unfolding mentionsToJSON_def attachmentsToJSON_def refsToJSON_def
    wire.collect_items_fields [OF assms total_visits(1)] wire.collect_items_fields [OF assms total_visits(2)]
    wire.collect_items_fields [OF assms total_visits(3)]
  by (simp add: fold_mention fold_attachment fold_ref cong: map_cong)

lemma nested_lists_to_JSON_witness:
  "mentionsToJSON std_wire (enc_fields std_wire [FBytes 1 (enc_fields std_wire [FVarint 2 42, FVarint 8 3])]) =
     Some (items_json mention_json [\<lparr>jm_UserID = ''42'', jm_S = 0, jm_E = 3\<rparr>])"
proof -
  have "fits (enc_fields std_wire [FVarint 2 42, FVarint 8 3])" by (simp add: frame_eval)
  then show ?thesis
    using nested_lists_to_JSON [OF std.wire_axioms,
        of "[FBytes 1 (enc_fields std_wire [FVarint 2 42, FVarint 8 3])]" "[[FVarint 2 42, FVarint 8 3]]"]
    by (simp add: valid_num_def spec_mention_def at_defs digits_eval i32_of_u64_def del: enc_fields_simps)
qed

text \<open>C15. Sending: the \<open>ChannelMessageSend\<close> envelope, read back with the package's own walker,
  is one field 8 whose fields are exactly the arguments: ids as varints, every mention and the
  reference as nested messages, the flags only when set, zero values omitted.\<close>

theorem BuildSendEnvelopeRaw_read_back:
  assumes "wire w" "fits (BuildSendEnvelopeRaw w channelID clanID mode isPublic content opts)"
  shows "\<exists>msg. read_fields w (BuildSendEnvelopeRaw w channelID clanID mode isPublic content opts) =
      Some [(8, 0, Some msg)] \<and>
    read_fields w msg = Some (concat (map shown (
      vfield 1 (id_of clanID) @ vfield 2 (id_of channelID) @ sfield 3 content @
      map (\<lambda>m. FBytes 4 (enc_fields w (mention_fields m))) (so_Mentions opts) @
      (case so_Ref opts of None \<Rightarrow> [] | Some r \<Rightarrow> [FBytes 6 (enc_fields w (ref_fields r))]) @
      vfield 7 (u64_of_i32 mode) @ bfield 9 (MentionEveryone opts) @ bfield 11 isPublic)))"
  using wire.read_envelope [OF assms(1) _ plain_fields(3), of 8] assms(2)
  unfolding wire.BuildSendEnvelopeRaw_fields [OF assms(1)] by (simp add: valid_num_def send_fields_def)

lemma BuildSendEnvelopeRaw_read_back_witness:
  "\<exists>msg. read_fields std_wire (BuildSendEnvelopeRaw std_wire ''20'' ''10'' 2 True ''{}'' ex_opts) =
      Some [(8, 0, Some msg)]"
proof -
  have "fits (BuildSendEnvelopeRaw std_wire ''20'' ''10'' 2 True ''{}'' ex_opts)"
    unfolding std.BuildSendEnvelopeRaw_fields
    by (simp add: send_fields_def ex_opts_def mention_fields_def ref_fields_def frame_eval u64_of_i32_def)
  from BuildSendEnvelopeRaw_read_back [OF std.wire_axioms this] show ?thesis by blast
qed

text \<open>The edit to an empty text.\<close>

lemma ex_blob: "BuildContent [] = Some ''{\"t\":\"\"}''"
proof -
  have j: "json_object [(''t'', json_string [])] = ''{\"t\":\"\"}''" by code_simp
  show "BuildContent [] = Some ''{\"t\":\"\"}''"
    by (simp add: BuildContent_def markdownSpans_def markdown_events_def fenceRegions_def inline_regions_def
        bold_regions_def fence_step_def linkSpans_def fenceLineRE_def starts_with_def j)
qed

lemma ex_edit_fits:
  "fits (enc_fields std_wire [FBytes 9 (enc_fields std_wire (update_fields ''20'' ''10'' ''9'' 2 True ''{\"t\":\"\"}''))])"
  by (simp add: update_fields_def frame_eval u64_of_i32_def)

text \<open>C37. The typing, reaction, sticker, clan-join, edit and keep-alive envelopes, read back, are one
  field of their own number holding exactly their arguments, behind the request id where there is
  one; a typing event without a display name falls back to the username, and an edit hides its
  badge.\<close>

theorem other_envelopes_read_back:
  assumes "wire w"
    and "fits (BuildTypingEnvelope w ch cl sender user name mode pub)"
    and "fits (BuildReactionEnvelope w cl ch mid eid emoji action mode pub)"
    and "fits (BuildStickerEnvelope w ch cl mode pub short url)"
    and "fits (BuildClanJoinEnvelope w cl)"
    and "BuildContent text = Some blob" "BuildUpdateEnvelope w ch cl mid mode pub text = Some edit" "fits edit"
  shows "(\<exists>msg. read_fields w (BuildTypingEnvelope w ch cl sender user name mode pub) = Some [(24, 0, Some msg)] \<and>
      read_fields w msg = Some (concat (map shown (vfield 1 (id_of cl) @ vfield 2 (id_of ch) @
        vfield 3 (id_of sender) @ vfield 4 (u64_of_i32 mode) @ bfield 5 pub @ sfield 6 user @
        sfield 7 (if name = '''' then user else name))))) \<and>
    (\<exists>msg. read_fields w (BuildReactionEnvelope w cl ch mid eid emoji action mode pub) = Some [(26, 0, Some msg)] \<and>
      read_fields w msg = Some (concat (map shown (vfield 2 (id_of eid) @ sfield 3 emoji @ bfield 7 action @
        vfield 9 (id_of ch) @ vfield 10 (id_of mid) @ vfield 11 (id_of cl) @ vfield 12 (u64_of_i32 mode) @
        bfield 14 pub)))) \<and>
    (\<exists>msg. read_fields w (BuildStickerEnvelope w ch cl mode pub short url) = Some [(8, 0, Some msg)] \<and>
      read_fields w msg = Some (concat (map shown (vfield 1 (id_of cl) @ vfield 2 (id_of ch) @
        [FBytes 5 (enc_fields w (sfield 1 short @ sfield 3 url @ sfield 4 ''sticker''))] @
        vfield 7 (u64_of_i32 mode) @ bfield 11 pub)))) \<and>
    (\<exists>msg. read_fields w (BuildClanJoinEnvelope w cl) = Some [(3, 0, Some msg)] \<and>
      read_fields w msg = Some (concat (map shown (vfield 1 (id_of cl))))) \<and>
    (\<exists>msg. read_fields w edit = Some [(9, 0, Some msg)] \<and>
      read_fields w msg = Some (concat (map shown (vfield 1 (id_of cl) @ vfield 2 (id_of ch) @ vfield 3 (id_of mid) @
        sfield 4 blob @ vfield 7 (u64_of_i32 mode) @ bfield 8 pub @ bfield 9 True)))) \<and>
    read_fields w (BuildPingEnvelopeWithCid w cid) = Some (concat (map shown (vfield 1 cid)) @ [(22, 0, Some [])]) \<and>
    read_fields w (BuildPingEnvelope w) = Some [(22, 0, Some [])]"
proof (intro conjI)
  note env = wire.read_envelope [OF assms(1)]
  show "\<exists>msg. read_fields w (BuildTypingEnvelope w ch cl sender user name mode pub) = Some [(24, 0, Some msg)] \<and>
      read_fields w msg = Some (concat (map shown (vfield 1 (id_of cl) @ vfield 2 (id_of ch) @
        vfield 3 (id_of sender) @ vfield 4 (u64_of_i32 mode) @ bfield 5 pub @ sfield 6 user @
        sfield 7 (if name = '''' then user else name))))"
    using env [OF _ plain_fields(4), of 24] assms(2)
    unfolding wire.BuildTypingEnvelope_fields [OF assms(1)] by (simp add: valid_num_def typing_fields_def)
  show "\<exists>msg. read_fields w (BuildReactionEnvelope w cl ch mid eid emoji action mode pub) = Some [(26, 0, Some msg)] \<and>
      read_fields w msg = Some (concat (map shown (vfield 2 (id_of eid) @ sfield 3 emoji @ bfield 7 action @
        vfield 9 (id_of ch) @ vfield 10 (id_of mid) @ vfield 11 (id_of cl) @ vfield 12 (u64_of_i32 mode) @
        bfield 14 pub)))"
    using env [OF _ plain_fields(5), of 26] assms(3)
    unfolding wire.BuildReactionEnvelope_fields [OF assms(1)] by (simp add: valid_num_def reaction_fields_def)
  show "\<exists>msg. read_fields w (BuildStickerEnvelope w ch cl mode pub short url) = Some [(8, 0, Some msg)] \<and>
      read_fields w msg = Some (concat (map shown (vfield 1 (id_of cl) @ vfield 2 (id_of ch) @
        [FBytes 5 (enc_fields w (sfield 1 short @ sfield 3 url @ sfield 4 ''sticker''))] @
        vfield 7 (u64_of_i32 mode) @ bfield 11 pub)))"
    using env [OF _ plain_fields(6), of 8] assms(4)
    unfolding wire.BuildStickerEnvelope_fields [OF assms(1)] by (simp add: valid_num_def sticker_fields_def)
  show "\<exists>msg. read_fields w (BuildClanJoinEnvelope w cl) = Some [(3, 0, Some msg)] \<and>
      read_fields w msg = Some (concat (map shown (vfield 1 (id_of cl))))"
    using env [of 3 "vfield 1 (id_of cl)"] assms(5)
    unfolding wire.BuildClanJoinEnvelope_fields [OF assms(1)] by (simp add: valid_num_def)
  show "\<exists>msg. read_fields w edit = Some [(9, 0, Some msg)] \<and>
      read_fields w msg = Some (concat (map shown (vfield 1 (id_of cl) @ vfield 2 (id_of ch) @ vfield 3 (id_of mid) @
        sfield 4 blob @ vfield 7 (u64_of_i32 mode) @ bfield 8 pub @ bfield 9 True)))"
    using env [OF _ plain_update, of 9] assms(7,8)
    unfolding wire.BuildUpdateEnvelope_fields [OF assms(1,6)] by (auto simp: valid_num_def update_fields_def)
qed (rule wire.read_ping [OF assms(1)])+

lemma other_envelopes_read_back_witness:
  "read_fields std_wire (BuildPingEnvelopeWithCid std_wire 6) = Some [(1, 6, None), (22, 0, Some [])] \<and>
   (\<exists>msg. read_fields std_wire (BuildTypingEnvelope std_wire ''20'' ''10'' ''5'' ''bob'' '''' 2 True) =
      Some [(24, 0, Some msg)])"
proof -
  have f: "fits (BuildTypingEnvelope std_wire ''20'' ''10'' ''5'' ''bob'' '''' 2 True)"
    "fits (BuildReactionEnvelope std_wire ''10'' ''20'' ''9'' '''' ''joy'' True 2 True)"
    "fits (BuildStickerEnvelope std_wire ''20'' ''10'' 2 True ''cat'' ''u'')"
    "fits (BuildClanJoinEnvelope std_wire ''10'')"
    unfolding std.BuildTypingEnvelope_fields std.BuildReactionEnvelope_fields std.BuildStickerEnvelope_fields
      std.BuildClanJoinEnvelope_fields
    by (simp_all add: typing_fields_def reaction_fields_def sticker_fields_def frame_eval u64_of_i32_def)
  note p = other_envelopes_read_back [OF std.wire_axioms f ex_blob std.BuildUpdateEnvelope_fields [OF ex_blob] ex_edit_fits, where cid = 6]
  have "concat (map shown (vfield 1 6)) @ [(22, 0, Some [])] = [(1, 6, None), (22, 0, Some [])]"
    by (simp add: vfield_def)
  then show ?thesis using p by (elim conjE) (intro conjI, simp only:, blast)
qed

text \<open>A mention survives the wire: the item the sender encodes, read by the decoder's mention
  list, has the same user id (none for an id that encodes as 0) and the same span, negative
  \<open>int32\<close> offsets included.\<close>

theorem mention_round_trip:
  assumes "wire w" "fits (enc_fields w (mention_fields m))"
  shows "mentionsToJSON w (appendMessageField w [] 1
      (appendVarintField w (appendVarintField w (appendVarintField w [] 2 (id_of (mn_UserID m)))
         7 (u64_of_i32 (mn_S m))) 8 (u64_of_i32 (mn_E m)))) =
    Some (items_json mention_json [\<lparr>jm_UserID = (if id_of (mn_UserID m) = 0 then '''' else FormatUint (id_of (mn_UserID m))),
      jm_S = mn_S m, jm_E = mn_E m\<rparr>])"
proof -
  have ok: "\<forall>f \<in> set (mention_fields m). field_ok f"
    by (rule wire.plain_ok [OF assms(1) plain_fields(1) assms(2)])
  have e: "appendMessageField w [] 1
      (appendVarintField w (appendVarintField w (appendVarintField w [] 2 (id_of (mn_UserID m)))
         7 (u64_of_i32 (mn_S m))) 8 (u64_of_i32 (mn_E m))) = enc_fields w [FBytes 1 (enc_fields w (mention_fields m))]"
    by (simp add: wire.append_varint_field [OF assms(1)] wire.append_message_field [OF assms(1)] mention_fields_def)
  have "spec_mention (mention_fields m) =
      \<lparr>jm_UserID = (if id_of (mn_UserID m) = 0 then '''' else FormatUint (id_of (mn_UserID m))),
       jm_S = mn_S m, jm_E = mn_E m\<rparr>"
    by (simp add: spec_mention_def mention_fields_def)
  moreover have "collect_items w mention0 mention_visit (enc_fields w [FBytes 1 (enc_fields w (mention_fields m))]) =
      Some (map (foldl (visit_field mention_visit) mention0) [mention_fields m])"
    using ok assms(2) by (intro wire.collect_items_fields [OF assms(1)]) (simp_all add: valid_num_def total_visits)
  ultimately show ?thesis unfolding e mentionsToJSON_def by (simp add: fold_mention)
qed

lemma mention_round_trip_witness:
  "mentionsToJSON std_wire (appendMessageField std_wire [] 1
      (appendVarintField std_wire (appendVarintField std_wire (appendVarintField std_wire [] 2 (id_of ''42''))
         7 (u64_of_i32 (-1))) 8 (u64_of_i32 3))) =
    Some (items_json mention_json [\<lparr>jm_UserID = (if id_of ''42'' = 0 then '''' else FormatUint (id_of ''42'')),
      jm_S = -1, jm_E = 3\<rparr>])"
proof -
  define m where "m = \<lparr>mn_UserID = ''42'', mn_S = -1, mn_E = 3\<rparr>"
  have "u64_of_i32 (-1) = 4294967295" "u64_of_i32 3 = 3"
    by (simp_all add: u64_of_i32_def unsigned_minus_1_eq_mask mask_eq_exp_minus_1)
  then have "fits (enc_fields std_wire (mention_fields m))"
    by (simp add: m_def mention_fields_def frame_eval)
  from mention_round_trip [OF std.wire_axioms this] show ?thesis by (simp add: m_def)
qed




text \<open>C29. A frame is an acknowledgement exactly when it carries a cid (a varint, or a decimal
  string) and an ack or an error; the ack then holds the last cid, the last message id of the
  ack messages in either encoding, and whether there was an error.\<close>

theorem DecodeAck_correct:
  assumes "wire w" "\<forall>f \<in> set fs. field_ok f" "bytes_at 7 fs = map (enc_fields w) subs"
    and "\<forall>sub \<in> set subs. \<forall>f \<in> set sub. field_ok f"
  shows "DecodeAck w (enc_fields w fs) =
    Some (\<lparr>Cid = last_or 0 (cids_at fs), ack_MessageID = last_or '''' (concat (map ack_ids subs)),
        Err = (bytes_at 12 fs \<noteq> [])\<rparr>,
      cids_at fs \<noteq> [] \<and> (subs \<noteq> [] \<or> bytes_at 12 fs \<noteq> []))"
  using wire.DecodeAck_fields [OF assms] assms(3) by (simp add: spec_ack_def)

lemma DecodeAck_correct_witness:
  "DecodeAck std_wire (enc_fields std_wire [FVarint 1 6, FBytes 7 (enc_fields std_wire [FVarint 1 20, FVarint 2 99])]) =
    Some (\<lparr>Cid = 6, ack_MessageID = ''99'', Err = False\<rparr>, True)"
proof -
  have "fits (enc_fields std_wire [FVarint 1 20, FVarint 2 99])" by (simp add: frame_eval)
  then show ?thesis
    using DecodeAck_correct [OF std.wire_axioms, of
        "[FVarint 1 6, FBytes 7 (enc_fields std_wire [FVarint 1 20, FVarint 2 99])]" "[[FVarint 1 20, FVarint 2 99]]"]
    by (simp add: valid_num_def at_defs cids_at_def ack_ids_def last_or_def digits_eval del: enc_fields_simps)
qed

end
