(* ===== verification/Rest_Correct.thy ===== *)
theory Rest_Correct
  imports Rest Wire_Correct
begin

text \<open>
  What the REST client reads from a response, stated on the wire fields of its body, and how
  every failure becomes an error value.
\<close>

section \<open>The walkers\<close>

lemma walk_eq: "walk w b fn s = walkVarints w b fn s"
proof -
  have "walk_body w fn = walkVarints_body w fn"
    by (intro ext) (simp add: walk_body_def walkVarints_body_def)
  then show ?thesis by (simp add: walk_def walkVarints_def)
qed

definition typed_visit :: "(nat \<Rightarrow> nat \<Rightarrow> bytes option \<Rightarrow> u64 \<Rightarrow> 's \<Rightarrow> 's option) \<Rightarrow> 's \<Rightarrow> wire_field \<Rightarrow> 's" where
  "typed_visit visit s f = (case f of
       FVarint n v \<Rightarrow> the (visit n VarintType None v s)
     | FBytes n b \<Rightarrow> the (visit n BytesType (Some b) 0 s)
     | _ \<Rightarrow> s)"

context wire begin

lemma eachRepeated_body_field:
  assumes "field_ok f" "\<And>b s. fn b s \<noteq> None"
  shows "eachRepeated_body w fn (fnum f) (ftyp f) (enc_value w f @ r) (s, None) =
     Next (length (enc_value w f)) (foldl (\<lambda>s b. the (fn b s)) s (bytes_at 1 [f]), None)"
proof (cases "fnum f = 1 \<and> ftyp f = BytesType")
  case True
  then obtain b where f: "f = FBytes 1 b" by (cases f) auto
  obtain s' where "fn b s = Some s'" using assms(2) by blast
  then show ?thesis using f assms(1) by (simp add: eachRepeated_body_def consume_bytes)
next
  case False
  then have "bytes_at 1 [f] = []" by (cases f) auto
  then show ?thesis using False value_field [OF assms(1), of "fnum f" r]
    by (auto simp: eachRepeated_body_def)
qed

lemma eachRepeated_fields:
  assumes "\<forall>f \<in> set fs. field_ok f" "\<And>b s. fn b s \<noteq> None"
  shows "eachRepeated w (enc_fields w fs) fn s = Some (foldl (\<lambda>s b. the (fn b s)) s (bytes_at 1 fs), None)"
  using assms(1) unfolding eachRepeated_def
proof (induction fs arbitrary: s)
  case (Cons f fs)
  let ?s' = "foldl (\<lambda>s b. the (fn b s)) s (bytes_at 1 [f])"
  have "wire_loop w (\<lambda>_ s. (fst s, Some ErrTag)) (eachRepeated_body w fn) (enc_field w f @ enc_fields w fs) (s, None)
      = wire_loop w (\<lambda>_ s. (fst s, Some ErrTag)) (eachRepeated_body w fn) (enc_fields w fs) (?s', None)"
    using Cons.prems assms(2) by (intro wire_loop_field) (simp_all add: eachRepeated_body_field)
  moreover have "bytes_at 1 (f # fs) = bytes_at 1 [f] @ bytes_at 1 fs" by (rule at_Cons)
  ultimately show ?case using Cons by simp
qed simp

lemma eachRepeated_total:
  assumes "\<And>b s. fn b s \<noteq> None"
  shows "\<exists>r. eachRepeated w b fn s = Some r"
  unfolding eachRepeated_def
proof (rule wire_loop_returns)
  fix num ty b s n s'
  assume "eachRepeated_body w fn num ty b s = Next n s'"
  then show "n \<le> length b"
    using bytes_bounds value_bounds
    by (auto simp: eachRepeated_body_def split: if_splits sum.splits option.splits prod.splits)
next
  fix num ty b s
  have v: "(fn i s = None) = False" for i s using assms by simp
  show "eachRepeated_body w fn num ty b s \<noteq> Hang"
    by (simp add: v eachRepeated_body_def split: sum.splits option.splits prod.splits)
qed

lemma walkFields_body_field:
  assumes "field_ok f" "\<And>n t v u s. visit n t v u s \<noteq> None"
  shows "walkFields_body w visit (fnum f) (ftyp f) (enc_value w f @ r) (s, None) =
     Next (length (enc_value w f)) (typed_visit visit s f, None)"
proof (cases f)
  case (FVarint n v)
  obtain s' where "visit n VarintType None v s = Some s'" using assms(2) by blast
  then show ?thesis using FVarint by (simp add: walkFields_body_def consume_varint typed_visit_def)
next
  case (FBytes n b)
  obtain s' where "visit n BytesType (Some b) 0 s = Some s'" using assms(2) by blast
  then show ?thesis using FBytes assms(1) by (simp add: walkFields_body_def consume_bytes typed_visit_def)
next
  case (FFixed64 n b)
  then show ?thesis using value_field [OF assms(1), of "fnum f" r] by (simp add: walkFields_body_def typed_visit_def)
next
  case (FFixed32 n b)
  then show ?thesis using value_field [OF assms(1), of "fnum f" r] by (simp add: walkFields_body_def typed_visit_def)
qed

lemma walkFields_fields:
  assumes "\<forall>f \<in> set fs. field_ok f" "\<And>n t v u s. visit n t v u s \<noteq> None"
  shows "walkFields w (enc_fields w fs) visit s = Some (foldl (typed_visit visit) s fs, None)"
  using assms(1) unfolding walkFields_def
proof (induction fs arbitrary: s)
  case (Cons f fs)
  have "wire_loop w (\<lambda>_ s. (fst s, Some ErrTag)) (walkFields_body w visit) (enc_field w f @ enc_fields w fs) (s, None)
      = wire_loop w (\<lambda>_ s. (fst s, Some ErrTag)) (walkFields_body w visit) (enc_fields w fs) (typed_visit visit s f, None)"
    using Cons.prems assms(2) by (intro wire_loop_field) (simp_all add: walkFields_body_field)
  then show ?case using Cons by simp
qed simp

lemma walkFields_total:
  assumes "\<And>n t v u s. visit n t v u s \<noteq> None"
  shows "\<exists>r. walkFields w b visit s = Some r"
  unfolding walkFields_def
proof (rule wire_loop_returns)
  fix num ty b s n s'
  assume "walkFields_body w visit num ty b s = Next n s'"
  then show "n \<le> length b"
    using bytes_bounds value_bounds varint_bounds
    by (auto simp: walkFields_body_def split: if_splits sum.splits option.splits prod.splits)
next
  fix num ty b s
  have v: "(visit n t x u s = None) = False" for n t x u s using assms by simp
  show "walkFields_body w visit num ty b s \<noteq> Hang"
    by (simp add: v walkFields_body_def split: sum.splits option.splits prod.splits)
qed

end

section \<open>Clans, channels and accounts\<close>

definition spec_clan :: "wire_field list \<Rightarrow> Clan" where
  "spec_clan fs = \<lparr>clan_ID = last_or '''' (map FormatUint (nums_at 5 fs)), clan_Name = last_or '''' (strs_at 2 fs)\<rparr>"

definition spec_channel :: "wire_field list \<Rightarrow> Channel" where
  "spec_channel fs = \<lparr>chan_ID = last_or '''' (map FormatUint (nums_at 3 fs)), chan_Label = last_or '''' (strs_at 8 fs)\<rparr>"

definition spec_account :: "wire_field list \<Rightarrow> Account" where
  "spec_account fs = \<lparr>ac_UserID = ids_at 1 fs, ac_Username = text_at 2 fs, ac_DisplayName = text_at 3 fs\<rparr>"

lemma total_rest_visits: "total_visit clan_visit" "total_visit channel_visit"
  by (auto simp: total_visit_def clan_visit_def channel_visit_def split: prod.splits)

lemma fold_clan: "foldl (visit_field clan_visit) \<lparr>clan_ID = '''', clan_Name = ''''\<rparr> fs = spec_clan fs"
proof (induction fs rule: rev_induct)
  case (snoc f fs)
  then show ?case by (cases f) (auto simp: visit_field_def clan_visit_def spec_clan_def opt_str_def)
qed (simp add: spec_clan_def)

lemma fold_channel:
  "foldl (visit_field channel_visit) (\<lparr>chan_ID = '''', chan_Label = ''''\<rparr>, 1) fs =
     (spec_channel fs, last_or 1 (nums_at 6 fs))"
proof (induction fs rule: rev_induct)
  case (snoc f fs)
  then show ?case by (cases f) (auto simp: visit_field_def channel_visit_def spec_channel_def opt_str_def)
qed (simp add: spec_channel_def)

lemma fold_user:
  "foldl (typed_visit user_visit) a fs = \<lparr>ac_UserID = last_or (ac_UserID a) (map FormatUint (varints_at 1 fs)),
     ac_Username = last_or (ac_Username a) (map bytes_str (bytes_at 2 fs)),
     ac_DisplayName = last_or (ac_DisplayName a) (map bytes_str (bytes_at 3 fs))\<rparr>"
proof (induction fs rule: rev_induct)
  case (snoc f fs)
  then show ?case by (cases f) (auto simp: typed_visit_def user_visit_def opt_str_def)
qed simp

context wire begin

lemma add_clan_total: "add_clan w b s \<noteq> None"
  using walkVarints_total [OF total_rest_visits(1), of b "\<lparr>clan_ID = '''', clan_Name = ''''\<rparr>"]
  by (auto simp: add_clan_def walk_eq)

lemma add_channel_total: "add_channel w b s \<noteq> None"
  using walkVarints_total [OF total_rest_visits(2), of b "(\<lparr>chan_ID = '''', chan_Label = ''''\<rparr>, 1)"]
  by (auto simp: add_channel_def walk_eq)

lemma add_clan_fields:
  "\<forall>f \<in> set it. field_ok f \<Longrightarrow> add_clan w (enc_fields w it) cs =
     Some (cs @ filter (\<lambda>cl. clan_ID cl \<noteq> '''' \<and> clan_ID cl \<noteq> ''0'') [spec_clan it])"
  by (simp add: add_clan_def walk_eq walkVarints_fields total_rest_visits fold_clan)

lemma add_channel_fields:
  "\<forall>f \<in> set it. field_ok f \<Longrightarrow> add_channel w (enc_fields w it) cs =
     Some (cs @ (if last_or 1 (nums_at 6 it) = 1 then
       filter (\<lambda>ch. chan_ID ch \<noteq> '''' \<and> chan_ID ch \<noteq> ''0'') [spec_channel it] else []))"
  by (simp add: add_channel_def walk_eq walkVarints_fields total_rest_visits fold_channel)

lemma clans_fields:
  assumes "\<forall>f \<in> set fs. field_ok f" "bytes_at 1 fs = map (enc_fields w) items"
    and "\<forall>it \<in> set items. \<forall>f \<in> set it. field_ok f"
  shows "eachRepeated w (enc_fields w fs) (add_clan w) [] =
    Some (filter (\<lambda>cl. clan_ID cl \<noteq> '''' \<and> clan_ID cl \<noteq> ''0'') (map spec_clan items), None)"
proof -
  have "foldl (\<lambda>s b. the (add_clan w b s)) cs (map (enc_fields w) items) =
      cs @ filter (\<lambda>cl. clan_ID cl \<noteq> '''' \<and> clan_ID cl \<noteq> ''0'') (map spec_clan items)" for cs
    using assms(3) by (induction items arbitrary: cs) (simp_all add: add_clan_fields)
  then show ?thesis using eachRepeated_fields [OF assms(1) add_clan_total] assms(2) by simp
qed

lemma channels_fields:
  assumes "\<forall>f \<in> set fs. field_ok f" "bytes_at 1 fs = map (enc_fields w) items"
    and "\<forall>it \<in> set items. \<forall>f \<in> set it. field_ok f"
  shows "eachRepeated w (enc_fields w fs) (add_channel w) [] =
    Some (filter (\<lambda>ch. chan_ID ch \<noteq> '''' \<and> chan_ID ch \<noteq> ''0'')
      (map spec_channel (filter (\<lambda>it. last_or 1 (nums_at 6 it) = 1) items)), None)"
proof -
  have "foldl (\<lambda>s b. the (add_channel w b s)) cs (map (enc_fields w) items) =
      cs @ filter (\<lambda>ch. chan_ID ch \<noteq> '''' \<and> chan_ID ch \<noteq> ''0'')
        (map spec_channel (filter (\<lambda>it. last_or 1 (nums_at 6 it) = 1) items))" for cs
    using assms(3) by (induction items arbitrary: cs) (simp_all add: add_channel_fields)
  then show ?thesis using eachRepeated_fields [OF assms(1) add_channel_total] assms(2) by simp
qed

lemma account_visit_total: "account_visit w n t v u s \<noteq> None"
  using walkFields_total [of user_visit "case v of None \<Rightarrow> [] | Some b \<Rightarrow> b" s]
  by (auto simp: account_visit_def user_visit_def)

lemma account_fields:
  assumes "\<forall>f \<in> set fs. field_ok f" "bytes_at 1 fs = map (enc_fields w) items"
    and "\<forall>it \<in> set items. \<forall>f \<in> set it. field_ok f"
  shows "accountFromWire w (enc_fields w fs) = Some (Inr (spec_account (concat items)))"
proof -
  have u: "user_visit n t v u s \<noteq> None" for n t v u s by (simp add: user_visit_def)
  have "foldl (typed_visit (account_visit w)) a fs = foldl (typed_visit user_visit) a (concat items)"
    if "\<forall>f \<in> set fs. field_ok f" "bytes_at 1 fs = map (enc_fields w) items"
      "\<forall>it \<in> set items. \<forall>f \<in> set it. field_ok f" for a fs items
    using that
  proof (induction fs arbitrary: a items)
    case (Cons f fs)
    show ?case
    proof (cases "\<exists>b. f = FBytes 1 b")
      case True
      then obtain b where f: "f = FBytes 1 b" by blast
      then obtain it items' where i: "items = it # items'" "b = enc_fields w it" "bytes_at 1 fs = map (enc_fields w) items'"
        using Cons.prems(2) at_Cons(1) [of 1 f fs] by auto
      have "typed_visit (account_visit w) a f = foldl (typed_visit user_visit) a it"
        using f i Cons.prems(3) by (simp add: typed_visit_def account_visit_def walkFields_fields u)
      then show ?thesis using Cons i by simp
    next
      case False
      then have "bytes_at 1 [f] = []" "typed_visit (account_visit w) a f = a"
        by (cases f; simp add: typed_visit_def account_visit_def)+
      then show ?thesis using Cons at_Cons(1) [of 1 f fs] by simp
    qed
  qed simp
  from this [OF assms] show ?thesis
    by (simp add: accountFromWire_def walkFields_fields [OF assms(1) account_visit_total] fold_user
        spec_account_def Account0_def ids_at_def text_at_def)
qed

end

section \<open>The properties\<close>

text \<open>The answer a call of the RPC endpoint gets.\<close>

definition answers :: "net \<Rightarrow> Client \<Rightarrow> string \<Rightarrow> string \<Rightarrow> string \<Rightarrow> bytes \<Rightarrow> http_response \<Rightarrow> bool" where
  "answers net c base tok method body res \<longleftrightarrow> url_ok net (rpc_base c base @ ''/mezon.api.Mezon/'' @ method) \<and>
     http_Do net (rpc_request c base tok method body) = Some res"

lemma rpc_answers:
  "answers net c base tok method body res \<Longrightarrow> rpc net c base tok method body =
     (if StatusCode res \<noteq> 200 then Inl (HTTPError (StatusCode res) (bytes_str (take (4 * 2 ^ 20) (Body res))))
      else Inr (take (4 * 2 ^ 20) (Body res)))"
  by (simp add: answers_def rpc_def rpc_request_def Let_def)

context wire begin

lemma channel_request:
  "AppendVarint w (AppendTag w (AppendVarint w (AppendTag w [] 4 VarintType) cid) 5 VarintType) channelTypeText =
     enc_fields w [FVarint 4 cid, FVarint 5 1]"
  by (simp add: enc_field_def) (metis append.assoc tag_append varint_append)

end

definition ex_net :: "bytes \<Rightarrow> net" where
  "ex_net body = \<lparr>url_ok = (\<lambda>_. True), http_Do = (\<lambda>_. Some \<lparr>StatusCode = 200, Body = body\<rparr>),
     api_List = (\<lambda>_ _ _. None), Unmarshal_session = (\<lambda>_. None)\<rparr>"

lemma ex_net_answers: "answers (ex_net body) c base tok method b \<lparr>StatusCode = 200, Body = body\<rparr>"
  by (simp add: answers_def ex_net_def)

text \<open>C35. Listing clans: a 200 answer of well-formed fields gives exactly the descriptions with a
  non-zero clan id (field 5, whatever field 1 holds), in order; \<open>ListClanIDs\<close> is their ids.\<close>

theorem ListClans_correct:
  assumes "wire w" "\<forall>f \<in> set fs. field_ok f" "bytes_at 1 fs = map (enc_fields w) items"
    and "\<forall>it \<in> set items. \<forall>f \<in> set it. field_ok f"
    and "answers net c base tok ''ListClanDescs'' [] \<lparr>StatusCode = 200, Body = enc_fields w fs\<rparr>"
    and "length (enc_fields w fs) \<le> 4 * 2 ^ 20"
  shows "ListClans net w c base tok =
      Some (Inr (filter (\<lambda>cl. clan_ID cl \<noteq> '''' \<and> clan_ID cl \<noteq> ''0'') (map spec_clan items))) \<and>
    ListClanIDs net w c base tok =
      Some (Inr (filter (\<lambda>i. i \<noteq> '''' \<and> i \<noteq> ''0'')
        (map (\<lambda>it. last_or '''' (map FormatUint (nums_at 5 it))) items)))"
proof -
  have l: "ListClans net w c base tok =
      Some (Inr (filter (\<lambda>cl. clan_ID cl \<noteq> '''' \<and> clan_ID cl \<noteq> ''0'') (map spec_clan items)))"
    using rpc_answers [OF assms(5)] assms(6) wire.clans_fields [OF assms(1-4)] by (simp add: ListClans_def)
  then show ?thesis by (simp add: ListClanIDs_def filter_map comp_def spec_clan_def)
qed

lemma ListClans_correct_witness:
  "ListClanIDs (ex_net (enc_fields std_wire [FBytes 1 (enc_fields std_wire [FVarint 1 9, FVarint 5 42])]))
     std_wire \<lparr>basePath = ''u''\<rparr> '''' ''t'' = Some (Inr [''42''])"
proof -
  have f: "fits (enc_fields std_wire [FVarint 1 9, FVarint 5 42])" by (simp add: frame_eval)
  have l: "length (enc_fields std_wire [FBytes 1 (enc_fields std_wire [FVarint 1 9, FVarint 5 42])]) \<le> 4 * 2 ^ 20"
    by (simp add: frame_eval)
  from ListClans_correct [OF std.wire_axioms, of "[FBytes 1 (enc_fields std_wire [FVarint 1 9, FVarint 5 42])]"
      "[[FVarint 1 9, FVarint 5 42]]", OF _ _ _ ex_net_answers l] f
  show ?thesis by (simp add: valid_num_def at_defs digits_eval del: enc_fields_simps)
qed

text \<open>Listing a clan's channels: the request is refused without any call when the clan id is
  not a number; otherwise it asks for the clan's text channels and keeps, in order, those with
  a non-zero id whose type is text or absent.\<close>

theorem ListChannels_correct:
  assumes "wire w" "\<forall>f \<in> set fs. field_ok f" "bytes_at 1 fs = map (enc_fields w) items"
    and "\<forall>it \<in> set items. \<forall>f \<in> set it. field_ok f"
    and "answers net c base tok ''ListChannelDescs'' (enc_fields w [FVarint 4 cid, FVarint 5 1])
      \<lparr>StatusCode = 200, Body = enc_fields w fs\<rparr>"
    and "length (enc_fields w fs) \<le> 4 * 2 ^ 20"
  shows "ListChannels net w c base tok (FormatUint cid) =
      Some (Inr (filter (\<lambda>ch. chan_ID ch \<noteq> '''' \<and> chan_ID ch \<noteq> ''0'')
        (map spec_channel (filter (\<lambda>it. last_or 1 (nums_at 6 it) = 1) items)))) \<and>
    ListChannels net w c base tok ''clan'' = Some (Inl (ErrBadClan ''clan''))"
proof -
  have "ParseUint ''clan'' = (0, Some ErrSyntax)" by (simp add: ParseUint_def char_digit_def)
  moreover have "rpc net c base tok ''ListChannelDescs'' (enc_fields w [FVarint 4 cid, FVarint 5 1]) =
      Inr (enc_fields w fs)"
    using rpc_answers [OF assms(5)] assms(6) by simp
  ultimately show ?thesis
    using wire.channels_fields [OF assms(1-4)]
    by (simp add: ListChannels_def Let_def wire.channel_request [OF assms(1)] del: enc_fields_simps)
qed

lemma ListChannels_correct_witness:
  "ListChannels (ex_net (enc_fields std_wire [FBytes 1 (enc_fields std_wire [FVarint 3 7, FVarint 6 2]),
       FBytes 1 (enc_fields std_wire [FVarint 3 8])]))
     std_wire \<lparr>basePath = ''u''\<rparr> '''' ''t'' (FormatUint 42) = Some (Inr [\<lparr>chan_ID = ''8'', chan_Label = ''''\<rparr>])"
proof -
  have f: "fits (enc_fields std_wire [FVarint 3 7, FVarint 6 2])" "fits (enc_fields std_wire [FVarint 3 8])"
    by (simp_all add: frame_eval)
  have l: "length (enc_fields std_wire [FBytes 1 (enc_fields std_wire [FVarint 3 7, FVarint 6 2]),
       FBytes 1 (enc_fields std_wire [FVarint 3 8])]) \<le> 4 * 2 ^ 20"
    by (simp add: frame_eval)
  from ListChannels_correct [where cid = 42, OF std.wire_axioms, of "[FBytes 1 (enc_fields std_wire [FVarint 3 7, FVarint 6 2]),
       FBytes 1 (enc_fields std_wire [FVarint 3 8])]" "[[FVarint 3 7, FVarint 6 2], [FVarint 3 8]]",
       OF _ _ _ ex_net_answers l] f
  show ?thesis by (simp add: valid_num_def at_defs digits_eval spec_channel_def del: enc_fields_simps)
qed

text \<open>C38. The RPC calls always return: whatever bytes the server sends, however malformed, listing
  clans, listing channels and reading the account end with a value or an error.\<close>

theorem rest_calls_return:
  assumes "wire w"
  shows "(\<exists>r. ListClans net w c base tok = Some r) \<and> (\<exists>r. ListChannels net w c base tok clan = Some r) \<and>
    (\<exists>r. GetAccount net w c base tok = Some r)"
proof -
  note t = wire.eachRepeated_total [OF assms, of "add_clan w", OF wire.add_clan_total [OF assms]]
    wire.eachRepeated_total [OF assms, of "add_channel w", OF wire.add_channel_total [OF assms]]
    wire.walkFields_total [OF assms, of "account_visit w", OF wire.account_visit_total [OF assms]]
  have "\<exists>r. accountFromWire w b = Some r" for b using t(3) [of b Account0] by (auto simp: accountFromWire_def)
  moreover have "\<exists>r. ListClans net w c base tok = Some r"
    using t(1) by (auto simp: ListClans_def split: sum.splits)
  moreover have "\<exists>r. ListChannels net w c base tok clan = Some r"
    using t(2) by (auto simp: ListChannels_def Let_def split: sum.splits prod.splits option.splits)
  ultimately show ?thesis by (auto simp: GetAccount_def Let_def split: option.splits)
qed

lemma rest_calls_return_witness:
  "\<exists>r. GetAccount (ex_net [10, 200]) std_wire \<lparr>basePath = ''u''\<rparr> '''' ''t'' = Some r"
  using rest_calls_return [OF std.wire_axioms] by blast

text \<open>The account is read from the user messages of the response: the id only from a varint,
  the names only from strings, the last occurrence of each.\<close>

theorem accountFromWire_correct:
  assumes "wire w" "\<forall>f \<in> set fs. field_ok f" "bytes_at 1 fs = map (enc_fields w) items"
    and "\<forall>it \<in> set items. \<forall>f \<in> set it. field_ok f"
  shows "accountFromWire w (enc_fields w fs) = Some (Inr
    \<lparr>ac_UserID = last_or '''' (map FormatUint (varints_at 1 (concat items))),
     ac_Username = last_or '''' (map bytes_str (bytes_at 2 (concat items))),
     ac_DisplayName = last_or '''' (map bytes_str (bytes_at 3 (concat items)))\<rparr>)"
  using wire.account_fields [OF assms] by (simp add: spec_account_def ids_at_def text_at_def)

lemma accountFromWire_correct_witness:
  "accountFromWire std_wire (enc_fields std_wire [FBytes 1 (enc_fields std_wire [FVarint 1 7, FBytes 2 [98]])]) =
    Some (Inr \<lparr>ac_UserID = ''7'', ac_Username = ''b'', ac_DisplayName = ''''\<rparr>)"
proof -
  have f: "fits (enc_fields std_wire [FVarint 1 7, FBytes 2 [98]])" by (simp add: frame_eval)
  from accountFromWire_correct [OF std.wire_axioms, of
      "[FBytes 1 (enc_fields std_wire [FVarint 1 7, FBytes 2 [98]])]" "[[FVarint 1 7, FBytes 2 [98]]]"] f
  show ?thesis by (simp add: valid_num_def fits_def [of "[98]"] at_defs digits_eval bytes_str_def char_of_eq_iff del: enc_fields_simps)
qed

end
