(* ===== verification/Store_Spec.thy ===== *)
theory Store_Spec
  imports Bot_Types
begin

text \<open>
  The interface \<open>state.Store\<close>: its operations as a record of functions on the state of the
  world behind it, and what a client such as the poller may rely on, as the locale
  \<open>msg_store\<close>.  What an answer means is said of calls that succeed; what a call may change is said
  of every call, since one that fails may have done part of its work.
\<close>

datatype store_err = StoreErr string

record 'w Store =
  st_Seen :: "string \<Rightarrow> string \<Rightarrow> 'w \<Rightarrow> 'w \<times> (store_err + bool)"
  st_Channels :: "string \<Rightarrow> 'w \<Rightarrow> 'w \<times> (store_err + string list)"
  st_AddChannel :: "string \<Rightarrow> string \<Rightarrow> 'w \<Rightarrow> 'w \<times> store_err option"
  st_Cursor :: "string \<Rightarrow> string \<Rightarrow> 'w \<Rightarrow> 'w \<times> (store_err + string)"
  st_SetCursor :: "string \<Rightarrow> string \<Rightarrow> string \<Rightarrow> 'w \<Rightarrow> 'w \<times> store_err option"
  st_BumpActivity :: "string \<Rightarrow> 'w \<Rightarrow> 'w \<times> store_err option"
  st_Activity :: "string \<Rightarrow> 'w \<Rightarrow> 'w \<times> (store_err + int \<times> int)"
  st_Tier :: "string \<Rightarrow> 'w \<Rightarrow> 'w \<times> tier \<times> store_err option"
  st_SetTier :: "string \<Rightarrow> tier \<Rightarrow> 'w \<Rightarrow> 'w \<times> store_err option"

locale msg_store =
  fixes st :: "'w Store"
    and seen :: "'w \<Rightarrow> string \<Rightarrow> string set"
    and cur :: "'w \<Rightarrow> string \<Rightarrow> string \<Rightarrow> string"
    and cap :: nat
  assumes seen_result: "st_Seen st i m w = (w', Inr b) \<Longrightarrow> b \<longleftrightarrow> m \<noteq> '''' \<and> m \<in> seen w i"
    and seen_forget: "st_Seen st i m w = (w', r) \<Longrightarrow> seen w' i \<subseteq> insert m (seen w i)"
    and seen_grow: "st_Seen st i m w = (w', r) \<Longrightarrow> card (seen w i) < cap \<Longrightarrow> seen w i \<subseteq> seen w' i"
    and seen_finite: "finite (seen w i)"
    and seen_keep: "st_Seen st i m w = (w', Inr b) \<Longrightarrow> m \<noteq> '''' \<Longrightarrow> card (seen w i) < cap \<Longrightarrow>
        seen w' i = insert m (seen w i)"
    and seen_cap: "st_Seen st i m w = (w', Inr b) \<Longrightarrow> card (seen w i) \<le> cap \<Longrightarrow> card (seen w' i) \<le> cap"
    and seen_same: "st_Seen st i m w = (w', Inr b) \<Longrightarrow> b \<or> m = '''' \<Longrightarrow> seen w' i = seen w i"
    and seen_cur: "st_Seen st i m w = (w', r) \<Longrightarrow> cur w' = cur w"
    and seen_other: "st_Seen st i m w = (w', r) \<Longrightarrow> i' \<noteq> i \<Longrightarrow> seen w' i' = seen w i'"
    and cursor_get: "st_Cursor st i c w = (w', Inr v) \<Longrightarrow> v = cur w i c"
    and cursor_frame: "st_Cursor st i c w = (w', x) \<Longrightarrow> cur w' = cur w \<and> seen w' = seen w"
    and cursor_set: "st_SetCursor st i c v w = (w', e) \<Longrightarrow> seen w' = seen w \<and>
        (cur w' = (\<lambda>i' c'. if i' = i \<and> c' = c then v else cur w i' c') \<or> e \<noteq> None \<and> cur w' = cur w)"
    and channels_frame: "st_Channels st i w = (w', y) \<Longrightarrow> cur w' = cur w \<and> seen w' = seen w"
    and bump_frame: "cur (fst (st_BumpActivity st i w)) = cur w \<and> seen (fst (st_BumpActivity st i w)) = seen w"
    and add_frame: "cur (fst (st_AddChannel st i c w)) = cur w \<and> seen (fst (st_AddChannel st i c w)) = seen w"
begin

text \<open>Asking twice about the same id: the second answer is yes.\<close>

lemma seen_twice:
  assumes "st_Seen st i m w = (w1, Inr b1)" "st_Seen st i m w1 = (w2, Inr b2)"
    and "m \<noteq> ''''" "card (seen w i) < cap"
  shows "b2"
  using seen_result [OF assms(2)] seen_keep [OF assms(1,3,4)] assms(3) by blast

lemma seen_card:
  assumes "st_Seen st i m w = (w', r)"
  shows "card (seen w' i) \<le> card (seen w i) + 1"
proof -
  have "card (seen w' i) \<le> card (insert m (seen w i))"
    using seen_forget [OF assms] seen_finite by (intro card_mono) auto
  then show ?thesis using seen_finite [of w i] by (auto simp: card_insert_if split: if_splits)
qed

end

end
