(* ===== verification/Poller.thy ===== *)
theory Poller
  imports Store_Spec
begin

text \<open>
  \<open>lib/poller/poller.go\<close>: polling the channels of one bot.  The REST lister, the store, the
  rate limiter and the message handler are the fields of the poller, each a function on the
  state \<open>'w\<close> of the world; the messages handed to the handler are also recorded, in order.
  A panic of the handler is recovered by \<open>emit\<close>, so the handler always hands back a world.
\<close>

datatype poll_err = PollStore store_err | PollWait

record 'w Poller =
  lister :: "string \<Rightarrow> string \<Rightarrow> string \<Rightarrow> string \<Rightarrow> i32 \<Rightarrow> 'w \<Rightarrow> 'w \<times> Message list \<times> string \<times> bool"
  store :: "'w Store"
  onMessage :: "(BotRef \<Rightarrow> Message \<Rightarrow> 'w \<Rightarrow> 'w) option"
  limiter_Wait :: "'w \<Rightarrow> 'w \<times> bool"
  p_rps :: int
  p_workers :: int
  pageLimit :: i32

definition New_Poller :: "(string \<Rightarrow> string \<Rightarrow> string \<Rightarrow> string \<Rightarrow> i32 \<Rightarrow> 'w \<Rightarrow> 'w \<times> Message list \<times> string \<times> bool) \<Rightarrow>
    'w Store \<Rightarrow> (BotRef \<Rightarrow> Message \<Rightarrow> 'w \<Rightarrow> 'w) option \<Rightarrow> (int \<Rightarrow> 'w \<Rightarrow> 'w \<times> bool) \<Rightarrow> int \<Rightarrow> int \<Rightarrow> i32 \<Rightarrow> 'w Poller" where
  "New_Poller l st h mk rps workers page =
     (let workers = (if workers \<le> 0 then 8 else workers);
          rps = (if rps \<le> 0 then 50 else rps);
          page = (if sint page \<le> 0 then 20 else page)
      in \<lparr>lister = l, store = st, onMessage = h, limiter_Wait = mk rps, p_rps = rps, p_workers = workers,
          pageLimit = page\<rparr>)"

text \<open>What one poll has done so far: the world, the count and the messages emitted.\<close>

record 'w poll_state =
  ps_w :: 'w
  found :: int
  emitted :: "Message list"

definition poll_emit :: "'w Poller \<Rightarrow> BotRef \<Rightarrow> Message \<Rightarrow> 'w poll_state \<Rightarrow> 'w poll_state" where
  "poll_emit p br m s = (case onMessage p of
       None \<Rightarrow> s
     | Some h \<Rightarrow> s\<lparr>ps_w := h br m (ps_w s), emitted := emitted s @ [m]\<rparr>)"

fun poll_page :: "'w Poller \<Rightarrow> BotRef \<Rightarrow> Message list \<Rightarrow> 'w poll_state \<Rightarrow> 'w poll_state \<times> poll_err option" where
  "poll_page p br [] s = (s, None)"
| "poll_page p br (m # ms) s =
     (if SenderID m = BotUserID br then poll_page p br ms s
      else (case st_Seen (store p) (KeyID br) (MessageID m) (ps_w s) of
          (w, Inl e) \<Rightarrow> (s\<lparr>ps_w := w\<rparr>, Some (PollStore e))
        | (w, Inr True) \<Rightarrow> poll_page p br ms (s\<lparr>ps_w := w\<rparr>)
        | (w, Inr False) \<Rightarrow> poll_page p br ms (poll_emit p br m (s\<lparr>ps_w := w, found := found s + 1\<rparr>))))"

fun poll_channels :: "'w Poller \<Rightarrow> BotRef \<Rightarrow> string \<Rightarrow> string list \<Rightarrow> 'w poll_state \<Rightarrow>
    'w poll_state \<times> poll_err option" where
  "poll_channels p br token [] s = (s, None)"
| "poll_channels p br token (ch # chs) s =
     (case limiter_Wait p (ps_w s) of
        (w, False) \<Rightarrow> (s\<lparr>ps_w := w\<rparr>, Some PollWait)
      | (w, True) \<Rightarrow>
     (case st_Cursor (store p) (KeyID br) ch w of
        (w, Inl e) \<Rightarrow> (s\<lparr>ps_w := w\<rparr>, Some (PollStore e))
      | (w, Inr cursor) \<Rightarrow>
     (case lister p token ch '''' cursor (pageLimit p) w of
        (w, msgs, newCursor, True) \<Rightarrow> poll_channels p br token chs (s\<lparr>ps_w := w\<rparr>)
      | (w, msgs, newCursor, False) \<Rightarrow>
     (case poll_page p br msgs (s\<lparr>ps_w := w\<rparr>) of
        (s', Some e) \<Rightarrow> (s', Some e)
      | (s', None) \<Rightarrow>
          if newCursor \<noteq> '''' \<and> newCursor \<noteq> cursor
          then (case st_SetCursor (store p) (KeyID br) ch newCursor (ps_w s') of
                  (w, Some e) \<Rightarrow> (s'\<lparr>ps_w := w\<rparr>, Some (PollStore e))
                | (w, None) \<Rightarrow> poll_channels p br token chs (s'\<lparr>ps_w := w\<rparr>))
          else poll_channels p br token chs s'))))"

definition PollOnce :: "'w Poller \<Rightarrow> BotRef \<Rightarrow> string \<Rightarrow> 'w \<Rightarrow> 'w poll_state \<times> poll_err option" where
  "PollOnce p br token w =
     (case st_Channels (store p) (KeyID br) w of
        (w, Inl e) \<Rightarrow> (\<lparr>ps_w = w, found = 0, emitted = []\<rparr>, Some (PollStore e))
      | (w, Inr channels) \<Rightarrow>
          (case poll_channels p br token channels \<lparr>ps_w = w, found = 0, emitted = []\<rparr> of
             (s, Some e) \<Rightarrow> (s, Some e)
           | (s, None) \<Rightarrow>
               (if found s > 0 then s\<lparr>ps_w := fst (st_BumpActivity (store p) (KeyID br) (ps_w s))\<rparr> else s, None)))"

section \<open>The worker pool\<close>

text \<open>\<open>Submit\<close> on a pool of \<open>workers\<close> slots of which \<open>used\<close> are taken: it starts the poll, gives
  up because the context is done, or waits.  When it could do both, Go picks either.\<close>

datatype submit_outcome = Started nat | Cancelled | Waiting

inductive Submit :: "nat \<Rightarrow> bool \<Rightarrow> nat \<Rightarrow> submit_outcome \<Rightarrow> bool" for workers ctx_done where
  submit_start: "used < workers \<Longrightarrow> Submit workers ctx_done used (Started (Suc used))"
| submit_cancel: "ctx_done \<Longrightarrow> Submit workers ctx_done used Cancelled"
| submit_wait: "\<not> used < workers \<Longrightarrow> \<not> ctx_done \<Longrightarrow> Submit workers ctx_done used Waiting"

inductive_cases Submit_StartedE: "Submit workers ctx_done used (Started n)"
inductive_cases Submit_WaitingE: "Submit workers ctx_done used Waiting"

text \<open>The goroutine of a started poll: poll, report the count, give the slot back.\<close>

definition run_job :: "'w Poller \<Rightarrow> BotRef \<Rightarrow> string \<Rightarrow> (int \<Rightarrow> 'w \<Rightarrow> 'w) option \<Rightarrow> nat \<Rightarrow> 'w \<Rightarrow> 'w \<times> nat \<times> Message list" where
  "run_job p br token done used w =
     (case PollOnce p br token w of
        (s, _) \<Rightarrow> ((case done of None \<Rightarrow> ps_w s | Some f \<Rightarrow> f (found s) (ps_w s)), used - 1, emitted s))"

end
