(* ===== verification/Go_Scan.thy ===== *)
theory Go_Scan
  imports Go_Strconv
begin

text \<open>
  \<open>fmt.Sscan\<close> into an \<open>int64\<close>, as \<open>asInt\<close> of \<open>lib/state/state.go\<close> uses it: skip white space,
  take a sign, a base prefix and the digits that follow, and parse them as
  \<open>strconv.ParseInt(token, 0, 64)\<close> does.  The variable keeps its 0 when anything fails.
\<close>

section \<open>White space\<close>

definition nth_byte :: "string \<Rightarrow> nat \<Rightarrow> nat" where
  "nth_byte s n = (if n < length s then of_char (s ! n) else 0)"

text \<open>The length of the space character the string starts with, in UTF-8.\<close>

definition space_len :: "string \<Rightarrow> nat" where
  "space_len s = (let b0 = nth_byte s 0; b1 = nth_byte s 1; b2 = nth_byte s 2 in
     if 9 \<le> b0 \<and> b0 \<le> 13 \<or> b0 = 32 then 1
     else if b0 = 0xC2 \<and> (b1 = 0x85 \<or> b1 = 0xA0) then 2
     else if b0 = 0xE1 \<and> b1 = 0x9A \<and> b2 = 0x80 \<or>
       b0 = 0xE2 \<and> b1 = 0x80 \<and> (0x80 \<le> b2 \<and> b2 \<le> 0x8A \<or> b2 = 0xA8 \<or> b2 = 0xA9 \<or> b2 = 0xAF) \<or>
       b0 = 0xE2 \<and> b1 = 0x81 \<and> b2 = 0x9F \<or> b0 = 0xE3 \<and> b1 = 0x80 \<and> b2 = 0x80 then 3
     else 0)"

lemma space_len_Nil [simp]: "space_len [] = 0"
  by (simp add: space_len_def nth_byte_def)

lemma space_len_shorter: "space_len s \<noteq> 0 \<Longrightarrow> length (drop (space_len s) s) < length s"
  by (cases s) auto

function SkipSpace :: "string \<Rightarrow> string" where
  "SkipSpace s = (if space_len s = 0 then s else SkipSpace (drop (space_len s) s))"
  by pat_completeness auto
termination
  by (relation "measure length") (use space_len_shorter in \<open>auto simp del: length_drop\<close>)

declare SkipSpace.simps [simp del]

section \<open>The token\<close>

definition lower_byte :: "char \<Rightarrow> nat" where
  "lower_byte c = (let n = of_char c in if 65 \<le> n \<and> n \<le> 90 then n + 32 else n)"

text \<open>The value of a digit, 36 and more for what is none.\<close>

definition digit_value :: "char \<Rightarrow> nat" where
  "digit_value c = (let n = lower_byte c in
     if 48 \<le> n \<and> n \<le> 57 then n - 48 else if 97 \<le> n \<and> n \<le> 122 then n - 97 + 10 else 36)"

definition base_digit :: "nat \<Rightarrow> char \<Rightarrow> bool" where
  "base_digit b c \<longleftrightarrow> c = CHR ''_'' \<or> digit_value c < b"

text \<open>The base a letter after a leading 0 chooses.\<close>

definition prefix_base :: "char \<Rightarrow> nat option" where
  "prefix_base c = (let n = lower_byte c in
     if n = 98 then Some 2 else if n = 111 then Some 8 else if n = 120 then Some 16 else None)"

definition split_sign :: "string \<Rightarrow> string \<times> string" where
  "split_sign s = (case s of c # cs \<Rightarrow> if c = CHR ''+'' \<or> c = CHR ''-'' then ([c], cs) else ([], s) | [] \<Rightarrow> ([], []))"

definition scan_number :: "string \<Rightarrow> string option" where
  "scan_number s = (case s of
       [] \<Rightarrow> None
     | z # cs \<Rightarrow>
         if z = CHR ''0'' then
           (case cs of
              [] \<Rightarrow> Some [z]
            | p # ds \<Rightarrow> (case prefix_base p of
                Some b \<Rightarrow> Some (z # p # takeWhile (base_digit b) ds)
              | None \<Rightarrow> Some (z # takeWhile (base_digit 8) cs)))
         else if base_digit 10 z then Some (takeWhile (base_digit 10) s)
         else None)"

section \<open>\<open>ParseInt(token, 0, 64)\<close>\<close>

fun digits_value :: "nat \<Rightarrow> nat \<Rightarrow> string \<Rightarrow> nat option" where
  "digits_value b n [] = Some n"
| "digits_value b n (c # cs) =
     (if c = CHR ''_'' then digits_value b n cs
      else if digit_value c < b then digits_value b (n * b + digit_value c) cs else None)"

text \<open>Underscores stand after a digit or the prefix and before a digit.\<close>

fun underscores_ok :: "bool \<Rightarrow> bool \<Rightarrow> string \<Rightarrow> bool" where
  "underscores_ok digit start [] = (digit \<or> start)"
| "underscores_ok digit start (c # cs) =
     (if c = CHR ''_'' then digit \<and> underscores_ok False False cs else underscores_ok True False cs)"

definition parse_base0 :: "string \<Rightarrow> nat option" where
  "parse_base0 s = (case s of
       [] \<Rightarrow> None
     | z # cs \<Rightarrow>
         if z \<noteq> CHR ''0'' then (if underscores_ok False True s then digits_value 10 0 s else None)
         else (case cs of
             p # d # ds \<Rightarrow> (case prefix_base p of
                 Some b \<Rightarrow> (if underscores_ok True False (d # ds) then digits_value b 0 (d # ds) else None)
               | None \<Rightarrow> (if underscores_ok True False cs then digits_value 8 0 cs else None))
           | _ \<Rightarrow> (if underscores_ok True False cs then digits_value 8 0 cs else None)))"

definition Sscan_int64 :: "string \<Rightarrow> int" where
  "Sscan_int64 s = (case split_sign (SkipSpace s) of (sign, rest) \<Rightarrow>
     (case scan_number rest of
        None \<Rightarrow> 0
      | Some token \<Rightarrow> (case parse_base0 token of
            None \<Rightarrow> 0
          | Some n \<Rightarrow>
              if sign = ''-'' then (if n \<le> 9223372036854775808 then - int n else 0)
              else (if n \<le> 9223372036854775807 then int n else 0))))"

section \<open>It reads back what \<open>FormatInt\<close> writes\<close>

lemma of_digit_char: "d < 10 \<Longrightarrow> (of_char (digit_char d) :: nat) = 48 + d"
  by (simp add: digit_char_def)

lemma digit_char_no:
  assumes "d < 10" "\<not> (48 \<le> (of_char c :: nat) \<and> (of_char c :: nat) \<le> 57)"
  shows "digit_char d \<noteq> c"
  using of_digit_char [OF assms(1)] assms by auto

lemma digit_char_facts:
  assumes "d < 10"
  shows "digit_value (digit_char d) = d" "digit_char d \<noteq> CHR ''_''" "digit_char d \<noteq> CHR ''+''"
    "digit_char d \<noteq> CHR ''-''" "space_len (digit_char d # cs) = 0"
  using assms
  by (simp_all add: digit_value_def lower_byte_def of_digit_char Let_def digit_char_no space_len_def nth_byte_def)

lemma digit_char_zero: "d < 10 \<Longrightarrow> digit_char d = CHR ''0'' \<longleftrightarrow> d = 0"
proof
  assume "d < 10" "digit_char d = CHR ''0''"
  then show "d = 0" using of_digit_char [of d] by simp
qed (simp add: digit_chars)

definition plain_digits :: "string \<Rightarrow> bool" where
  "plain_digits s \<longleftrightarrow> (\<forall>c \<in> set s. \<exists>d < 10. c = digit_char d)"

lemma dec_digits_plain: "plain_digits (dec_digits n)"
proof (induction n rule: dec_digits.induct)
  case (1 n)
  show ?case
  proof (cases "n < 10")
    case False
    have "\<exists>d < 10. digit_char (n mod 10) = digit_char d" by (rule exI [of _ "n mod 10"]) simp
    then show ?thesis using False 1 by (simp add: dec_digits.simps [of n] plain_digits_def ball_Un)
  qed (auto simp: dec_digits.simps [of n] plain_digits_def)
qed

lemma dec_digits_head_zero: "hd (dec_digits n) = CHR ''0'' \<longleftrightarrow> n = 0"
proof (induction n rule: dec_digits.induct)
  case (1 n)
  then show ?case
    by (cases "n < 10") (simp_all add: dec_digits.simps [of n] digit_char_zero)
qed

lemma digits_value_append:
  "digits_value b n (xs @ ys) = (case digits_value b n xs of None \<Rightarrow> None | Some v \<Rightarrow> digits_value b v ys)"
  by (induction b n xs rule: digits_value.induct) auto

lemma digits_value_dec: "digits_value 10 0 (dec_digits n) = Some n"
proof (induction n rule: dec_digits.induct)
  case (1 n)
  then show ?case
    by (cases "n < 10") (simp_all add: dec_digits.simps [of n] digits_value_append digit_char_facts)
qed

lemma plain_digits_scan:
  assumes "plain_digits s"
  shows "takeWhile (base_digit 10) s = s" "underscores_ok b (\<not> b) s"
proof -
  show "takeWhile (base_digit 10) s = s"
    using assms by (intro takeWhile_eq_all_conv [THEN iffD2]) (auto simp: plain_digits_def base_digit_def digit_char_facts)
  have "underscores_ok a c s" if "a \<or> c" for a c
    using assms that by (induction s arbitrary: a c) (auto simp: plain_digits_def digit_char_facts)
  then show "underscores_ok b (\<not> b) s" by simp
qed

lemma scan_dec_digits: "scan_number (dec_digits n) = Some (dec_digits n)" "parse_base0 (dec_digits n) = Some n"
proof -
  obtain c cs where c: "dec_digits n = c # cs" by (cases "dec_digits n") auto
  have p: "plain_digits (c # cs)" using dec_digits_plain [of n] c by simp
  then obtain d where d: "d < 10" "c = digit_char d" by (auto simp: plain_digits_def)
  have z: "c = CHR ''0'' \<longleftrightarrow> n = 0" using dec_digits_head_zero [of n] c by simp
  have n0: "cs = []" if "n = 0" using c that by (simp add: dec_digits_zero)
  have v: "digits_value 10 0 (c # cs) = Some n" using digits_value_dec [of n] c by simp
  show "scan_number (dec_digits n) = Some (dec_digits n)"
    using plain_digits_scan(1) [OF p] n0 z d unfolding c scan_number_def
    by (cases "n = 0") (auto simp: base_digit_def digit_char_facts split: list.splits if_splits)
  show "parse_base0 (dec_digits n) = Some n"
    using plain_digits_scan(2) [OF p, of False] n0 z v unfolding c parse_base0_def
    by (cases "n = 0") auto
qed

lemma Sscan_FormatInt:
  assumes "min_int64 \<le> n" "n \<le> max_int64"
  shows "Sscan_int64 (FormatInt n) = n"
proof -
  obtain c cs where c: "dec_digits (nat \<bar>n\<bar>) = c # cs" by (cases "dec_digits (nat \<bar>n\<bar>)") auto
  then obtain d where d: "d < 10" "c = digit_char d"
    using dec_digits_plain [of "nat \<bar>n\<bar>"] by (auto simp: plain_digits_def)
  have s: "SkipSpace (c # cs) = c # cs" using d by (simp add: SkipSpace.simps digit_char_facts)
  have m: "SkipSpace (CHR ''-'' # c # cs) = CHR ''-'' # c # cs"
    by (subst SkipSpace.simps) (simp add: space_len_def nth_byte_def)
  note r = scan_dec_digits [of "nat \<bar>n\<bar>"]
  show ?thesis
  proof (cases "n < 0")
    case True
    then have "FormatInt n = CHR ''-'' # c # cs" using c by (simp add: FormatInt_def)
    then show ?thesis using True r m c assms by (simp add: Sscan_int64_def split_sign_def nat_le_iff)
  next
    case False
    then have "FormatInt n = c # cs" using c by (simp add: FormatInt_def)
    then show ?thesis using False r s c d assms
      by (simp add: Sscan_int64_def split_sign_def digit_char_facts nat_le_iff)
  qed
qed

end
