(* ===== verification/Redis_State.thy ===== *)
theory Redis_State
  imports Go_Scan Store_Spec "HOL-Library.AList"
begin

text \<open>
  \<open>lib/state/state.go\<close>: the per-bot state kept in Redis.  The Redis server behind go-redis is
  a parameter: \<open>rdb r t cmds\<close> runs the commands of one call or pipeline at server time \<open>t\<close>
  and answers their replies or an error.  The locale \<open>redis\<close> says what the documented
  commands do, on an abstract database; a failed call may have run a prefix of its commands.
  Each operation of \<open>RedisStore\<close> is written as the code has it, over any \<open>rdb\<close>.
\<close>

section \<open>Commands and what they mean\<close>

datatype cmd =
    ZAddNX string real string
  | ZRemRangeByRank string int int
  | Expire string duration
  | SMembers string
  | SAdd string string
  | HGet string string
  | HSet string string string
  | HIncrBy string string int
  | HMGet string "string list"

datatype reply =
    RInt int
  | RList "string list"
  | RStr "string option"
  | RVals "string option list"
  | RErr

record db =
  dz :: "string \<Rightarrow> (string \<times> real) list"
  ds :: "string \<Rightarrow> string list"
  dh :: "string \<Rightarrow> (string \<times> string) list"
  dl :: "string \<Rightarrow> go_time option"

fun str_less :: "string \<Rightarrow> string \<Rightarrow> bool" where
  "str_less xs [] = False"
| "str_less [] (y # ys) = True"
| "str_less (x # xs) (y # ys) =
     ((of_char x :: nat) < of_char y \<or> x = y \<and> str_less xs ys)"

text \<open>Members of a sorted set stand in order of score, then of name.\<close>

fun zinsert :: "string \<times> real \<Rightarrow> (string \<times> real) list \<Rightarrow> (string \<times> real) list" where
  "zinsert p [] = [p]"
| "zinsert p (q # qs) = (if snd p < snd q \<or> snd p = snd q \<and> str_less (fst p) (fst q)
     then p # q # qs else q # zinsert p qs)"

definition zremrank :: "int \<Rightarrow> int \<Rightarrow> 'a list \<Rightarrow> 'a list" where
  "zremrank start stop zs =
     (let n = int (length zs);
          a = max 0 (if start < 0 then start + n else start);
          b = min (n - 1) (if stop < 0 then stop + n else stop)
      in if a > b \<or> a \<ge> n then zs else take (nat a) zs @ drop (nat (b + 1)) zs)"

definition live :: "go_time \<Rightarrow> db \<Rightarrow> string \<Rightarrow> bool" where
  "live t d key = (case dl d key of None \<Rightarrow> True | Some e \<Rightarrow> t < e)"

definition drop_key :: "db \<Rightarrow> string \<Rightarrow> db" where
  "drop_key d key = d\<lparr>dz := (dz d)(key := []), ds := (ds d)(key := []), dh := (dh d)(key := []),
     dl := (dl d)(key := None)\<rparr>"

definition present :: "db \<Rightarrow> string \<Rightarrow> bool" where
  "present d key \<longleftrightarrow> dz d key \<noteq> [] \<or> ds d key \<noteq> [] \<or> dh d key \<noteq> []"

text \<open>go-redis sends whole seconds, at least one.\<close>

definition expire_after :: "duration \<Rightarrow> duration" where
  "expire_after d = max second (d div second * second)"

text \<open>A value Redis takes as an integer: the shortest decimal form, nothing else.\<close>

definition dec_int :: "string \<Rightarrow> int option" where
  "dec_int s = (let n = Sscan_int64 s in if s = FormatInt n then Some n else None)"

fun cmd_key :: "cmd \<Rightarrow> string" where
  "cmd_key (ZAddNX key _ _) = key"
| "cmd_key (ZRemRangeByRank key _ _) = key"
| "cmd_key (Expire key _) = key"
| "cmd_key (SMembers key) = key"
| "cmd_key (SAdd key _) = key"
| "cmd_key (HGet key _) = key"
| "cmd_key (HSet key _ _) = key"
| "cmd_key (HIncrBy key _ _) = key"
| "cmd_key (HMGet key _) = key"

fun run_live :: "go_time \<Rightarrow> db \<Rightarrow> cmd \<Rightarrow> db \<times> reply" where
  "run_live t d (ZAddNX key sc m) =
     (if m \<in> set (map fst (dz d key)) then (d, RInt 0)
      else (d\<lparr>dz := (dz d)(key := zinsert (m, sc) (dz d key))\<rparr>, RInt 1))"
| "run_live t d (ZRemRangeByRank key a b) =
     (let zs = zremrank a b (dz d key) in
      (d\<lparr>dz := (dz d)(key := zs)\<rparr>, RInt (int (length (dz d key)) - int (length zs))))"
| "run_live t d (Expire key dur) =
     (if present d key then (d\<lparr>dl := (dl d)(key \<mapsto> t + expire_after dur)\<rparr>, RInt 1) else (d, RInt 0))"
| "run_live t d (SMembers key) = (d, RList (ds d key))"
| "run_live t d (SAdd key m) =
     (if m \<in> set (ds d key) then (d, RInt 0)
      else (d\<lparr>ds := (ds d)(key := ds d key @ [m])\<rparr>, RInt 1))"
| "run_live t d (HGet key f) = (d, RStr (map_of (dh d key) f))"
| "run_live t d (HSet key f v) =
     (d\<lparr>dh := (dh d)(key := AList.update f v (dh d key))\<rparr>,
      RInt (if map_of (dh d key) f = None then 1 else 0))"
| "run_live t d (HIncrBy key f i) =
     (case (case map_of (dh d key) f of None \<Rightarrow> Some 0 | Some v \<Rightarrow> dec_int v) of
        None \<Rightarrow> (d, RErr)
      | Some n \<Rightarrow> if n + i < min_int64 \<or> max_int64 < n + i then (d, RErr)
          else (d\<lparr>dh := (dh d)(key := AList.update f (FormatInt (n + i)) (dh d key))\<rparr>, RInt (n + i)))"
| "run_live t d (HMGet key fs) = (d, RVals (map (map_of (dh d key)) fs))"

definition run_cmd :: "go_time \<Rightarrow> db \<Rightarrow> cmd \<Rightarrow> db \<times> reply" where
  "run_cmd t d c = run_live t (if live t d (cmd_key c) then d else drop_key d (cmd_key c)) c"

fun run_cmds :: "go_time \<Rightarrow> db \<Rightarrow> cmd list \<Rightarrow> db \<times> reply list" where
  "run_cmds t d [] = (d, [])"
| "run_cmds t d (c # cs) =
     (case run_cmd t d c of (d', r) \<Rightarrow> (case run_cmds t d' cs of (d'', rs) \<Rightarrow> (d'', r # rs)))"

type_synonym 'r rdb = "'r \<Rightarrow> go_time \<Rightarrow> cmd list \<Rightarrow> 'r \<times> (store_err + reply list)"

section \<open>The store\<close>

record RedisStore =
  ttl :: duration
  dedupCap :: int

definition NewRedisStore :: "duration \<Rightarrow> int \<Rightarrow> RedisStore" where
  "NewRedisStore t c = \<lparr>ttl = (if t \<le> 0 then 30 * 24 * 60 * minute else t),
     dedupCap = (if c \<le> 0 then 2048 else c)\<rparr>"

definition redis_key :: "string \<Rightarrow> string \<Rightarrow> string" where
  "redis_key keyID suffix = ''mzbot:'' @ keyID @ '':'' @ suffix"

text \<open>The replies the code picks apart; a reply of another shape cannot come from the command.\<close>

definition reply_int :: "reply list \<Rightarrow> int" where
  "reply_int rs = (case rs of RInt i # _ \<Rightarrow> i | _ \<Rightarrow> 0)"

definition reply_list :: "reply list \<Rightarrow> string list" where
  "reply_list rs = (case rs of RList xs # _ \<Rightarrow> xs | _ \<Rightarrow> [])"

definition reply_str :: "reply list \<Rightarrow> string option" where
  "reply_str rs = (case rs of RStr x # _ \<Rightarrow> x | _ \<Rightarrow> None)"

definition reply_vals :: "reply list \<Rightarrow> string option list" where
  "reply_vals rs = (case rs of RVals xs # _ \<Rightarrow> xs | _ \<Rightarrow> [])"

text \<open>\<open>now\<close> is the client's clock, \<open>t1\<close> and \<open>t2\<close> the server's at the two calls; \<open>rnd\<close> rounds
  the nanoseconds to a \<open>float64\<close>.\<close>

definition Seen :: "(real \<Rightarrow> real) \<Rightarrow> 'r rdb \<Rightarrow> RedisStore \<Rightarrow> go_time \<Rightarrow> go_time \<Rightarrow> go_time \<Rightarrow>
    string \<Rightarrow> string \<Rightarrow> 'r \<Rightarrow> 'r \<times> (store_err + bool)" where
  "Seen rnd rdb s now t1 t2 keyID msgID r =
     (if msgID = '''' then (r, Inr False)
      else
        (let key = redis_key keyID ''dedup''; score = rnd (real_of_int now) in
         (case rdb r t1 [ZAddNX key score msgID] of
            (r1, Inl e) \<Rightarrow> (r1, Inl e)
          | (r1, Inr added) \<Rightarrow>
              if reply_int added = 0 then (r1, Inr True)
              else (case rdb r1 t2 [ZRemRangeByRank key 0 (- dedupCap s - 1), Expire key (ttl s)] of
                  (r2, Inl e) \<Rightarrow> (r2, Inl e)
                | (r2, Inr _) \<Rightarrow> (r2, Inr False)))))"

definition Channels :: "'r rdb \<Rightarrow> go_time \<Rightarrow> string \<Rightarrow> 'r \<Rightarrow> 'r \<times> (store_err + string list)" where
  "Channels rdb t keyID r = (case rdb r t [SMembers (redis_key keyID ''chan'')] of
       (r', Inl e) \<Rightarrow> (r', Inl e) | (r', Inr rs) \<Rightarrow> (r', Inr (reply_list rs)))"

text \<open>The last result of a pipeline is its error, if any.\<close>

definition pipeline :: "'r rdb \<Rightarrow> go_time \<Rightarrow> cmd list \<Rightarrow> 'r \<Rightarrow> 'r \<times> store_err option" where
  "pipeline rdb t cmds r = (case rdb r t cmds of (r', Inl e) \<Rightarrow> (r', Some e) | (r', Inr _) \<Rightarrow> (r', None))"

definition AddChannel :: "'r rdb \<Rightarrow> RedisStore \<Rightarrow> go_time \<Rightarrow> string \<Rightarrow> string \<Rightarrow> 'r \<Rightarrow> 'r \<times> store_err option" where
  "AddChannel rdb s t keyID channelID r =
     (if channelID = '''' then (r, None)
      else pipeline rdb t [SAdd (redis_key keyID ''chan'') channelID, Expire (redis_key keyID ''chan'') (ttl s)] r)"

definition Cursor :: "'r rdb \<Rightarrow> go_time \<Rightarrow> string \<Rightarrow> string \<Rightarrow> 'r \<Rightarrow> 'r \<times> (store_err + string)" where
  "Cursor rdb t keyID channelID r = (case rdb r t [HGet (redis_key keyID ''cur'') channelID] of
       (r', Inl e) \<Rightarrow> (r', Inl e)
     | (r', Inr rs) \<Rightarrow> (case reply_str rs of None \<Rightarrow> (r', Inr '''') | Some v \<Rightarrow> (r', Inr v)))"

definition SetCursor :: "'r rdb \<Rightarrow> RedisStore \<Rightarrow> go_time \<Rightarrow> string \<Rightarrow> string \<Rightarrow> string \<Rightarrow> 'r \<Rightarrow>
    'r \<times> store_err option" where
  "SetCursor rdb s t keyID channelID cursor r =
     pipeline rdb t [HSet (redis_key keyID ''cur'') channelID cursor, Expire (redis_key keyID ''cur'') (ttl s)] r"

text \<open>\<open>Time.Unix\<close>: seconds since 1970, on a clock that starts at year 1.\<close>

definition Unix :: "go_time \<Rightarrow> int" where
  "Unix t = t div second - 62135596800"

definition BumpActivity :: "'r rdb \<Rightarrow> RedisStore \<Rightarrow> go_time \<Rightarrow> string \<Rightarrow> go_time \<Rightarrow> 'r \<Rightarrow> 'r \<times> store_err option" where
  "BumpActivity rdb s t keyID bumped r =
     pipeline rdb t [HSet (redis_key keyID ''meta'') ''last'' (FormatInt (Unix bumped)),
       HIncrBy (redis_key keyID ''meta'') ''count'' 1, Expire (redis_key keyID ''meta'') (ttl s)] r"

text \<open>A nil reply is \<open>0\<close>; a string is scanned, and is \<open>0\<close> when the scan fails.\<close>

definition asInt :: "string option \<Rightarrow> int" where
  "asInt v = (case v of None \<Rightarrow> 0 | Some x \<Rightarrow> Sscan_int64 x)"

definition Activity :: "'r rdb \<Rightarrow> go_time \<Rightarrow> string \<Rightarrow> 'r \<Rightarrow> 'r \<times> (store_err + int \<times> int)" where
  "Activity rdb t keyID r = (case rdb r t [HMGet (redis_key keyID ''meta'') [''last'', ''count'']] of
       (r', Inl e) \<Rightarrow> (r', Inl e)
     | (r', Inr rs) \<Rightarrow> (r', Inr (asInt (reply_vals rs ! 0), asInt (reply_vals rs ! 1))))"

definition get_tier :: "'r rdb \<Rightarrow> go_time \<Rightarrow> string \<Rightarrow> 'r \<Rightarrow> 'r \<times> tier \<times> store_err option" where
  "get_tier rdb t keyID r = (case rdb r t [HGet (redis_key keyID ''meta'') ''tier''] of
       (r', Inl e) \<Rightarrow> (r', Cold, Some e)
     | (r', Inr rs) \<Rightarrow> (case reply_str rs of
           None \<Rightarrow> (r', Cold, None)
         | Some v \<Rightarrow> (r', (if v = ''hot'' then Hot else if v = ''warm'' then Warm else Cold), None)))"

definition SetTier :: "'r rdb \<Rightarrow> RedisStore \<Rightarrow> go_time \<Rightarrow> string \<Rightarrow> tier \<Rightarrow> 'r \<Rightarrow> 'r \<times> store_err option" where
  "SetTier rdb s t keyID tr r =
     pipeline rdb t [HSet (redis_key keyID ''meta'') ''tier'' (tier_String tr), Expire (redis_key keyID ''meta'') (ttl s)] r"

text \<open>The whole store, over a world that holds the database and the two clocks.\<close>

record 'r rworld =
  rw_r :: 'r
  rw_now :: go_time
  rw_srv :: go_time

definition on_r :: "('r \<Rightarrow> 'r \<times> 'a) \<Rightarrow> 'r rworld \<Rightarrow> 'r rworld \<times> 'a" where
  "on_r f w = (case f (rw_r w) of (r', x) \<Rightarrow> (w\<lparr>rw_r := r'\<rparr>, x))"

definition redis_store :: "(real \<Rightarrow> real) \<Rightarrow> 'r rdb \<Rightarrow> RedisStore \<Rightarrow> 'r rworld Store" where
  "redis_store rnd rdb s = \<lparr>
     st_Seen = (\<lambda>i m w. on_r (Seen rnd rdb s (rw_now w) (rw_srv w) (rw_srv w) i m) w),
     st_Channels = (\<lambda>i w. on_r (Channels rdb (rw_srv w) i) w),
     st_AddChannel = (\<lambda>i c w. on_r (AddChannel rdb s (rw_srv w) i c) w),
     st_Cursor = (\<lambda>i c w. on_r (Cursor rdb (rw_srv w) i c) w),
     st_SetCursor = (\<lambda>i c v w. on_r (SetCursor rdb s (rw_srv w) i c v) w),
     st_BumpActivity = (\<lambda>i w. on_r (BumpActivity rdb s (rw_srv w) i (rw_now w)) w),
     st_Activity = (\<lambda>i w. on_r (Activity rdb (rw_srv w) i) w),
     st_Tier = (\<lambda>i w. on_r (get_tier rdb (rw_srv w) i) w),
     st_SetTier = (\<lambda>i tr w. on_r (SetTier rdb s (rw_srv w) i tr) w)\<rparr>"

end
