(* ===== verification/Redis_Correct.thy ===== *)
theory Redis_Correct
  imports Redis_State
begin

text \<open>
  \<open>RedisStore\<close> keeps the contract of \<open>state.Store\<close> on any Redis that does what its commands
  document: the locale \<open>redis\<close> is that documentation, and every \<open>redis\<close> is a \<open>msg_store\<close>.
\<close>

section \<open>The command semantics\<close>

definition zview :: "go_time \<Rightarrow> db \<Rightarrow> string \<Rightarrow> (string \<times> real) list" where
  "zview t d key = (if live t d key then dz d key else [])"

definition sview :: "go_time \<Rightarrow> db \<Rightarrow> string \<Rightarrow> string list" where
  "sview t d key = (if live t d key then ds d key else [])"

definition hview :: "go_time \<Rightarrow> db \<Rightarrow> string \<Rightarrow> string \<rightharpoonup> string" where
  "hview t d key = (if live t d key then map_of (dh d key) else Map.empty)"

lemmas view_defs = zview_def sview_def hview_def

lemma drop_key_views [simp]:
  "zview t (drop_key d key) key' = (if key' = key then [] else zview t d key')"
  "sview t (drop_key d key) key' = (if key' = key then [] else sview t d key')"
  "hview t (drop_key d key) key' = (if key' = key then Map.empty else hview t d key')"
  by (auto simp: view_defs drop_key_def live_def)

text \<open>A command touches its own key only.\<close>

lemma run_live_other:
  "key \<noteq> cmd_key c \<Longrightarrow> zview t' (fst (run_live t d c)) key = zview t' d key \<and>
     sview t' (fst (run_live t d c)) key = sview t' d key \<and> hview t' (fst (run_live t d c)) key = hview t' d key"
  by (cases c) (auto simp: view_defs live_def Let_def split: option.splits)

lemma run_cmd_other:
  "key \<noteq> cmd_key c \<Longrightarrow> zview t' (fst (run_cmd t d c)) key = zview t' d key \<and>
     sview t' (fst (run_cmd t d c)) key = sview t' d key \<and> hview t' (fst (run_cmd t d c)) key = hview t' d key"
  using run_live_other [of key c t' t] by (auto simp: run_cmd_def)

lemma run_cmds_other:
  "\<forall>c \<in> set cs. cmd_key c \<noteq> key \<Longrightarrow> zview t' (fst (run_cmds t d cs)) key = zview t' d key \<and>
     hview t' (fst (run_cmds t d cs)) key = hview t' d key"
proof (induction cs arbitrary: d)
  case (Cons c cs)
  have "fst (run_cmds t d (c # cs)) = fst (run_cmds t (fst (run_cmd t d c)) cs)" by (simp split: prod.splits)
  then show ?case using Cons run_cmd_other [of key c t' t d] by (metis list.set_intros)
qed simp

lemma expire_after_pos: "0 < expire_after d"
  by (simp add: expire_after_def)

text \<open>On its own key each command reads and writes what is live.\<close>

definition ready :: "go_time \<Rightarrow> db \<Rightarrow> string \<Rightarrow> db" where
  "ready t d key = (if live t d key then d else drop_key d key)"

lemma ready_views:
  "live t (ready t d key) key" "dz (ready t d key) key = zview t d key"
  "ds (ready t d key) key = sview t d key" "map_of (dh (ready t d key) key) = hview t d key"
  by (auto simp: ready_def view_defs drop_key_def live_def)

lemma run_cmd_ready: "run_cmd t d c = run_live t (ready t d (cmd_key c)) c"
  by (simp add: run_cmd_def ready_def)

lemma run_zadd:
  "snd (run_cmd t d (ZAddNX key sc m)) = RInt (if m \<in> fst ` set (zview t d key) then 0 else 1)"
  "zview t (fst (run_cmd t d (ZAddNX key sc m))) key =
     (if m \<in> fst ` set (zview t d key) then zview t d key else zinsert (m, sc) (zview t d key))"
  "hview t (fst (run_cmd t d (ZAddNX key sc m))) key = hview t d key"
  "sview t (fst (run_cmd t d (ZAddNX key sc m))) key = sview t d key"
proof -
  note r = ready_views [of t d key]
  show "snd (run_cmd t d (ZAddNX key sc m)) = RInt (if m \<in> fst ` set (zview t d key) then 0 else 1)"
    using r by (simp add: run_cmd_ready)
  show "zview t (fst (run_cmd t d (ZAddNX key sc m))) key =
     (if m \<in> fst ` set (zview t d key) then zview t d key else zinsert (m, sc) (zview t d key))"
    using r by (auto simp: run_cmd_ready zview_def [of _ "_ :: db"] live_def)
  show "hview t (fst (run_cmd t d (ZAddNX key sc m))) key = hview t d key"
    using r by (auto simp: run_cmd_ready hview_def [of _ "_ :: db"] live_def)
  show "sview t (fst (run_cmd t d (ZAddNX key sc m))) key = sview t d key"
    using r by (auto simp: run_cmd_ready sview_def [of _ "_ :: db"] live_def)
qed

lemma run_zrem:
  "zview t (fst (run_cmd t d (ZRemRangeByRank key a b))) key = zremrank a b (zview t d key)"
  "hview t (fst (run_cmd t d (ZRemRangeByRank key a b))) key = hview t d key"
  "sview t (fst (run_cmd t d (ZRemRangeByRank key a b))) key = sview t d key"
  using ready_views [of t d key]
  by (auto simp: run_cmd_ready Let_def view_defs [of _ "_ :: db"] live_def)

lemma run_expire:
  "zview t (fst (run_cmd t d (Expire key dur))) key = zview t d key"
  "hview t (fst (run_cmd t d (Expire key dur))) key = hview t d key"
  "sview t (fst (run_cmd t d (Expire key dur))) key = sview t d key"
  using ready_views [of t d key] expire_after_pos [of dur]
  by (auto simp: run_cmd_ready view_defs [of _ "_ :: db"] live_def)

lemma run_hset:
  "hview t (fst (run_cmd t d (HSet key f v))) key = (hview t d key)(f \<mapsto> v)"
  "zview t (fst (run_cmd t d (HSet key f v))) key = zview t d key"
  "sview t (fst (run_cmd t d (HSet key f v))) key = sview t d key"
  using ready_views [of t d key]
  by (auto simp: run_cmd_ready view_defs [of _ "_ :: db"] live_def update_conv')

lemma run_sadd:
  "sview t (fst (run_cmd t d (SAdd key m))) key =
     (if m \<in> set (sview t d key) then sview t d key else sview t d key @ [m])"
  "zview t (fst (run_cmd t d (SAdd key m))) key = zview t d key"
  "hview t (fst (run_cmd t d (SAdd key m))) key = hview t d key"
  using ready_views [of t d key]
  by (auto simp: run_cmd_ready view_defs [of _ "_ :: db"] live_def)

lemma run_reads:
  "snd (run_cmd t d (SMembers key)) = RList (sview t d key)"
  "snd (run_cmd t d (HGet key f)) = RStr (hview t d key f)"
  "snd (run_cmd t d (HMGet key fs)) = RVals (map (hview t d key) fs)"
  using ready_views [of t d key] by (simp_all add: run_cmd_ready)

fun read_only :: "cmd \<Rightarrow> bool" where
  "read_only (SMembers _) = True"
| "read_only (HGet _ _) = True"
| "read_only (HMGet _ _) = True"
| "read_only _ = False"

lemma run_read_only:
  assumes "read_only c"
  shows "zview t (fst (run_cmd t d c)) = zview t d" "sview t (fst (run_cmd t d c)) = sview t d"
    "hview t (fst (run_cmd t d c)) = hview t d"
proof -
  have f: "fst (run_cmd t d c) = ready t d (cmd_key c)" using assms by (cases c) (simp_all add: run_cmd_ready)
  have v: "zview t (ready t d k) = zview t d" "sview t (ready t d k) = sview t d" "hview t (ready t d k) = hview t d" for k
    by (auto simp: ready_def fun_eq_iff) (auto simp: view_defs)
  show "zview t (fst (run_cmd t d c)) = zview t d" "sview t (fst (run_cmd t d c)) = sview t d"
    "hview t (fst (run_cmd t d c)) = hview t d" unfolding f by (rule v)+
qed

lemma run_hincrby:
  assumes "snd (run_cmd t d (HIncrBy key f i)) \<noteq> RErr"
  shows "\<exists>n. (case hview t d key f of None \<Rightarrow> n = 0 | Some v \<Rightarrow> dec_int v = Some n) \<and>
     hview t (fst (run_cmd t d (HIncrBy key f i))) key = (hview t d key)(f \<mapsto> FormatInt (n + i)) \<and>
     min_int64 \<le> n + i \<and> n + i \<le> max_int64"
  using ready_views [of t d key] assms
  by (auto simp: run_cmd_ready view_defs [of _ "_ :: db"] live_def update_conv' split: option.splits if_splits)

text \<open>The same, for all keys at once.\<close>

lemma at_key: "f key = x \<Longrightarrow> (\<And>y. y \<noteq> key \<Longrightarrow> f y = g y) \<Longrightarrow> f = g(key := x)"
  by (rule ext) auto

lemma at_key_same: "f key = g key \<Longrightarrow> (\<And>y. y \<noteq> key \<Longrightarrow> f y = g y) \<Longrightarrow> f = g"
  by (rule ext) (case_tac "x = key"; simp)

lemma run_zadd_all:
  "hview t (fst (run_cmd t d (ZAddNX key sc m))) = hview t d"
  "zview t (fst (run_cmd t d (ZAddNX key sc m))) = (zview t d)(key :=
     if m \<in> fst ` set (zview t d key) then zview t d key else zinsert (m, sc) (zview t d key))"
   apply (rule at_key_same [where key = key]; simp add: run_zadd run_cmd_other)
  apply (rule at_key; simp add: run_zadd run_cmd_other)
  done

lemma run_zrem_all:
  "hview t (fst (run_cmd t d (ZRemRangeByRank key a b))) = hview t d"
  "zview t (fst (run_cmd t d (ZRemRangeByRank key a b))) = (zview t d)(key := zremrank a b (zview t d key))"
   apply (rule at_key_same [where key = key]; simp add: run_zrem run_cmd_other)
  apply (rule at_key; simp add: run_zrem run_cmd_other)
  done

lemma run_expire_all:
  "hview t (fst (run_cmd t d (Expire key dur))) = hview t d"
  "zview t (fst (run_cmd t d (Expire key dur))) = zview t d"
  "sview t (fst (run_cmd t d (Expire key dur))) = sview t d"
  by (rule at_key_same [where key = key]; simp add: run_expire run_cmd_other)+

lemma run_hset_all:
  "hview t (fst (run_cmd t d (HSet key f v))) = (hview t d)(key := (hview t d key)(f \<mapsto> v))"
  "zview t (fst (run_cmd t d (HSet key f v))) = zview t d"
   apply (rule at_key; simp add: run_hset run_cmd_other)
  apply (rule at_key_same [where key = key]; simp add: run_hset run_cmd_other)
  done

section \<open>Sorted sets\<close>

lemma set_zinsert: "set (zinsert p zs) = insert p (set zs)"
  by (induction zs) auto

lemma length_zinsert: "length (zinsert p zs) = Suc (length zs)"
  by (induction zs) auto

lemma distinct_zinsert:
  "fst p \<notin> fst ` set zs \<Longrightarrow> distinct (map fst zs) \<Longrightarrow> distinct (map fst (zinsert p zs))"
  by (induction zs) (auto simp: set_zinsert)

text \<open>Trimming by rank from the front keeps the last \<open>cap\<close> elements.\<close>

lemma zremrank_cap:
  assumes "0 < cap"
  shows "zremrank 0 (- cap - 1) zs = drop (length zs - nat cap) zs"
proof -
  have "min (int (length zs) - 1) (- cap - 1 + int (length zs)) = int (length zs) - cap - 1"
    using assms by simp
  then show ?thesis using assms
    by (auto simp: zremrank_def Let_def nat_diff_distrib' intro: arg_cong [where f = "\<lambda>n. drop n zs"])
qed

section \<open>Keys\<close>

lemma split_last_unique:
  assumes "a @ c # s = b @ c # t" "c \<notin> set s" "c \<notin> set t"
  shows "a = b \<and> s = t"
proof -
  have tw: "takeWhile (\<lambda>x. x \<noteq> c) (rev (x @ c # y)) = rev y" if "c \<notin> set y" for x y
    using that by (auto simp: takeWhile_append)
  have "rev s = rev t" using tw [OF assms(2), of a] tw [OF assms(3), of b] assms(1) by simp
  then show ?thesis using assms(1) by simp
qed

lemma redis_key_inj:
  assumes "CHR '':'' \<notin> set s" "CHR '':'' \<notin> set s'"
  shows "redis_key i s = redis_key i' s' \<longleftrightarrow> i = i' \<and> s = s'"
  using split_last_unique [of i "CHR '':''" s i' s'] assms by (auto simp: redis_key_def)

lemma suffix_ok [simp]:
  "redis_key i ''dedup'' = redis_key i' ''dedup'' \<longleftrightarrow> i = i'" "redis_key i ''cur'' = redis_key i' ''cur'' \<longleftrightarrow> i = i'"
  "redis_key i ''meta'' = redis_key i' ''meta'' \<longleftrightarrow> i = i'" "redis_key i ''chan'' = redis_key i' ''chan'' \<longleftrightarrow> i = i'"
  "redis_key i ''dedup'' \<noteq> redis_key i' ''cur''" "redis_key i ''cur'' \<noteq> redis_key i' ''dedup''"
  "redis_key i ''chan'' \<noteq> redis_key i' ''cur''" "redis_key i ''chan'' \<noteq> redis_key i' ''dedup''"
  "redis_key i ''cur'' \<noteq> redis_key i' ''chan''" "redis_key i ''dedup'' \<noteq> redis_key i' ''chan''"
  "redis_key i ''meta'' \<noteq> redis_key i' ''cur''" "redis_key i ''meta'' \<noteq> redis_key i' ''dedup''"
  by (simp_all add: redis_key_inj)

section \<open>What Redis promises\<close>

text \<open>The ids a bot's dedup set holds and the cursor of a channel, at server time \<open>t\<close>.\<close>

definition seen_ids :: "go_time \<Rightarrow> db \<Rightarrow> string \<Rightarrow> string set" where
  "seen_ids t d i = fst ` set (zview t d (redis_key i ''dedup''))"

definition cursor_in :: "go_time \<Rightarrow> db \<Rightarrow> string \<Rightarrow> string \<Rightarrow> string" where
  "cursor_in t d i c = (case hview t d (redis_key i ''cur'') c of None \<Rightarrow> '''' | Some v \<Rightarrow> v)"

locale redis =
  fixes rdb :: "'r rdb" and \<alpha> :: "'r \<Rightarrow> db"
  assumes exec_ok: "rdb r t cmds = (r', Inr reps) \<Longrightarrow> run_cmds t (\<alpha> r) cmds = (\<alpha> r', reps) \<and> RErr \<notin> set reps"
    and exec_err: "rdb r t cmds = (r', Inl e) \<Longrightarrow> \<exists>n \<le> length cmds. \<alpha> r' = fst (run_cmds t (\<alpha> r) (take n cmds))"
    and members_once: "distinct (map fst (dz (\<alpha> r) key))"
begin

abbreviation seen_at :: "go_time \<Rightarrow> 'r \<Rightarrow> string \<Rightarrow> string set" where
  "seen_at t r \<equiv> seen_ids t (\<alpha> r)"

abbreviation cur_at :: "go_time \<Rightarrow> 'r \<Rightarrow> string \<Rightarrow> string \<Rightarrow> string" where
  "cur_at t r \<equiv> cursor_in t (\<alpha> r)"

lemma zview_distinct: "distinct (map fst (zview t (\<alpha> r) key))"
  using members_once by (simp add: zview_def)

lemma card_seen: "card (seen_at t r i) = length (zview t (\<alpha> r) (redis_key i ''dedup''))"
  using distinct_card [OF zview_distinct] by (simp add: seen_ids_def)

lemma exec1:
  assumes "rdb r t [c] = (r', Inr reps)"
  shows "\<alpha> r' = fst (run_cmd t (\<alpha> r) c)" "reps = [snd (run_cmd t (\<alpha> r) c)]" "snd (run_cmd t (\<alpha> r) c) \<noteq> RErr"
  using exec_ok [OF assms] by (auto split: prod.splits)

lemma exec2:
  assumes "rdb r t [c, d] = (r', Inr reps)"
  shows "\<alpha> r' = fst (run_cmd t (fst (run_cmd t (\<alpha> r) c)) d)"
  using exec_ok [OF assms] by (auto split: prod.splits)

text \<open>A call, successful or not, touches only the keys its commands name.\<close>

lemma exec_frame:
  assumes "\<forall>c \<in> set cmds. cmd_key c \<noteq> key"
  shows "zview t' (\<alpha> (fst (rdb r t cmds))) key = zview t' (\<alpha> r) key \<and>
    hview t' (\<alpha> (fst (rdb r t cmds))) key = hview t' (\<alpha> r) key"
proof -
  obtain r' x where x: "rdb r t cmds = (r', x)" by (rule prod.exhaust)
  have "\<exists>n. \<alpha> r' = fst (run_cmds t (\<alpha> r) (take n cmds))"
  proof (cases x)
    case (Inl e)
    then show ?thesis using exec_err x by blast
  next
    case (Inr reps)
    then have "\<alpha> r' = fst (run_cmds t (\<alpha> r) (take (length cmds) cmds))" using exec_ok [of r t cmds r' reps] x by simp
    then show ?thesis by blast
  qed
  then obtain n where n: "\<alpha> r' = fst (run_cmds t (\<alpha> r) (take n cmds))" by blast
  have "\<forall>c \<in> set (take n cmds). cmd_key c \<noteq> key" using assms by (meson in_set_takeD)
  from run_cmds_other [OF this] show ?thesis using n x by simp
qed

text \<open>The dedup step: add if absent, trim to the newest, refresh the deadline.\<close>

lemma Seen_cases:
  assumes "Seen rnd rdb s now t t i m r = (r', Inr b)" "m \<noteq> ''''" "0 < dedupCap s"
  obtains (old) "b" "m \<in> seen_at t r i" "zview t (\<alpha> r') = zview t (\<alpha> r)" "hview t (\<alpha> r') = hview t (\<alpha> r)"
  | (fresh) "\<not> b" "m \<notin> seen_at t r i" "hview t (\<alpha> r') = hview t (\<alpha> r)"
    "zview t (\<alpha> r') = (zview t (\<alpha> r))(redis_key i ''dedup'' :=
       drop (Suc (length (zview t (\<alpha> r) (redis_key i ''dedup''))) - nat (dedupCap s))
         (zinsert (m, rnd (real_of_int now)) (zview t (\<alpha> r) (redis_key i ''dedup''))))"
proof -
  let ?key = "redis_key i ''dedup''"
  let ?add = "ZAddNX ?key (rnd (real_of_int now)) m"
  obtain r1 reps where x: "rdb r t [?add] = (r1, Inr reps)"
    using assms(1,2) by (auto simp: Seen_def Let_def split: prod.splits sum.splits)
  note e = exec1 [OF x]
  have rep: "reply_int reps = (if m \<in> seen_at t r i then 0 else 1)"
    using e(2) run_zadd(1) [of t "\<alpha> r" ?key] by (simp add: reply_int_def seen_ids_def)
  have h1: "hview t (\<alpha> r1) = hview t (\<alpha> r)" unfolding e(1) by (rule run_zadd_all)
  have z1: "zview t (\<alpha> r1) = (zview t (\<alpha> r))(?key := if m \<in> seen_at t r i then zview t (\<alpha> r) ?key
      else zinsert (m, rnd (real_of_int now)) (zview t (\<alpha> r) ?key))"
    unfolding e(1) seen_ids_def by (rule run_zadd_all)
  show thesis
  proof (cases "m \<in> seen_at t r i")
    case True
    then have "r' = r1" "b" using assms(1,2) x rep by (auto simp: Seen_def Let_def)
    moreover have "zview t (\<alpha> r1) = zview t (\<alpha> r)" using z1 True by simp
    ultimately show thesis using old True h1 by blast
  next
    case False
    then obtain reps2 where y: "rdb r1 t [ZRemRangeByRank ?key 0 (- dedupCap s - 1), Expire ?key (ttl s)] = (r', Inr reps2)"
      and b: "\<not> b" using assms(1,2) x rep by (auto simp: Seen_def Let_def split: prod.splits sum.splits)
    let ?d = "fst (run_cmd t (\<alpha> r1) (ZRemRangeByRank ?key 0 (- dedupCap s - 1)))"
    note y2 = exec2 [OF y]
    have "hview t (\<alpha> r') = hview t (\<alpha> r1)" unfolding y2 run_expire_all run_zrem_all ..
    moreover have "zview t (\<alpha> r') = (zview t (\<alpha> r1))(?key := zremrank 0 (- dedupCap s - 1) (zview t (\<alpha> r1) ?key))"
      unfolding y2 run_expire_all run_zrem_all ..
    ultimately show thesis
      using fresh [OF b False] h1 z1 False unfolding zremrank_cap [OF assms(3)] by (simp add: length_zinsert)
  qed
qed

lemma Seen_empty: "Seen rnd rdb s now t1 t2 i '''' r = (r, Inr False)"
  by (simp add: Seen_def)

lemma Cursor_get:
  assumes "Cursor rdb t i c r = (r', Inr v)"
  shows "v = cur_at t r i c" "hview t (\<alpha> r') = hview t (\<alpha> r)" "zview t (\<alpha> r') = zview t (\<alpha> r)"
proof -
  obtain reps where x: "rdb r t [HGet (redis_key i ''cur'') c] = (r', Inr reps)"
    using assms by (auto simp: Cursor_def split: prod.splits sum.splits option.splits)
  note e = exec1 [OF x]
  show "v = cur_at t r i c"
    using assms x e(2) by (auto simp: Cursor_def run_reads reply_str_def cursor_in_def split: option.splits)
  show "hview t (\<alpha> r') = hview t (\<alpha> r)" "zview t (\<alpha> r') = zview t (\<alpha> r)"
    unfolding e(1) by (rule run_read_only; simp)+
qed

lemma Channels_get:
  assumes "Channels rdb t i r = (r', Inr cs)"
  shows "cs = sview t (\<alpha> r) (redis_key i ''chan'')" "hview t (\<alpha> r') = hview t (\<alpha> r)"
    "zview t (\<alpha> r') = zview t (\<alpha> r)"
proof -
  obtain reps where x: "rdb r t [SMembers (redis_key i ''chan'')] = (r', Inr reps)"
    using assms by (auto simp: Channels_def split: prod.splits sum.splits)
  note e = exec1 [OF x]
  show "cs = sview t (\<alpha> r) (redis_key i ''chan'')"
    using assms x e(2) by (simp add: Channels_def run_reads reply_list_def)
  show "hview t (\<alpha> r') = hview t (\<alpha> r)" "zview t (\<alpha> r') = zview t (\<alpha> r)"
    unfolding e(1) by (rule run_read_only; simp)+
qed

lemma frame_views:
  assumes "\<forall>c \<in> set cmds. \<forall>j. cmd_key c \<noteq> redis_key j ''dedup'' \<and> cmd_key c \<noteq> redis_key j ''cur''"
  shows "cur_at t (fst (rdb r t' cmds)) = cur_at t r \<and> seen_at t (fst (rdb r t' cmds)) = seen_at t r"
proof -
  have "zview t (\<alpha> (fst (rdb r t' cmds))) (redis_key j ''dedup'') = zview t (\<alpha> r) (redis_key j ''dedup'')"
    "hview t (\<alpha> (fst (rdb r t' cmds))) (redis_key j ''cur'') = hview t (\<alpha> r) (redis_key j ''cur'')" for j
    using exec_frame [of cmds "redis_key j ''dedup''"] exec_frame [of cmds "redis_key j ''cur''"] assms by simp_all
  then show ?thesis by (simp add: cursor_in_def seen_ids_def fun_eq_iff)
qed

lemma fst_pipeline: "fst (pipeline rdb t cmds r) = fst (rdb r t cmds)"
  by (simp add: pipeline_def split: prod.splits sum.splits)

lemma Bump_frame: "cur_at t (fst (BumpActivity rdb s t' i b r)) = cur_at t r \<and>
    seen_at t (fst (BumpActivity rdb s t' i b r)) = seen_at t r"
  unfolding BumpActivity_def fst_pipeline by (rule frame_views) simp

lemma Add_frame: "cur_at t (fst (AddChannel rdb s t' i c r)) = cur_at t r \<and>
    seen_at t (fst (AddChannel rdb s t' i c r)) = seen_at t r"
  using frame_views [of "[SAdd (redis_key i ''chan'') c, Expire (redis_key i ''chan'') (ttl s)]" t r t']
  by (simp add: AddChannel_def fst_pipeline)

lemma pipeline_hset:
  assumes "pipeline rdb t [HSet key f v, Expire key d] r = (r', None)"
  shows "hview t (\<alpha> r') = (hview t (\<alpha> r))(key := (hview t (\<alpha> r) key)(f \<mapsto> v))"
    "zview t (\<alpha> r') = zview t (\<alpha> r)"
proof -
  obtain reps where x: "rdb r t [HSet key f v, Expire key d] = (r', Inr reps)"
    using assms by (auto simp: pipeline_def split: prod.splits sum.splits)
  show "hview t (\<alpha> r') = (hview t (\<alpha> r))(key := (hview t (\<alpha> r) key)(f \<mapsto> v))"
    "zview t (\<alpha> r') = zview t (\<alpha> r)"
    unfolding exec2 [OF x] run_expire_all run_hset_all by (rule refl)+
qed

lemma cur_at_cong: "hview t (\<alpha> r') = hview t (\<alpha> r) \<Longrightarrow> cur_at t r' = cur_at t r"
  by (simp add: cursor_in_def fun_eq_iff)

lemma seen_at_cong: "zview t (\<alpha> r') = zview t (\<alpha> r) \<Longrightarrow> seen_at t r' = seen_at t r"
  by (simp add: seen_ids_def fun_eq_iff)

lemma SetCursor_set:
  assumes "SetCursor rdb s t i c v r = (r', None)"
  shows "cur_at t r' = (\<lambda>i' c'. if i' = i \<and> c' = c then v else cur_at t r i' c')" "seen_at t r' = seen_at t r"
  using pipeline_hset [OF assms [unfolded SetCursor_def]]
  by (auto simp: cursor_in_def seen_ids_def fun_eq_iff)

lemma Seen_result:
  assumes "Seen rnd rdb s now t t i m r = (r', Inr b)" "0 < dedupCap s"
  shows "b \<longleftrightarrow> m \<noteq> '''' \<and> m \<in> seen_at t r i" "seen_at t r' i \<subseteq> insert m (seen_at t r i)"
    "i' \<noteq> i \<Longrightarrow> seen_at t r' i' = seen_at t r i'" "cur_at t r' = cur_at t r"
    "m \<noteq> '''' \<Longrightarrow> card (seen_at t r i) < nat (dedupCap s) \<Longrightarrow> seen_at t r' i = insert m (seen_at t r i)"
    "card (seen_at t r i) \<le> nat (dedupCap s) \<Longrightarrow> card (seen_at t r' i) \<le> nat (dedupCap s)"
    "b \<or> m = '''' \<Longrightarrow> seen_at t r' i = seen_at t r i"
proof -
  let ?key = "redis_key i ''dedup''"
  have "(b \<longleftrightarrow> m \<noteq> '''' \<and> m \<in> seen_at t r i) \<and> seen_at t r' i \<subseteq> insert m (seen_at t r i) \<and>
    (\<forall>i'. i' \<noteq> i \<longrightarrow> seen_at t r' i' = seen_at t r i') \<and> cur_at t r' = cur_at t r \<and>
    (m \<noteq> '''' \<longrightarrow> card (seen_at t r i) < nat (dedupCap s) \<longrightarrow> seen_at t r' i = insert m (seen_at t r i)) \<and>
    (card (seen_at t r i) \<le> nat (dedupCap s) \<longrightarrow> card (seen_at t r' i) \<le> nat (dedupCap s)) \<and>
    (b \<or> m = '''' \<longrightarrow> seen_at t r' i = seen_at t r i)"
  proof (cases "m = ''''")
    case True
    then show ?thesis using assms(1) by (simp add: Seen_empty) blast
  next
    case False
    from assms(1) this assms(2) show ?thesis
    proof (cases rule: Seen_cases)
      case old
      then show ?thesis using False seen_at_cong [of t r' r] cur_at_cong [of t r' r] by auto
    next
      case fresh
      let ?zs = "zview t (\<alpha> r) ?key"
      let ?n = "Suc (length ?zs) - nat (dedupCap s)"
      have s: "seen_at t r' i = fst ` set (drop ?n (zinsert (m, rnd (real_of_int now)) ?zs))"
        using fresh(4) by (simp add: seen_ids_def)
      have sub: "set (drop ?n (zinsert (m, rnd (real_of_int now)) ?zs)) \<subseteq> insert (m, rnd (real_of_int now)) (set ?zs)"
        by (metis set_drop_subset set_zinsert)
      have "card (seen_at t r' i) = length (drop ?n (zinsert (m, rnd (real_of_int now)) ?zs))"
        unfolding card_seen using fresh(4) by simp
      then have c: "card (seen_at t r' i) \<le> nat (dedupCap s)" by (simp add: length_zinsert)
      have k: "seen_at t r' i = insert m (seen_at t r i)" if "card (seen_at t r i) < nat (dedupCap s)"
      proof -
        have "?n = 0" using that unfolding card_seen by simp
        then show ?thesis unfolding s by (simp add: set_zinsert seen_ids_def)
      qed
      have o: "seen_at t r' i' = seen_at t r i'" if "i' \<noteq> i" for i'
        using that fresh(4) by (simp add: seen_ids_def)
      show ?thesis using fresh(1,2) False s sub c k o cur_at_cong [OF fresh(3)]
        by (auto simp: seen_ids_def)
    qed
  qed
  then show "b \<longleftrightarrow> m \<noteq> '''' \<and> m \<in> seen_at t r i" "seen_at t r' i \<subseteq> insert m (seen_at t r i)"
    "i' \<noteq> i \<Longrightarrow> seen_at t r' i' = seen_at t r i'" "cur_at t r' = cur_at t r"
    "m \<noteq> '''' \<Longrightarrow> card (seen_at t r i) < nat (dedupCap s) \<Longrightarrow> seen_at t r' i = insert m (seen_at t r i)"
    "card (seen_at t r i) \<le> nat (dedupCap s) \<Longrightarrow> card (seen_at t r' i) \<le> nat (dedupCap s)"
    "b \<or> m = '''' \<Longrightarrow> seen_at t r' i = seen_at t r i"
    by blast+
qed

text \<open>What a call leaves, whatever it answers.\<close>

lemma exec_prefix: "\<exists>n \<le> length cmds. \<alpha> (fst (rdb r t cmds)) = fst (run_cmds t (\<alpha> r) (take n cmds))"
proof -
  obtain r' x where x: "rdb r t cmds = (r', x)" by (rule prod.exhaust)
  show ?thesis
  proof (cases x)
    case (Inl e)
    then show ?thesis using exec_err x by simp
  next
    case (Inr reps)
    then show ?thesis using exec_ok [of r t cmds r' reps] x by (intro exI [of _ "length cmds"]) simp
  qed
qed

lemma exec1_any:
  assumes "rdb r t [c] = (r', x)"
  shows "\<alpha> r' = \<alpha> r \<or> \<alpha> r' = fst (run_cmd t (\<alpha> r) c)"
proof -
  obtain n where "n \<le> 1" "\<alpha> r' = fst (run_cmds t (\<alpha> r) (take n [c]))" using exec_prefix [of "[c]" r t] assms by auto
  then show ?thesis by (cases n) (auto split: prod.splits)
qed

lemma exec2_any:
  assumes "rdb r t [c, d] = (r', x)"
  shows "\<alpha> r' = \<alpha> r \<or> \<alpha> r' = fst (run_cmd t (\<alpha> r) c) \<or> \<alpha> r' = fst (run_cmd t (fst (run_cmd t (\<alpha> r) c)) d)"
proof -
  obtain n where n: "n \<le> 2" "\<alpha> r' = fst (run_cmds t (\<alpha> r) (take n [c, d]))"
    using exec_prefix [of "[c, d]" r t] assms by (metis fst_conv length_Cons list.size(3) numeral_2_eq_2)
  then consider "n = 0" | "n = 1" | "n = 2" by linarith
  then show ?thesis using n(2) by cases (auto split: prod.splits)
qed

lemma read_any:
  assumes "rdb r t [c] = (r', x)" "read_only c"
  shows "cur_at t r' = cur_at t r" "seen_at t r' = seen_at t r"
  using exec1_any [OF assms(1)] run_read_only [OF assms(2), of t "\<alpha> r"]
  by (auto intro!: cur_at_cong seen_at_cong)

lemma Cursor_frame: "Cursor rdb t i c r = (r', x) \<Longrightarrow> cur_at t r' = cur_at t r \<and> seen_at t r' = seen_at t r"
  using read_any by (auto simp: Cursor_def split: prod.splits sum.splits option.splits)

lemma Channels_frame: "Channels rdb t i r = (r', x) \<Longrightarrow> cur_at t r' = cur_at t r \<and> seen_at t r' = seen_at t r"
  using read_any by (auto simp: Channels_def split: prod.splits sum.splits)

lemma SetCursor_any:
  assumes "SetCursor rdb s t i c v r = (r', e)"
  shows "seen_at t r' = seen_at t r"
    "cur_at t r' = (\<lambda>i' c'. if i' = i \<and> c' = c then v else cur_at t r i' c') \<or> e \<noteq> None \<and> cur_at t r' = cur_at t r"
proof -
  let ?key = "redis_key i ''cur''"
  obtain x where x: "rdb r t [HSet ?key c v, Expire ?key (ttl s)] = (r', x)"
    using assms by (auto simp: SetCursor_def pipeline_def split: prod.splits sum.splits)
  have v: "zview t (\<alpha> r') = zview t (\<alpha> r)" "hview t (\<alpha> r') = hview t (\<alpha> r) \<or>
      hview t (\<alpha> r') = (hview t (\<alpha> r))(?key := (hview t (\<alpha> r) ?key)(c \<mapsto> v))"
    using exec2_any [OF x] by (auto simp: run_expire_all run_hset_all)
  show "seen_at t r' = seen_at t r" by (rule seen_at_cong [OF v(1)])
  show "cur_at t r' = (\<lambda>i' c'. if i' = i \<and> c' = c then v else cur_at t r i' c') \<or> e \<noteq> None \<and> cur_at t r' = cur_at t r"
  proof (cases e)
    case None
    then show ?thesis using SetCursor_set(1) assms by blast
  next
    case (Some err)
    then show ?thesis using v(2) cur_at_cong [of t r' r] by (auto simp: cursor_in_def fun_eq_iff)
  qed
qed

lemma Seen_any:
  assumes "Seen rnd rdb s now t t i m r = (r', x)" "0 < dedupCap s"
  shows "cur_at t r' = cur_at t r" "seen_at t r' i \<subseteq> insert m (seen_at t r i)"
    "i' \<noteq> i \<Longrightarrow> seen_at t r' i' = seen_at t r i'"
    "card (seen_at t r i) < nat (dedupCap s) \<Longrightarrow> seen_at t r i \<subseteq> seen_at t r' i"
proof -
  let ?key = "redis_key i ''dedup''" and ?sc = "rnd (real_of_int now)"
  let ?zs = "zview t (\<alpha> r) ?key"
  define keeps where "keeps r2 zs \<longleftrightarrow> hview t (\<alpha> r2) = hview t (\<alpha> r) \<and> zview t (\<alpha> r2) = (zview t (\<alpha> r))(?key := zs) \<and>
    set zs \<subseteq> insert (m, ?sc) (set ?zs)" for r2 zs
  have "\<exists>zs. keeps r' zs \<and> (length ?zs < nat (dedupCap s) \<longrightarrow> set ?zs \<subseteq> set zs)"
  proof (cases "m = ''''")
    case True
    then show ?thesis using assms(1) by (intro exI [of _ ?zs]) (auto simp: Seen_def keeps_def)
  next
    case False
    obtain r1 y where a: "rdb r t [ZAddNX ?key ?sc m] = (r1, y)" by (rule prod.exhaust)
    obtain z1 where z1: "keeps r1 z1" "set ?zs \<subseteq> set z1" "length z1 \<le> Suc (length ?zs)"
    proof (cases "\<alpha> r1 = \<alpha> r \<or> m \<in> seen_at t r i")
      case True
      then have "hview t (\<alpha> r1) = hview t (\<alpha> r) \<and> zview t (\<alpha> r1) = zview t (\<alpha> r)"
        using exec1_any [OF a] by (cases "m \<in> seen_at t r i") (force simp: run_zadd_all seen_ids_def)+
      then show thesis using that [of ?zs] by (auto simp: keeps_def)
    next
      case no: False
      then have "\<alpha> r1 = fst (run_cmd t (\<alpha> r) (ZAddNX ?key ?sc m))" using exec1_any [OF a] by blast
      then show thesis using that [of "zinsert (m, ?sc) ?zs"] no
        by (auto simp: keeps_def run_zadd_all seen_ids_def set_zinsert length_zinsert)
    qed
    show ?thesis
    proof (cases "r' = r1")
      case True
      then show ?thesis using z1 by blast
    next
      case no: False
      obtain y2 where b: "rdb r1 t [ZRemRangeByRank ?key 0 (- dedupCap s - 1), Expire ?key (ttl s)] = (r', y2)"
        using assms(1) False a no by (auto simp: Seen_def Let_def split: prod.splits sum.splits if_splits)
      let ?z2 = "drop (length z1 - nat (dedupCap s)) z1"
      have k1: "zview t (\<alpha> r1) ?key = z1" using z1(1) by (simp add: keeps_def)
      have "keeps r' z1 \<or> keeps r' ?z2"
        using exec2_any [OF b] z1(1) set_drop_subset [of "length z1 - nat (dedupCap s)" z1]
        by (auto simp: run_expire_all run_zrem_all k1 zremrank_cap [OF assms(2)] keeps_def)
      moreover have "?z2 = z1" if "length ?zs < nat (dedupCap s)" using that z1(3) by simp
      ultimately show ?thesis using z1(2) by metis
    qed
  qed
  then obtain zs where zs: "keeps r' zs" "length ?zs < nat (dedupCap s) \<longrightarrow> set ?zs \<subseteq> set zs" by blast
  show "cur_at t r' = cur_at t r" by (rule cur_at_cong) (use zs(1) in \<open>simp add: keeps_def\<close>)
  show "seen_at t r' i \<subseteq> insert m (seen_at t r i)" using zs(1) by (force simp: keeps_def seen_ids_def)
  show "i' \<noteq> i \<Longrightarrow> seen_at t r' i' = seen_at t r i'" using zs(1) by (simp add: keeps_def seen_ids_def)
  show "card (seen_at t r i) < nat (dedupCap s) \<Longrightarrow> seen_at t r i \<subseteq> seen_at t r' i"
    using zs unfolding card_seen by (auto simp: keeps_def seen_ids_def)
qed

end

section \<open>The store\<close>

locale redis_bot_store = redis rdb \<alpha> for rdb :: "'r rdb" and \<alpha> +
  fixes rnd :: "real \<Rightarrow> real" and s :: RedisStore
  assumes cap_pos: "0 < dedupCap s"

lemma on_r_eq: "on_r f w = (w', x) \<longleftrightarrow> (\<exists>r'. f (rw_r w) = (r', x) \<and> w' = w\<lparr>rw_r := r'\<rparr>)"
  by (auto simp: on_r_def split: prod.splits)

sublocale redis_bot_store \<subseteq> store: msg_store "redis_store rnd rdb s"
    "\<lambda>w. seen_at (rw_srv w) (rw_r w)" "\<lambda>w. cur_at (rw_srv w) (rw_r w)" "nat (dedupCap s)"
proof (unfold_locales, goal_cases)
  case (1 i m w w' b)
  then obtain r' where "Seen rnd rdb s (rw_now w) (rw_srv w) (rw_srv w) i m (rw_r w) = (r', Inr b)"
    "w' = w\<lparr>rw_r := r'\<rparr>" by (auto simp: redis_store_def on_r_eq)
  then show ?case using Seen_result(1) [OF _ cap_pos, of rnd "rw_now w" "rw_srv w" i m "rw_r w" r' b] by auto
next
  case (2 i m w w' x)
  then obtain r' where "Seen rnd rdb s (rw_now w) (rw_srv w) (rw_srv w) i m (rw_r w) = (r', x)"
    "w' = w\<lparr>rw_r := r'\<rparr>" by (auto simp: redis_store_def on_r_eq)
  then show ?case using Seen_any(2) [OF _ cap_pos, of rnd "rw_now w" "rw_srv w" i m "rw_r w" r' x] by auto
next
  case (3 i m w w' x)
  then obtain r' where "Seen rnd rdb s (rw_now w) (rw_srv w) (rw_srv w) i m (rw_r w) = (r', x)"
    "w' = w\<lparr>rw_r := r'\<rparr>" by (auto simp: redis_store_def on_r_eq)
  then show ?case using 3 Seen_any(4) [OF _ cap_pos, of rnd "rw_now w" "rw_srv w" i m "rw_r w" r' x] by auto
next
  case (4 w i)
  then show ?case by (simp add: seen_ids_def)
next
  case (5 i m w w' b)
  then obtain r' where "Seen rnd rdb s (rw_now w) (rw_srv w) (rw_srv w) i m (rw_r w) = (r', Inr b)"
    "w' = w\<lparr>rw_r := r'\<rparr>" by (auto simp: redis_store_def on_r_eq)
  then show ?case using 5 Seen_result(5) [OF _ cap_pos, of rnd "rw_now w" "rw_srv w" i m "rw_r w" r' b] by auto
next
  case (6 i m w w' b)
  then obtain r' where "Seen rnd rdb s (rw_now w) (rw_srv w) (rw_srv w) i m (rw_r w) = (r', Inr b)"
    "w' = w\<lparr>rw_r := r'\<rparr>" by (auto simp: redis_store_def on_r_eq)
  then show ?case using 6 Seen_result(6) [OF _ cap_pos, of rnd "rw_now w" "rw_srv w" i m "rw_r w" r' b] by auto
next
  case (7 i m w w' b)
  then obtain r' where "Seen rnd rdb s (rw_now w) (rw_srv w) (rw_srv w) i m (rw_r w) = (r', Inr b)"
    "w' = w\<lparr>rw_r := r'\<rparr>" by (auto simp: redis_store_def on_r_eq)
  then show ?case using 7 Seen_result(7) [OF _ cap_pos, of rnd "rw_now w" "rw_srv w" i m "rw_r w" r' b] by auto
next
  case (8 i m w w' x)
  then obtain r' where "Seen rnd rdb s (rw_now w) (rw_srv w) (rw_srv w) i m (rw_r w) = (r', x)"
    "w' = w\<lparr>rw_r := r'\<rparr>" by (auto simp: redis_store_def on_r_eq)
  then show ?case using Seen_any(1) [OF _ cap_pos, of rnd "rw_now w" "rw_srv w" i m "rw_r w" r' x] by auto
next
  case (9 i m w w' x i')
  then obtain r' where "Seen rnd rdb s (rw_now w) (rw_srv w) (rw_srv w) i m (rw_r w) = (r', x)"
    "w' = w\<lparr>rw_r := r'\<rparr>" by (auto simp: redis_store_def on_r_eq)
  then show ?case using 9 Seen_any(3) [OF _ cap_pos, of rnd "rw_now w" "rw_srv w" i m "rw_r w" r' x] by auto
next
  case (10 i c w w' v)
  then obtain r' where r: "Cursor rdb (rw_srv w) i c (rw_r w) = (r', Inr v)" "w' = w\<lparr>rw_r := r'\<rparr>"
    by (auto simp: redis_store_def on_r_eq)
  show ?case by (rule Cursor_get(1) [OF r(1)])
next
  case (11 i c w w' x)
  then obtain r' where r: "Cursor rdb (rw_srv w) i c (rw_r w) = (r', x)" "w' = w\<lparr>rw_r := r'\<rparr>"
    by (auto simp: redis_store_def on_r_eq)
  show ?case using Cursor_frame [OF r(1)] r(2) by simp
next
  case (12 i c v w w' e)
  then obtain r' where r: "SetCursor rdb s (rw_srv w) i c v (rw_r w) = (r', e)" "w' = w\<lparr>rw_r := r'\<rparr>"
    by (auto simp: redis_store_def on_r_eq)
  show ?case using SetCursor_any [OF r(1)] r(2) by simp
next
  case (13 i w w' y)
  then obtain r' where r: "Channels rdb (rw_srv w) i (rw_r w) = (r', y)" "w' = w\<lparr>rw_r := r'\<rparr>"
    by (auto simp: redis_store_def on_r_eq)
  show ?case using Channels_frame [OF r(1)] r(2) by simp
next
  case (14 i w)
  obtain r' x where x: "BumpActivity rdb s (rw_srv w) i (rw_now w) (rw_r w) = (r', x)" by (rule prod.exhaust)
  then show ?case using Bump_frame [of "rw_srv w" s "rw_srv w" i "rw_now w" "rw_r w"]
    by (simp add: redis_store_def on_r_def)
next
  case (15 i c w)
  obtain r' x where x: "AddChannel rdb s (rw_srv w) i c (rw_r w) = (r', x)" by (rule prod.exhaust)
  then show ?case using Add_frame [of "rw_srv w" s "rw_srv w" i c "rw_r w"]
    by (simp add: redis_store_def on_r_def)
qed

end
