(* ===== verification/Store_Correct.thy ===== *)
theory Store_Correct
  imports Redis_Correct
begin

text \<open>
  The properties of \<open>RedisStore\<close> over time: what a successful write promises until its deadline,
  what a run of sightings is answered, and what a failed one leaves behind.  \<open>ref_rdb\<close> is a Redis that can be told to fail; it
  shows that the laws of \<open>redis\<close> can hold.
\<close>

section \<open>After the write, until the deadline\<close>

lemma run_expire_later:
  assumes "present (ready t d key) key" "t' < t + expire_after dur"
  shows "zview t' (fst (run_cmd t d (Expire key dur))) key = zview t d key"
    "hview t' (fst (run_cmd t d (Expire key dur))) key = hview t d key"
    "sview t' (fst (run_cmd t d (Expire key dur))) key = sview t d key"
proof -
  have e: "fst (run_cmd t d (Expire key dur)) = (ready t d key)\<lparr>dl := (dl (ready t d key))(key \<mapsto> t + expire_after dur)\<rparr>"
    using assms(1) by (simp add: run_cmd_ready)
  have l: "live t' (fst (run_cmd t d (Expire key dur))) key" using assms(2) unfolding e by (simp add: live_def)
  show "zview t' (fst (run_cmd t d (Expire key dur))) key = zview t d key"
    "hview t' (fst (run_cmd t d (Expire key dur))) key = hview t d key"
    "sview t' (fst (run_cmd t d (Expire key dur))) key = sview t d key"
    using l ready_views [of t d key] unfolding e by (simp_all add: view_defs [of t' "_ :: db"])
qed

lemma present_ready:
  "present (ready t d key) key \<longleftrightarrow> zview t d key \<noteq> [] \<or> sview t d key \<noteq> [] \<or> dh (ready t d key) key \<noteq> []"
  by (simp add: present_def ready_views)

lemma hview_present: "hview t d key f = Some v \<Longrightarrow> present (ready t d key) key"
  using ready_views(4) [of t d key] unfolding present_def
  by (metis map_of.simps(1) option.distinct(1))

context redis begin

lemma pipeline_hset_later:
  assumes "pipeline rdb t [HSet key f v, Expire key d] r = (r', None)" "t' < t + expire_after d"
  shows "hview t' (\<alpha> r') key = (hview t (\<alpha> r) key)(f \<mapsto> v)"
proof -
  obtain reps where x: "rdb r t [HSet key f v, Expire key d] = (r', Inr reps)"
    using assms(1) by (auto simp: pipeline_def split: prod.splits sum.splits)
  let ?d = "fst (run_cmd t (\<alpha> r) (HSet key f v))"
  have h: "hview t ?d key = (hview t (\<alpha> r) key)(f \<mapsto> v)" by (simp add: run_hset)
  then have p: "present (ready t ?d key) key" by (intro hview_present [of t ?d key f v]) simp
  show ?thesis unfolding exec2 [OF x] run_expire_later(2) [OF p assms(2)] h ..
qed

lemma HGet_reply:
  assumes "rdb r t [HGet key f] = (r', Inr reps)"
  shows "reply_str reps = hview t (\<alpha> r) key f"
  using exec1(2) [OF assms] by (simp add: run_reads reply_str_def)

lemma Seen_remembers:
  assumes "Seen rnd rdb s now t t i m r = (r1, Inr False)" "m \<noteq> ''''" "0 < dedupCap s"
    and "card (seen_at t r i) < nat (dedupCap s)" "t' < t + expire_after (ttl s)"
  shows "seen_at t' r1 i = insert m (seen_at t r i)"
proof -
  let ?key = "redis_key i ''dedup''"
  obtain ra reps where x: "rdb r t [ZAddNX ?key (rnd (real_of_int now)) m] = (ra, Inr reps)"
    using assms(1,2) by (auto simp: Seen_def Let_def split: prod.splits sum.splits)
  then obtain reps2 where y: "rdb ra t [ZRemRangeByRank ?key 0 (- dedupCap s - 1), Expire ?key (ttl s)] = (r1, Inr reps2)"
    using assms(1,2) by (auto simp: Seen_def Let_def split: prod.splits sum.splits if_splits)
  let ?d = "fst (run_cmd t (\<alpha> ra) (ZRemRangeByRank ?key 0 (- dedupCap s - 1)))"
  have s: "seen_at t r1 i = insert m (seen_at t r i)"
    using Seen_result(5) [OF assms(1,3,2,4)] .
  have z: "zview t ?d ?key = zview t (\<alpha> r1) ?key" unfolding exec2 [OF y] run_expire ..
  then have "zview t ?d ?key \<noteq> []" using s by (auto simp: seen_ids_def)
  then have p: "present (ready t ?d ?key) ?key" by (simp add: present_ready)
  have "zview t' (\<alpha> r1) ?key = zview t (\<alpha> r1) ?key"
    unfolding exec2 [OF y] run_expire_later(1) [OF p assms(5)] run_expire ..
  then show ?thesis using s by (simp add: seen_ids_def)
qed

text \<open>The bot's dedup set is \<open>S\<close> at every server time from \<open>t\<close> to the deadline set then.\<close>

definition holds_ids :: "RedisStore \<Rightarrow> go_time \<Rightarrow> string \<Rightarrow> string set \<Rightarrow> 'r \<Rightarrow> bool" where
  "holds_ids s t i S r \<longleftrightarrow> (\<forall>t'. t \<le> t' \<longrightarrow> t' < t + expire_after (ttl s) \<longrightarrow> seen_at t' r i = S)"

text \<open>Asking about a remembered id changes nothing, and never answers that it is new.\<close>

lemma Seen_again_any:
  assumes "Seen rnd rdb s now t t i m r = (r', x)" "m \<noteq> ''''" "m \<in> seen_at t r i"
  shows "\<alpha> r' = \<alpha> r" "x \<noteq> Inr False"
proof -
  let ?key = "redis_key i ''dedup''"
  let ?add = "ZAddNX ?key (rnd (real_of_int now)) m"
  obtain r1 y where a: "rdb r t [?add] = (r1, y)" by (rule prod.exhaust)
  have "live t (\<alpha> r) ?key" "m \<in> fst ` set (dz (\<alpha> r) ?key)"
    using assms(3) by (auto simp: seen_ids_def zview_def split: if_splits)
  then have "run_cmd t (\<alpha> r) ?add = (\<alpha> r, RInt 0)" by (simp add: run_cmd_def)
  then have "\<alpha> r1 = \<alpha> r" "y = Inr reps \<Longrightarrow> reply_int reps = 0" for reps
    using exec1_any [OF a] exec1(2) [of r t ?add r1 reps] a by (auto simp: reply_int_def)
  then show "\<alpha> r' = \<alpha> r" "x \<noteq> Inr False"
    using assms(1,2) a by (auto simp: Seen_def Let_def split: sum.splits)
qed

lemma Seen_old_unchanged:
  assumes "Seen rnd rdb s now t t i m r = (r1, Inr True)" "0 < dedupCap s"
  shows "\<alpha> r1 = \<alpha> r"
  using Seen_again_any(1) [OF assms(1)] Seen_result(1) [OF assms] by simp

lemma Seen_holds:
  assumes "holds_ids s t i S r" "Seen rnd rdb s now t0 t0 i m r = (r1, Inr b)" "0 < dedupCap s"
    and "t \<le> t0" "t0 < t + expire_after (ttl s)" "m = '''' \<or> m \<in> S \<or> card S < nat (dedupCap s)"
  shows "b \<longleftrightarrow> m \<noteq> '''' \<and> m \<in> S" "holds_ids s t i (if m = '''' then S else insert m S) r1"
proof -
  have S: "seen_at t0 r i = S" using assms(1,4,5) by (simp add: holds_ids_def)
  show b: "b \<longleftrightarrow> m \<noteq> '''' \<and> m \<in> S" using Seen_result(1) [OF assms(2,3)] S by simp
  show "holds_ids s t i (if m = '''' then S else insert m S) r1"
  proof (cases "m = '''' \<or> m \<in> S")
    case True
    then have "\<alpha> r1 = \<alpha> r"
      using assms(2,3) b Seen_old_unchanged [of rnd s now t0 i m r r1] by (cases "m = ''''") (auto simp: Seen_def)
    then show ?thesis using assms(1) True by (auto simp: holds_ids_def insert_absorb)
  next
    case False
    then have "Seen rnd rdb s now t0 t0 i m r = (r1, Inr False)" "card (seen_at t0 r i) < nat (dedupCap s)"
      using assms(2,6) b S by auto
    from Seen_remembers [OF this(1) _ assms(3) this(2)] show ?thesis
      using False S assms(4) by (simp add: holds_ids_def)
  qed
qed

end

section \<open>A Redis that may fail\<close>

text \<open>Each element of the script says whether the next call fails without running anything.\<close>

definition ref_db :: "db \<times> bool list \<Rightarrow> db" where
  "ref_db r = (fst r)\<lparr>dz := (\<lambda>key. AList.clearjunk (dz (fst r) key))\<rparr>"

definition ref_rdb :: "(db \<times> bool list) rdb" where
  "ref_rdb r t cmds =
     (if snd r \<noteq> [] \<and> hd (snd r) then ((ref_db r, tl (snd r)), Inl (StoreErr ''down''))
      else (case run_cmds t (ref_db r) cmds of (d, reps) \<Rightarrow>
        if RErr \<in> set reps then ((ref_db r, tl (snd r)), Inl (StoreErr ''ERR''))
        else ((d, tl (snd r)), Inr reps)))"

lemma take_drop_distinct: "distinct xs \<Longrightarrow> n \<le> m \<Longrightarrow> distinct (take n xs @ drop m xs)"
  by (auto simp: set_take_disj_set_drop_if_distinct)

lemma zremrank_cases:
  obtains "zremrank a b zs = zs" | n m where "n \<le> m" "zremrank a b zs = take n zs @ drop m zs"
proof -
  let ?a = "max 0 (if a < 0 then a + int (length zs) else a)"
  let ?b = "min (int (length zs) - 1) (if b < 0 then b + int (length zs) else b)"
  show thesis
  proof (cases "?a > ?b \<or> ?a \<ge> int (length zs)")
    case True
    then show thesis using that(1) by (simp add: zremrank_def Let_def)
  next
    case False
    then have "nat ?a \<le> nat (?b + 1)" by linarith
    then show thesis using that(2) False unfolding zremrank_def Let_def by (metis (full_types))
  qed
qed

lemma zremrank_distinct: "distinct (map fst zs) \<Longrightarrow> distinct (map fst (zremrank a b zs))"
  by (rule zremrank_cases [of a b zs]) (auto simp: take_drop_distinct take_map [symmetric] drop_map [symmetric]
      simp del: distinct_append)

lemma run_live_distinct:
  "(\<And>key. distinct (map fst (dz d key))) \<Longrightarrow> distinct (map fst (dz (fst (run_live t d c)) key))"
  by (cases c) (auto simp: Let_def zremrank_distinct distinct_zinsert split: option.splits)

lemma run_cmds_distinct:
  "(\<And>key. distinct (map fst (dz d key))) \<Longrightarrow> distinct (map fst (dz (fst (run_cmds t d cs)) key))"
proof (induction cs arbitrary: d)
  case (Cons c cs)
  have "distinct (map fst (dz (fst (run_cmd t d c)) key))" for key
    unfolding run_cmd_def using Cons.prems by (intro run_live_distinct) (auto simp: drop_key_def)
  then show ?case using Cons.IH by (auto split: prod.splits) (metis fst_conv)
qed simp

lemma ref_db_id: "(\<And>key. distinct (map fst (dz d key))) \<Longrightarrow> ref_db (d, fs) = d"
  by (simp add: ref_db_def distinct_clearjunk)

interpretation ref: redis ref_rdb ref_db
proof
  show d: "distinct (map fst (dz (ref_db r) key))" for r key by (simp add: ref_db_def)
  fix r t cmds r'
  have id: "ref_db (ref_db r, fs) = ref_db r" for fs by (rule ref_db_id) (rule d)
  { fix reps assume "ref_rdb r t cmds = (r', Inr reps)"
    moreover have "ref_db (fst (run_cmds t (ref_db r) cmds), fs) = fst (run_cmds t (ref_db r) cmds)" for fs
      by (rule ref_db_id) (rule run_cmds_distinct, rule d)
    ultimately show "run_cmds t (ref_db r) cmds = (ref_db r', reps) \<and> RErr \<notin> set reps"
      by (auto simp: ref_rdb_def split: if_splits prod.splits) }
  { fix e assume "ref_rdb r t cmds = (r', Inl e)"
    then have "ref_db r' = ref_db r" using id by (auto simp: ref_rdb_def split: if_splits prod.splits)
    then show "\<exists>n \<le> length cmds. ref_db r' = fst (run_cmds t (ref_db r) (take n cmds))"
      by (intro exI [of _ 0]) simp }
qed

interpretation ref_store: redis_bot_store ref_rdb ref_db "\<lambda>x. x" "NewRedisStore 0 0"
  by unfold_locales (simp add: NewRedisStore_def)

definition empty_db :: db where
  "empty_db = \<lparr>dz = (\<lambda>_. []), ds = (\<lambda>_. []), dh = (\<lambda>_. []), dl = (\<lambda>_. None)\<rparr>"

context redis begin

lemma Bump_Activity:
  assumes "BumpActivity rdb s t i bumped r = (r1, None)" "t' < t + expire_after (ttl s)"
    and "Activity rdb t' i r1 = (r2, Inr (ts, n'))" "min_int64 \<le> Unix bumped" "Unix bumped \<le> max_int64"
  shows "ts = Unix bumped \<and> n' = asInt (hview t (\<alpha> r) (redis_key i ''meta'') ''count'') + 1"
proof -
  let ?key = "redis_key i ''meta''"
  obtain reps where x: "rdb r t [HSet ?key ''last'' (FormatInt (Unix bumped)), HIncrBy ?key ''count'' 1,
      Expire ?key (ttl s)] = (r1, Inr reps)"
    using assms(1) by (auto simp: BumpActivity_def pipeline_def split: prod.splits sum.splits)
  let ?d1 = "fst (run_cmd t (\<alpha> r) (HSet ?key ''last'' (FormatInt (Unix bumped))))"
  let ?d2 = "fst (run_cmd t ?d1 (HIncrBy ?key ''count'' 1))"
  have r1: "\<alpha> r1 = fst (run_cmd t ?d2 (Expire ?key (ttl s)))" and ne: "snd (run_cmd t ?d1 (HIncrBy ?key ''count'' 1)) \<noteq> RErr"
    using exec_ok [OF x] by (auto split: prod.splits)
  obtain n where n: "case hview t ?d1 ?key ''count'' of None \<Rightarrow> n = 0 | Some v \<Rightarrow> dec_int v = Some n"
      "hview t ?d2 ?key = (hview t ?d1 ?key)(''count'' \<mapsto> FormatInt (n + 1))"
      "min_int64 \<le> n + 1" "n + 1 \<le> max_int64"
    using run_hincrby [OF ne] by blast
  have h1: "hview t ?d1 ?key = (hview t (\<alpha> r) ?key)(''last'' \<mapsto> FormatInt (Unix bumped))" by (simp add: run_hset)
  have p: "present (ready t ?d2 ?key) ?key" by (rule hview_present [of t ?d2 ?key "''count''"]) (simp add: n(2))
  have h: "hview t' (\<alpha> r1) ?key = (hview t (\<alpha> r) ?key)(''last'' \<mapsto> FormatInt (Unix bumped), ''count'' \<mapsto> FormatInt (n + 1))"
    unfolding r1 run_expire_later(2) [OF p assms(2)] n(2) h1 ..
  obtain reps2 where y: "rdb r1 t' [HMGet ?key [''last'', ''count'']] = (r2, Inr reps2)"
    using assms(3) by (auto simp: Activity_def split: prod.splits sum.splits)
  have "ts = asInt (Some (FormatInt (Unix bumped)))" "n' = asInt (Some (FormatInt (n + 1)))"
    using assms(3) y exec1(2) [OF y] h by (simp_all add: Activity_def run_reads reply_vals_def)
  moreover have "asInt (Some (FormatInt (Unix bumped))) = Unix bumped" "asInt (Some (FormatInt (n + 1))) = n + 1"
    using assms(4,5) n(3,4) by (simp_all add: asInt_def Sscan_FormatInt)
  moreover have "asInt (hview t (\<alpha> r) ?key ''count'') = n"
    using n(1) h1 by (auto simp: asInt_def dec_int_def Let_def split: option.splits if_splits)
  ultimately show ?thesis by simp
qed

lemma SetTier_get:
  assumes "SetTier rdb s t i tr r = (r1, None)" "t' < t + expire_after (ttl s)"
    and "get_tier rdb t' i r1 = (r2, tr', None)"
  shows "tr' = tr"
proof -
  have h: "hview t' (\<alpha> r1) (redis_key i ''meta'') ''tier'' = Some (tier_String tr)"
    using pipeline_hset_later [OF assms(1) [unfolded SetTier_def] assms(2)] by simp
  obtain reps where x: "rdb r1 t' [HGet (redis_key i ''meta'') ''tier''] = (r2, Inr reps)"
    using assms(3) by (auto simp: get_tier_def split: prod.splits sum.splits option.splits)
  then have "tr' = (if tier_String tr = ''hot'' then Hot else if tier_String tr = ''warm'' then Warm else Cold)"
    using assms(3) h HGet_reply [OF x] by (simp add: get_tier_def)
  then show ?thesis by (cases tr) simp_all
qed

lemma SetCursor_later:
  assumes "SetCursor rdb s t i c v r = (r1, None)" "t' < t + expire_after (ttl s)"
    and "Cursor rdb t' i c r1 = (r2, Inr v')"
  shows "v' = v"
  using pipeline_hset_later [OF assms(1) [unfolded SetCursor_def] assms(2)] Cursor_get(1) [OF assms(3)]
  by (simp add: cursor_in_def)

text \<open>The step the trim failed after.\<close>

lemma Seen_trim_fails:
  assumes "m \<noteq> ''''" "0 < dedupCap s" "m \<notin> seen_at t r i"
    and "rdb r t [ZAddNX (redis_key i ''dedup'') (rnd (real_of_int now)) m] = (r1, Inr reps)"
    and "rdb r1 t [ZRemRangeByRank (redis_key i ''dedup'') 0 (- dedupCap s - 1), Expire (redis_key i ''dedup'') (ttl s)]
      = (r2, Inl e)" "\<alpha> r2 = \<alpha> r1"
  shows "Seen rnd rdb s now t t i m r = (r2, Inl e)" "m \<in> seen_at t r2 i"
proof -
  note x = exec1 [OF assms(4)]
  have rep: "reply_int reps = 1"
    using x(2) run_zadd(1) [of t "\<alpha> r"] assms(3) by (simp add: reply_int_def seen_ids_def)
  then show "Seen rnd rdb s now t t i m r = (r2, Inl e)"
    using assms(1,4,5) by (simp add: Seen_def Let_def)
  have "zview t (\<alpha> r2) (redis_key i ''dedup'') =
      zinsert (m, rnd (real_of_int now)) (zview t (\<alpha> r) (redis_key i ''dedup''))"
    using x(1) run_zadd(2) [of t "\<alpha> r"] assms(3,6) by (simp add: seen_ids_def)
  then show "m \<in> seen_at t r2 i" by (simp add: seen_ids_def set_zinsert)
qed

end

section \<open>The properties\<close>

definition ex_store :: RedisStore where
  "ex_store = NewRedisStore 0 0"

text \<open>A Redis without failures, and one whose second call fails.\<close>

definition ex_r :: "db \<times> bool list" where
  "ex_r = (empty_db, [])"

definition ex_r_fail :: "db \<times> bool list" where
  "ex_r_fail = (empty_db, [False, True])"

lemmas ref_eval = ref_rdb_def ref_db_def empty_db_def run_cmd_def live_def present_def zremrank_def Let_def
  ex_store_def NewRedisStore_def ex_r_def ex_r_fail_def reply_int_def expire_after_def

lemma ex_seen_first: "\<exists>r1. Seen (\<lambda>x. x) ref_rdb ex_store 5 0 0 ''b'' ''m1'' ex_r = (r1, Inr False)"
  by (simp add: Seen_def ref_eval)

lemma ex_seen_empty: "seen_ids 0 (ref_db ex_r) ''b'' = {}" "seen_ids 0 (ref_db ex_r_fail) ''b'' = {}"
  by (simp_all add: seen_ids_def zview_def ref_eval)

text \<open>A run of sightings of one bot that all get an answer: each a client clock, a server time and
  an id.\<close>

fun Seens :: "(real \<Rightarrow> real) \<Rightarrow> 'r rdb \<Rightarrow> RedisStore \<Rightarrow> string \<Rightarrow> (go_time \<times> go_time \<times> string) list \<Rightarrow> 'r \<Rightarrow>
    ('r \<times> bool list) option" where
  "Seens rnd rdb s i [] r = Some (r, [])"
| "Seens rnd rdb s i ((now, t, m) # calls) r = (case Seen rnd rdb s now t t i m r of
     (r', Inl e) \<Rightarrow> None
   | (r', Inr b) \<Rightarrow> map_option (map_prod id ((#) b)) (Seens rnd rdb s i calls r'))"

text \<open>What a set answers that forgets nothing.\<close>

fun set_answers :: "string set \<Rightarrow> string list \<Rightarrow> bool list" where
  "set_answers S [] = []"
| "set_answers S (m # ms) = (m \<noteq> '''' \<and> m \<in> S) # set_answers (if m = '''' then S else insert m S) ms"

definition call_ids :: "(go_time \<times> go_time \<times> string) list \<Rightarrow> string list" where
  "call_ids calls = map (\<lambda>(now, t, m). m) calls"

lemma call_ids_Cons [simp]: "call_ids ((now, t, m) # calls) = m # call_ids calls"
  by (simp add: call_ids_def)

lemma Seens_holds:
  assumes "redis rdb \<alpha>" "redis.holds_ids \<alpha> s t i S r" "Seens rnd rdb s i calls r = Some (r2, bs)" "0 < dedupCap s"
    and "\<forall>(now, t', m) \<in> set calls. t \<le> t' \<and> t' < t + expire_after (ttl s)"
    and "finite S" "card (S \<union> (set (call_ids calls) - {''''})) \<le> nat (dedupCap s)"
  shows "bs = set_answers S (call_ids calls) \<and> redis.holds_ids \<alpha> s t i (S \<union> (set (call_ids calls) - {''''})) r2"
  using assms(2,3,5-7)
proof (induction calls arbitrary: S r bs)
  case Nil
  then show ?case by (simp add: call_ids_def)
next
  case (Cons c calls)
  obtain now t0 m where c: "c = (now, t0, m)" by (rule prod_cases3)
  obtain r1 b bs1 where s: "Seen rnd rdb s now t0 t0 i m r = (r1, Inr b)" "Seens rnd rdb s i calls r1 = Some (r2, bs1)"
      "bs = b # bs1"
    using Cons.prems(2) by (auto simp: c split: prod.splits sum.splits)
  let ?S = "if m = '''' then S else insert m S"
  have u: "?S \<union> (set (call_ids calls) - {''''}) = S \<union> (set (call_ids (c # calls)) - {''''})" by (auto simp: c)
  have "card (insert m S) \<le> nat (dedupCap s)" if "m \<noteq> ''''"
    using Cons.prems(5) that card_mono [of "S \<union> (set (call_ids (c # calls)) - {''''})" "insert m S"] Cons.prems(4)
    by (auto simp: c)
  then have "m = '''' \<or> m \<in> S \<or> card S < nat (dedupCap s)"
    using Cons.prems(4) by (metis Suc_le_eq card_insert_disjoint)
  note h = redis.Seen_holds [OF assms(1) Cons.prems(1) s(1) assms(4) _ _ this]
  have "t \<le> t0" "t0 < t + expire_after (ttl s)" using Cons.prems(3) by (auto simp: c)
  from Cons.IH [OF h(2) [OF this] s(2)] h(1) [OF this] Cons.prems(3-5) show ?case
    unfolding u by (auto simp: c s(3))
qed

text \<open>C11. Dedup: an id answered as new was not remembered, and from then until the deadline that
  call set, over any run of further sightings of the bot at whatever server times, each sighting
  is answered as seen exactly when its id is the first one, was remembered before it or was
  sighted earlier in the run (so the first id is seen every time), provided the store answers and
  the ids fit into the set: the first id, what was remembered and what the run brings are at most
  \<open>dedupCap\<close>.  And without any such proviso the trim keeps a set within \<open>dedupCap\<close>.\<close>

theorem Seen_deduplicates:
  assumes "redis rdb \<alpha>" "0 < dedupCap s" "m \<noteq> ''''"
    and "Seen rnd rdb s now t t i m r = (r1, Inr False)" "Seens rnd rdb s i calls r1 = Some (r2, bs)"
    and "\<forall>(now', t', m') \<in> set calls. t \<le> t' \<and> t' < t + expire_after (ttl s)"
    and "card (insert m (seen_ids t (\<alpha> r) i) \<union> (set (call_ids calls) - {''''})) \<le> nat (dedupCap s)"
  shows "m \<notin> seen_ids t (\<alpha> r) i \<and> bs = set_answers (insert m (seen_ids t (\<alpha> r) i)) (call_ids calls) \<and>
    (\<forall>t'. t \<le> t' \<longrightarrow> t' < t + expire_after (ttl s) \<longrightarrow>
      seen_ids t' (\<alpha> r2) i = insert m (seen_ids t (\<alpha> r) i) \<union> (set (call_ids calls) - {''''})) \<and>
    (\<forall>j x clock srv q q' c. card (seen_ids srv (\<alpha> q) j) \<le> nat (dedupCap s) \<longrightarrow>
      Seen rnd rdb s clock srv srv j x q = (q', Inr c) \<longrightarrow> card (seen_ids srv (\<alpha> q') j) \<le> nat (dedupCap s))"
proof -
  let ?S = "insert m (seen_ids t (\<alpha> r) i)"
  have f: "finite ?S" by (simp add: seen_ids_def)
  have new: "m \<notin> seen_ids t (\<alpha> r) i" using redis.Seen_result(1) [OF assms(1,4,2)] assms(3) by simp
  have "card ?S \<le> nat (dedupCap s)" by (rule order_trans [OF card_mono assms(7)]) (use f in auto)
  then have "card (seen_ids t (\<alpha> r) i) < nat (dedupCap s)" using new f by simp
  then have h: "redis.holds_ids \<alpha> s t i ?S r1"
    using redis.Seen_remembers [OF assms(1,4,3,2)] by (simp add: redis.holds_ids_def [OF assms(1)])
  from Seens_holds [OF assms(1) h assms(5,2,6) f assms(7)] new redis.Seen_result(6) [OF assms(1) _ assms(2)]
  show ?thesis unfolding redis.holds_ids_def [OF assms(1)] by blast
qed

text \<open>A second id comes in between, at a later time.\<close>

definition ex_calls :: "(go_time \<times> go_time \<times> string) list" where
  "ex_calls = [(8, 6, ''m2''), (9, 7, ''m1'')]"

lemma ex_seen_again:
  "Seens (\<lambda>x. x) ref_rdb ex_store ''b'' ex_calls
     (fst (Seen (\<lambda>x. x) ref_rdb ex_store 5 0 0 ''b'' ''m1'' ex_r)) \<noteq> None"
  by (simp add: ex_calls_def Seen_def ref_eval)

lemma Seen_deduplicates_witness:
  "\<exists>r1 r2. Seen (\<lambda>x. x) ref_rdb ex_store 5 0 0 ''b'' ''m1'' ex_r = (r1, Inr False) \<and>
    Seens (\<lambda>x. x) ref_rdb ex_store ''b'' ex_calls r1 = Some (r2, [False, True])"
proof -
  obtain r1 where r1: "Seen (\<lambda>x. x) ref_rdb ex_store 5 0 0 ''b'' ''m1'' ex_r = (r1, Inr False)"
    using ex_seen_first by blast
  then obtain r2 bs where r2: "Seens (\<lambda>x. x) ref_rdb ex_store ''b'' ex_calls r1 = Some (r2, bs)"
    using ex_seen_again by auto
  have "0 < dedupCap ex_store" "\<forall>(now', t', m') \<in> set ex_calls. 0 \<le> t' \<and> t' < 0 + expire_after (ttl ex_store)"
      "card (insert ''m1'' (seen_ids 0 (ref_db ex_r) ''b'') \<union> (set (call_ids ex_calls) - {''''})) \<le> nat (dedupCap ex_store)"
    unfolding ex_seen_empty
    by (simp_all add: ex_store_def NewRedisStore_def expire_after_def ex_calls_def call_ids_def insert_Diff_if)
  from Seen_deduplicates [OF ref.redis_axioms this(1) _ r1 r2 this(2,3)]
  have "bs = set_answers (insert ''m1'' (seen_ids 0 (ref_db ex_r) ''b'')) (call_ids ex_calls)" by blast
  then show ?thesis using r1 r2 unfolding ex_seen_empty by (simp add: ex_calls_def call_ids_def)
qed

text \<open>C33. What is written is read back until the deadline the write set: a persisted tier, the
  cursor of a channel (and no other channel's or bot's cursor moves), the last activity and
  the message count, which grows by one.\<close>

theorem store_reads_back:
  assumes "redis rdb \<alpha>" "t' < t + expire_after (ttl s)"
  shows "(\<forall>i tr r r1 r2 tr'. SetTier rdb s t i tr r = (r1, None) \<longrightarrow> get_tier rdb t' i r1 = (r2, tr', None) \<longrightarrow> tr' = tr) \<and>
    (\<forall>i c v r r1 r2 v'. SetCursor rdb s t i c v r = (r1, None) \<longrightarrow> Cursor rdb t' i c r1 = (r2, Inr v') \<longrightarrow> v' = v) \<and>
    (\<forall>i c v r r1 i' c'. SetCursor rdb s t i c v r = (r1, None) \<longrightarrow> (i', c') \<noteq> (i, c) \<longrightarrow>
       cursor_in t (\<alpha> r1) i' c' = cursor_in t (\<alpha> r) i' c') \<and>
    (\<forall>i bumped r r1 r2 l n. BumpActivity rdb s t i bumped r = (r1, None) \<longrightarrow>
       min_int64 \<le> Unix bumped \<longrightarrow> Unix bumped \<le> max_int64 \<longrightarrow> Activity rdb t' i r1 = (r2, Inr (l, n)) \<longrightarrow>
       l = Unix bumped \<and> n = asInt (hview t (\<alpha> r) (redis_key i ''meta'') ''count'') + 1)"
proof (intro conjI allI impI)
  fix i c v r r1 i' c'
  assume a: "SetCursor rdb s t i c v r = (r1, None)" "(i', c') \<noteq> (i, c)"
  show "cursor_in t (\<alpha> r1) i' c' = cursor_in t (\<alpha> r) i' c'"
    using redis.SetCursor_set(1) [OF assms(1) a(1)] a(2) by auto
next
  fix i bumped r r1 r2 l n
  assume "BumpActivity rdb s t i bumped r = (r1, None)" "Activity rdb t' i r1 = (r2, Inr (l, n))"
    "min_int64 \<le> Unix bumped" "Unix bumped \<le> max_int64"
  then have "l = Unix bumped \<and> n = asInt (hview t (\<alpha> r) (redis_key i ''meta'') ''count'') + 1"
    using redis.Bump_Activity [OF assms(1) _ assms(2)] by blast
  then show "l = Unix bumped" "n = asInt (hview t (\<alpha> r) (redis_key i ''meta'') ''count'') + 1" by simp_all
qed (use redis.SetTier_get [OF assms(1) _ assms(2)] redis.SetCursor_later [OF assms(1) _ assms(2)] in blast)+

lemma store_reads_back_witness:
  "\<exists>r1 r2. SetTier ref_rdb ex_store 0 ''b'' Warm ex_r = (r1, None) \<and> get_tier ref_rdb 7 ''b'' r1 = (r2, Warm, None)"
proof -
  have c: "7 < 0 + expire_after (ttl ex_store)" by (simp add: ex_store_def NewRedisStore_def expire_after_def)
  obtain r1 where r1: "SetTier ref_rdb ex_store 0 ''b'' Warm ex_r = (r1, None)"
    by (simp add: SetTier_def pipeline_def ref_eval)
  moreover obtain r2 tr where r2: "get_tier ref_rdb 7 ''b'' r1 = (r2, tr, None)"
    using r1 by (auto simp: SetTier_def pipeline_def get_tier_def reply_str_def ref_eval)
  moreover have "tr = Warm" using store_reads_back [OF ref.redis_axioms c, THEN conjunct1] r1 r2 by blast
  ultimately show ?thesis by blast
qed

end
