(* ===== verification/Poller_Correct.thy ===== *)
theory Poller_Correct
  imports Poller Store_Correct
begin

text \<open>
  What one poll guarantees over any store that keeps the contract \<open>msg_store\<close>: only foreign
  and unseen messages are emitted, each id once, the count is right, and a cursor moves only
  past pages whose every message was dealt with; and, on Redis, what a failing trim costs.
\<close>

text \<open>The rest of the world leaves the store's contents alone.\<close>

definition quiet :: "('w \<Rightarrow> 'a) \<Rightarrow> 'w Poller \<Rightarrow> bool" where
  "quiet obs p \<longleftrightarrow>
     (\<forall>t c cl cu l w. obs (fst (lister p t c cl cu l w)) = obs w) \<and>
     (\<forall>w. obs (fst (limiter_Wait p w)) = obs w) \<and>
     (\<forall>h b m w. onMessage p = Some h \<longrightarrow> obs (h b m w) = obs w)"

text \<open>The ids of the emitted messages that carry one.\<close>

definition emitted_ids :: "Message list \<Rightarrow> string list" where
  "emitted_ids ms = filter (\<lambda>i. i \<noteq> '''') (map MessageID ms)"

lemma emitted_ids_simps [simp]:
  "emitted_ids [] = []"
  "emitted_ids (xs @ ys) = emitted_ids xs @ emitted_ids ys"
  "emitted_ids [m] = (if MessageID m = '''' then [] else [MessageID m])"
  by (simp_all add: emitted_ids_def)

text \<open>What holds of the emitted messages whatever happened, and what ties them to the store.\<close>

definition emission_ok :: "'w Poller \<Rightarrow> BotRef \<Rightarrow> string set \<Rightarrow> 'w poll_state \<Rightarrow> bool" where
  "emission_ok p br old s \<longleftrightarrow>
     0 \<le> found s \<and>
     (onMessage p \<noteq> None \<longrightarrow> found s = int (length (emitted s))) \<and>
     (\<forall>m \<in> set (emitted s). SenderID m \<noteq> BotUserID br) \<and>
     distinct (emitted_ids (emitted s)) \<and> set (emitted_ids (emitted s)) \<inter> old = {}"

lemma emission_ok_world [simp]: "emission_ok p br old (s\<lparr>ps_w := w\<rparr>) = emission_ok p br old s"
  by (simp add: emission_ok_def)

text \<open>The worlds a poll of \<open>br\<close> that starts in \<open>w\<close> can pass through: what its own calls lead to.\<close>

inductive poll_world :: "'w Poller \<Rightarrow> BotRef \<Rightarrow> string \<Rightarrow> 'w \<Rightarrow> 'w \<Rightarrow> bool" for p br token w where
  pw_start: "poll_world p br token w w"
| pw_channels: "poll_world p br token w w1 \<Longrightarrow> st_Channels (store p) (KeyID br) w1 = (w2, x) \<Longrightarrow> poll_world p br token w w2"
| pw_wait: "poll_world p br token w w1 \<Longrightarrow> limiter_Wait p w1 = (w2, ok) \<Longrightarrow> poll_world p br token w w2"
| pw_cursor: "poll_world p br token w w1 \<Longrightarrow> st_Cursor (store p) (KeyID br) c w1 = (w2, v) \<Longrightarrow> poll_world p br token w w2"
| pw_list: "poll_world p br token w w1 \<Longrightarrow> lister p token c '''' cu (pageLimit p) w1 = (w2, y) \<Longrightarrow> poll_world p br token w w2"
| pw_seen: "poll_world p br token w w1 \<Longrightarrow> st_Seen (store p) (KeyID br) mid w1 = (w2, z) \<Longrightarrow> poll_world p br token w w2"
| pw_handle: "poll_world p br token w w1 \<Longrightarrow> onMessage p = Some h \<Longrightarrow> poll_world p br token w (h br m w1)"
| pw_set: "poll_world p br token w w1 \<Longrightarrow> st_SetCursor (store p) (KeyID br) c v w1 = (w2, e) \<Longrightarrow> poll_world p br token w w2"

text \<open>A message that is not skipped: the bot's own, one the poll emitted, or one whose id was
  remembered when the poll began or was emitted.\<close>

definition passed :: "BotRef \<Rightarrow> string set \<Rightarrow> Message list \<Rightarrow> Message \<Rightarrow> bool" where
  "passed br old em m \<longleftrightarrow> SenderID m = BotUserID br \<or> m \<in> set em \<or>
     MessageID m \<noteq> '''' \<and> MessageID m \<in> old \<union> set (emitted_ids em)"

text \<open>The page of channel \<open>c\<close> asked for in \<open>w1\<close>, from the cursor the store then holds.\<close>

definition page_of :: "('w \<Rightarrow> string \<Rightarrow> string \<Rightarrow> string) \<Rightarrow> 'w Poller \<Rightarrow> BotRef \<Rightarrow> string \<Rightarrow> string \<Rightarrow> 'w \<Rightarrow>
    'w \<times> Message list \<times> string \<times> bool" where
  "page_of cur p br token c w1 = lister p token c '''' (cur w1 (KeyID br) c) (pageLimit p) w1"

lemma passed_mono: "passed br old em m \<Longrightarrow> set em \<subseteq> set em' \<Longrightarrow> passed br old em' m"
  by (auto simp: passed_def emitted_ids_def)

context msg_store begin

definition poll_inv :: "'w Poller \<Rightarrow> BotRef \<Rightarrow> string set \<Rightarrow> 'w poll_state \<Rightarrow> bool" where
  "poll_inv p br old s \<longleftrightarrow> emission_ok p br old s \<and>
     old \<union> set (emitted_ids (emitted s)) \<subseteq> seen (ps_w s) (KeyID br) \<and>
     (onMessage p \<noteq> None \<longrightarrow> seen (ps_w s) (KeyID br) \<subseteq> old \<union> set (emitted_ids (emitted s))) \<and>
     int (card (seen (ps_w s) (KeyID br))) \<le> int (card old) + found s"

text \<open>When a call of the store ends the poll, at most the id it was about is remembered without
  having been emitted.\<close>

definition poll_end :: "'w Poller \<Rightarrow> BotRef \<Rightarrow> string set \<Rightarrow> 'w poll_state \<Rightarrow> poll_err option \<Rightarrow> bool" where
  "poll_end p br old s err \<longleftrightarrow> (case err of None \<Rightarrow> poll_inv p br old s | Some e \<Rightarrow> emission_ok p br old s \<and>
     (int (card old) + found s < int cap \<longrightarrow> old \<union> set (emitted_ids (emitted s)) \<subseteq> seen (ps_w s) (KeyID br)) \<and>
     (onMessage p \<noteq> None \<longrightarrow> (\<exists>lost. seen (ps_w s) (KeyID br) \<subseteq> insert lost (old \<union> set (emitted_ids (emitted s))))))"

lemma poll_end_inv: "poll_inv p br old s \<Longrightarrow> poll_end p br old s err"
  by (cases err) (auto simp: poll_end_def poll_inv_def)

lemma poll_end_failed:
  assumes "poll_inv p br old s" "st_Seen st (KeyID br) mid (ps_w s) = (w, Inl e)"
  shows "poll_end p br old (s\<lparr>ps_w := w\<rparr>) (Some err)"
proof -
  let ?E = "old \<union> set (emitted_ids (emitted s))"
  have i: "emission_ok p br old s" "?E \<subseteq> seen (ps_w s) (KeyID br)"
    "onMessage p \<noteq> None \<Longrightarrow> seen (ps_w s) (KeyID br) \<subseteq> ?E"
    "int (card (seen (ps_w s) (KeyID br))) \<le> int (card old) + found s"
    using assms(1) by (simp_all add: poll_inv_def)
  have "?E \<subseteq> seen w (KeyID br)" if "int (card old) + found s < int cap"
    using seen_grow [OF assms(2)] i(2,4) that by (meson less_le_trans le_less_trans of_nat_less_iff order_trans)
  moreover have "seen w (KeyID br) \<subseteq> insert mid ?E" if "onMessage p \<noteq> None"
    using seen_forget [OF assms(2)] i(3) [OF that] by blast
  ultimately show ?thesis using i(1) unfolding poll_end_def by auto
qed

lemma poll_inv_world:
  "poll_inv p br old s \<Longrightarrow> seen w (KeyID br) = seen (ps_w s) (KeyID br) \<Longrightarrow> poll_inv p br old (s\<lparr>ps_w := w\<rparr>)"
  by (simp add: poll_inv_def)

text \<open>A new message: remembered, counted, emitted.\<close>

lemma poll_inv_fresh:
  assumes inv: "poll_inv p br old s" and q: "quiet seen p"
    and new: "st_Seen st (KeyID br) (MessageID m) (ps_w s) = (w, Inr False)" "SenderID m \<noteq> BotUserID br"
    and cap: "int (card old) + found s < int cap"
  shows "poll_inv p br old (poll_emit p br m (s\<lparr>ps_w := w, found := found s + 1\<rparr>))"
    "seen (ps_w (poll_emit p br m (s\<lparr>ps_w := w, found := found s + 1\<rparr>))) (KeyID br) =
      (if MessageID m = '''' then seen (ps_w s) (KeyID br) else insert (MessageID m) (seen (ps_w s) (KeyID br)))"
proof -
  let ?s' = "poll_emit p br m (s\<lparr>ps_w := w, found := found s + 1\<rparr>)"
  have un: "MessageID m = '''' \<or> MessageID m \<notin> seen (ps_w s) (KeyID br)"
    using seen_result [OF new(1)] by blast
  have "card (seen (ps_w s) (KeyID br)) < cap" using inv cap by (auto simp: poll_inv_def emission_ok_def)
  then have sw: "seen w (KeyID br) =
      (if MessageID m = '''' then seen (ps_w s) (KeyID br) else insert (MessageID m) (seen (ps_w s) (KeyID br)))"
    using seen_keep [OF new(1)] seen_same [OF new(1)] by auto
  have hw: "seen (ps_w ?s') = seen w"
    using q by (auto simp: poll_emit_def quiet_def split: option.splits)
  then show "seen (ps_w ?s') (KeyID br) =
      (if MessageID m = '''' then seen (ps_w s) (KeyID br) else insert (MessageID m) (seen (ps_w s) (KeyID br)))"
    using sw by simp
  have card: "card (seen w (KeyID br)) \<le> card (seen (ps_w s) (KeyID br)) + 1" by (rule seen_card [OF new(1)])
  show "poll_inv p br old ?s'"
  proof (cases "onMessage p")
    case None
    then show ?thesis using inv sw card by (auto simp: poll_inv_def emission_ok_def poll_emit_def)
  next
    case (Some h)
    then have e: "emitted ?s' = emitted s @ [m]" "found ?s' = found s + 1" by (simp_all add: poll_emit_def)
    show ?thesis
      using inv un sw card hw new(2) Some unfolding poll_inv_def emission_ok_def e by auto
  qed
qed

lemma poll_page_found: "found s \<le> found (fst (poll_page p br ms s))"
proof (induction p br ms s rule: poll_page.induct)
  case (2 p br m ms s)
  then show ?case
    by (auto simp: poll_emit_def split: prod.splits sum.splits bool.splits option.splits) fastforce+
qed simp

lemma poll_page_inv:
  assumes "poll_page p br ms s = (s', err)" "poll_inv p br old s" "quiet seen p" "store p = st"
    and "int (card old) + found s' \<le> int cap"
  shows "poll_end p br old s' err"
  using assms
proof (induction ms arbitrary: s)
  case Nil
  then show ?case by (auto simp: poll_end_inv)
next
  case (Cons m ms)
  show ?case
  proof (cases "SenderID m = BotUserID br")
    case True
    then show ?thesis using Cons.IH [of s] Cons.prems by simp
  next
    case False
    obtain w x where x: "st_Seen st (KeyID br) (MessageID m) (ps_w s) = (w, x)" by (rule prod.exhaust)
    show ?thesis
    proof (cases x)
      case (Inl e)
      then show ?thesis using Cons.prems False x poll_end_failed [OF Cons.prems(2), of "MessageID m" w e] by auto
    next
      case (Inr b)
      show ?thesis
      proof (cases b)
        case True
        then have sw: "seen w (KeyID br) = seen (ps_w s) (KeyID br)" using seen_same x Inr by simp
        have "poll_page p br ms (s\<lparr>ps_w := w\<rparr>) = (s', err)" using Cons.prems False x Inr True by simp
        from Cons.IH [OF this poll_inv_world [OF Cons.prems(2) sw] Cons.prems(3-5)] show ?thesis .
      next
        case False
        let ?s1 = "poll_emit p br m (s\<lparr>ps_w := w, found := found s + 1\<rparr>)"
        have x': "st_Seen st (KeyID br) (MessageID m) (ps_w s) = (w, Inr False)" using x Inr False by simp
        have p1: "poll_page p br ms ?s1 = (s', err)" using Cons.prems \<open>SenderID m \<noteq> BotUserID br\<close> x' by simp
        have "found ?s1 = found s + 1" by (simp add: poll_emit_def split: option.splits)
        then have "int (card old) + found s < int cap"
          using poll_page_found [of ?s1 p br ms] p1 Cons.prems(5) by simp
        note f = poll_inv_fresh [OF Cons.prems(2,3) x' \<open>SenderID m \<noteq> BotUserID br\<close> this]
        show ?thesis by (rule Cons.IH [OF p1 f(1) Cons.prems(3-5)])
      qed
    qed
  qed
qed

text \<open>What a page leaves without any assumption on room.\<close>

definition poll_past :: "'w Poller \<Rightarrow> BotRef \<Rightarrow> string \<Rightarrow> 'w \<Rightarrow> 'w poll_state \<Rightarrow> bool" where
  "poll_past p br token w0 s \<longleftrightarrow> poll_world p br token w0 (ps_w s) \<and>
     seen (ps_w s) (KeyID br) \<subseteq> seen w0 (KeyID br) \<union> set (emitted_ids (emitted s))"

lemma poll_page_past:
  assumes "poll_page p br ms s = (s', err)" "onMessage p \<noteq> None" "quiet seen p" "quiet cur p" "store p = st"
    and "poll_past p br token w0 s"
  shows "cur (ps_w s') = cur (ps_w s) \<and> set (emitted s) \<subseteq> set (emitted s') \<and>
    (err = None \<longrightarrow> poll_past p br token w0 s' \<and> (\<forall>m \<in> set ms. passed br (seen w0 (KeyID br)) (emitted s') m))"
  using assms(1,6)
proof (induction ms arbitrary: s)
  case (Cons m ms)
  show ?case
  proof (cases "SenderID m = BotUserID br")
    case True
    then show ?thesis using Cons.IH [of s] Cons.prems by (auto simp: passed_def)
  next
    case foreign: False
    obtain w x where x: "st_Seen st (KeyID br) (MessageID m) (ps_w s) = (w, x)" by (rule prod.exhaust)
    note cw = seen_cur [OF x]
    have pw: "poll_world p br token w0 w"
      using pw_seen [where mid = "MessageID m" and z = x] Cons.prems(2) x assms(5) by (auto simp: poll_past_def)
    show ?thesis
    proof (cases x)
      case (Inl e)
      then show ?thesis using Cons.prems(1) foreign x cw assms(5) by auto
    next
      case (Inr b)
      note x' = x [unfolded Inr]
      show ?thesis
      proof (cases b)
        case True
        have k: "MessageID m \<noteq> ''''" "MessageID m \<in> seen (ps_w s) (KeyID br)" "seen w (KeyID br) = seen (ps_w s) (KeyID br)"
          using seen_result [OF x'] seen_same [OF x'] True by simp_all
        then have p1: "poll_past p br token w0 (s\<lparr>ps_w := w\<rparr>)" using Cons.prems(2) pw by (simp add: poll_past_def)
        have em: "MessageID m \<in> seen w0 (KeyID br) \<union> set (emitted_ids (emitted s))"
          using Cons.prems(2) k(2) by (auto simp: poll_past_def)
        have "poll_page p br ms (s\<lparr>ps_w := w\<rparr>) = (s', err)" using Cons.prems(1) foreign x' True assms(5) by simp
        from Cons.IH [OF this p1] show ?thesis
          using em k(1) cw passed_mono [of br "seen w0 (KeyID br)" "emitted s" m "emitted s'"] by (auto simp: passed_def)
      next
        case False
        let ?s1 = "poll_emit p br m (s\<lparr>ps_w := w, found := found s + 1\<rparr>)"
        obtain h where h: "onMessage p = Some h" using assms(2) by blast
        have s1: "ps_w ?s1 = h br m w" "emitted ?s1 = emitted s @ [m]" by (simp_all add: poll_emit_def h)
        have q: "seen (h br m w) = seen w" "cur (h br m w) = cur w" using assms(3,4) h by (auto simp: quiet_def)
        have "poll_past p br token w0 ?s1"
          using Cons.prems(2) seen_forget [OF x'] seen_same [OF x'] pw_handle [OF pw h] unfolding poll_past_def s1 q
          by auto
        moreover have "poll_page p br ms ?s1 = (s', err)" using Cons.prems(1) foreign x' False assms(5) by simp
        ultimately show ?thesis using Cons.IH [of ?s1] s1 q cw by (auto simp: passed_def)
      qed
    qed
  qed
qed simp

lemma poll_channels_found: "found s \<le> found (fst (poll_channels p br token chs s))"
proof (induction chs arbitrary: s)
  case (Cons ch chs)
  have "found s0 \<le> found (fst (poll_channels p br token chs s1))"
    if "poll_page p br ms s0 = (s2, e)" "found s1 = found s2" for s0 s1 s2 ms e
    using poll_page_found [of s0 p br ms] that Cons [of s1] by simp
  moreover have "found s0 \<le> found s2" if "poll_page p br ms s0 = (s2, e)" for s0 s2 ms e
    using poll_page_found [of s0 p br ms] that by simp
  moreover have "found s \<le> found (fst (poll_channels p br token chs (s\<lparr>ps_w := w\<rparr>)))" for w
    using Cons [of "s\<lparr>ps_w := w\<rparr>"] by simp
  ultimately show ?case
    by (auto split: prod.splits sum.splits bool.splits option.splits) (fastforce | metis poll_state.simps)+
qed simp

text \<open>The result of the channel loop, as a step through one channel and the rest.\<close>

lemma poll_channels_cases:
  assumes "poll_channels p br token (ch # chs) s = (s', err)" "store p = st"
  obtains (stopped) w where "s' = s\<lparr>ps_w := w\<rparr>" "err \<noteq> None"
      "w = fst (limiter_Wait p (ps_w s)) \<or> w = fst (st_Cursor st (KeyID br) ch (fst (limiter_Wait p (ps_w s))))"
  | (unlisted) w1 w2 cursor msgs new where "st_Cursor st (KeyID br) ch (fst (limiter_Wait p (ps_w s))) = (w1, Inr cursor)"
      "lister p token ch '''' cursor (pageLimit p) w1 = (w2, msgs, new, True)"
      "poll_channels p br token chs (s\<lparr>ps_w := w2\<rparr>) = (s', err)"
  | (page_stopped) w1 w2 cursor msgs new where
      "st_Cursor st (KeyID br) ch (fst (limiter_Wait p (ps_w s))) = (w1, Inr cursor)"
      "lister p token ch '''' cursor (pageLimit p) w1 = (w2, msgs, new, False)"
      "poll_page p br msgs (s\<lparr>ps_w := w2\<rparr>) = (s', err)" "err \<noteq> None"
  | (page) s1 s2 w1 w2 cursor msgs new where
      "st_Cursor st (KeyID br) ch (fst (limiter_Wait p (ps_w s))) = (w1, Inr cursor)"
      "lister p token ch '''' cursor (pageLimit p) w1 = (w2, msgs, new, False)"
      "poll_page p br msgs (s\<lparr>ps_w := w2\<rparr>) = (s1, None)"
      "s2 = s1 \<or> (\<exists>w3. st_SetCursor st (KeyID br) ch new (ps_w s1) = (w3, None) \<and> s2 = s1\<lparr>ps_w := w3\<rparr>)"
      "poll_channels p br token chs s2 = (s', err)"
  | (set_stopped) s1 w1 w2 w3 cursor msgs new e where
      "st_Cursor st (KeyID br) ch (fst (limiter_Wait p (ps_w s))) = (w1, Inr cursor)"
      "lister p token ch '''' cursor (pageLimit p) w1 = (w2, msgs, new, False)"
      "poll_page p br msgs (s\<lparr>ps_w := w2\<rparr>) = (s1, None)" "s' = s1\<lparr>ps_w := w3\<rparr>" "err \<noteq> None"
      "st_SetCursor st (KeyID br) ch new (ps_w s1) = (w3, Some e)"
proof -
  obtain w0 ok where l: "limiter_Wait p (ps_w s) = (w0, ok)" by (rule prod.exhaust)
  show thesis
  proof (cases ok)
    case False
    then show thesis using assms l stopped [of w0] by auto
  next
    case True
    obtain w1 x where cu: "st_Cursor st (KeyID br) ch w0 = (w1, x)" by (rule prod.exhaust)
    show thesis
    proof (cases x)
      case (Inl e)
      then show thesis using assms l cu True stopped [of w1] by auto
    next
      case (Inr cursor)
      have cu': "st_Cursor st (KeyID br) ch (fst (limiter_Wait p (ps_w s))) = (w1, Inr cursor)"
        using l cu Inr by simp
      obtain w2 msgs new bad where li: "lister p token ch '''' cursor (pageLimit p) w1 = (w2, msgs, new, bad)"
        by (rule prod_cases4)
      note pre = assms l cu True Inr li
      show thesis
      proof (cases bad)
        case True
        then show thesis using pre unlisted [OF cu', of w2 msgs new] by simp
      next
        case False
        then have li': "lister p token ch '''' cursor (pageLimit p) w1 = (w2, msgs, new, False)" using li by simp
        obtain s1 e where pg: "poll_page p br msgs (s\<lparr>ps_w := w2\<rparr>) = (s1, e)" by (rule prod.exhaust)
        show thesis
        proof (cases e)
          case (Some e')
          then show thesis using pre False pg page_stopped [OF cu' li'] by auto
        next
          case None
          then have pg': "poll_page p br msgs (s\<lparr>ps_w := w2\<rparr>) = (s1, None)" using pg by simp
          show thesis
          proof (cases "new \<noteq> '''' \<and> new \<noteq> cursor")
            case True
            obtain w3 se where sc: "st_SetCursor st (KeyID br) ch new (ps_w s1) = (w3, se)" by (rule prod.exhaust)
            show thesis
            proof (cases se)
              case None
              then show thesis using pre False pg' True sc page [OF cu' li' pg', of "s1\<lparr>ps_w := w3\<rparr>"] by auto
            next
              case (Some e'')
              then show thesis using pre False pg' True sc set_stopped [OF cu' li' pg', of w3 e''] by auto
            qed
          next
            case no: False
            then show thesis using pre False pg' page [OF cu' li' pg', of s1] by (auto split: if_splits)
          qed
        qed
      qed
    qed
  qed
qed

text \<open>What the calls around a page leave of the store.\<close>

lemma ask_frame:
  assumes "quiet seen p" "quiet cur p" "st_Cursor st (KeyID br) ch (fst (limiter_Wait p w)) = (w1, x)"
  shows "seen w1 = seen w" "cur w1 = cur w"
    "lister p token ch '''' cu (pageLimit p) w1 = (w2, y) \<Longrightarrow> seen w2 = seen w \<and> cur w2 = cur w"
proof -
  have l: "seen (fst (limiter_Wait p w)) = seen w" "cur (fst (limiter_Wait p w)) = cur w"
    using assms(1,2) by (auto simp: quiet_def)
  show w1: "seen w1 = seen w" "cur w1 = cur w" using cursor_frame [OF assms(3)] l by simp_all
  assume a: "lister p token ch '''' cu (pageLimit p) w1 = (w2, y)"
  have "seen (fst (lister p token ch '''' cu (pageLimit p) w1)) = seen w1"
    "cur (fst (lister p token ch '''' cu (pageLimit p) w1)) = cur w1" using assms(1,2) by (auto simp: quiet_def)
  then show "seen w2 = seen w \<and> cur w2 = cur w" using w1 a by simp
qed

lemma stopped_frame:
  assumes "quiet seen p" "quiet cur p"
    "w = fst (limiter_Wait p w0) \<or> w = fst (st_Cursor st (KeyID br) ch (fst (limiter_Wait p w0)))"
  shows "seen w = seen w0" "cur w = cur w0"
proof -
  obtain w1 x where c: "st_Cursor st (KeyID br) ch (fst (limiter_Wait p w0)) = (w1, x)" by (rule prod.exhaust)
  show "seen w = seen w0" "cur w = cur w0"
    using assms ask_frame(1,2) [OF assms(1,2) c] c by (auto simp: quiet_def)
qed

lemma poll_channels_inv:
  assumes "poll_channels p br token chs s = (s', err)" "poll_inv p br old s" "quiet seen p" "quiet cur p" "store p = st"
    and "int (card old) + found s' \<le> int cap"
  shows "poll_end p br old s' err"
  using assms
proof (induction chs arbitrary: s)
  case Nil
  then show ?case by (auto simp: poll_end_inv)
next
  case (Cons ch chs)
  from Cons.prems(1,5) show ?case
  proof (cases rule: poll_channels_cases)
    case (stopped w)
    then show ?thesis
      using poll_end_inv [OF poll_inv_world [OF Cons.prems(2), of w]] stopped_frame(1) [OF Cons.prems(3,4) stopped(3)] by simp
  next
    case (unlisted w1 w2 cursor msgs new)
    have "seen w2 = seen (ps_w s)" using ask_frame(3) [OF Cons.prems(3,4) unlisted(1,2)] by simp
    from Cons.IH [OF unlisted(3) poll_inv_world [OF Cons.prems(2)] Cons.prems(3-6)] show ?thesis
      using \<open>seen w2 = seen (ps_w s)\<close> by simp
  next
    case (page_stopped w1 w2 cursor msgs new)
    have "seen w2 = seen (ps_w s)" using ask_frame(3) [OF Cons.prems(3,4) page_stopped(1,2)] by simp
    from poll_page_inv [OF page_stopped(3) poll_inv_world [OF Cons.prems(2)] Cons.prems(3,5,6)] show ?thesis
      using \<open>seen w2 = seen (ps_w s)\<close> by simp
  next
    case (set_stopped s1 w1 w2 w3 cursor msgs new e)
    have w2: "seen w2 = seen (ps_w s)" using ask_frame(3) [OF Cons.prems(3,4) set_stopped(1,2)] by simp
    have "int (card old) + found s1 \<le> int cap" using Cons.prems(6) set_stopped(4) by simp
    from poll_page_inv [OF set_stopped(3) poll_inv_world [OF Cons.prems(2)] Cons.prems(3,5) this]
    have "poll_inv p br old s1" using w2 by (simp add: poll_end_def)
    then show ?thesis
      using poll_end_inv [OF poll_inv_world] cursor_set [OF set_stopped(6)] set_stopped(4) by simp
  next
    case (page s1 s2 w1 w2 cursor msgs new)
    have w2: "seen w2 = seen (ps_w s)" using ask_frame(3) [OF Cons.prems(3,4) page(1,2)] by simp
    have f2: "found s2 = found s1" using page(4) by auto
    have "found s1 \<le> found s'" using poll_channels_found [of s2 p br token chs] page(5) f2 by simp
    then have c1: "int (card old) + found s1 \<le> int cap" using Cons.prems(6) by simp
    from poll_page_inv [OF page(3) poll_inv_world [OF Cons.prems(2)] Cons.prems(3,5) c1]
    have i1: "poll_inv p br old s1" using w2 by (simp add: poll_end_def)
    have "poll_inv p br old s2" using page(4) i1 poll_inv_world [OF i1] cursor_set by metis
    from Cons.IH [OF page(5) this Cons.prems(3-6)] show ?thesis .
  qed
qed

text \<open>The channels a poll has gone through, and where their cursors stand.\<close>

definition cursor_ok :: "'w Poller \<Rightarrow> BotRef \<Rightarrow> string \<Rightarrow> 'w \<Rightarrow> Message list \<Rightarrow> 'w \<Rightarrow> 'w \<Rightarrow> bool" where
  "cursor_ok p br token w0 em w w' \<longleftrightarrow> (\<forall>i c. cur w' i c = cur w i c \<or> i = KeyID br \<and>
     (\<exists>w1 w2 msgs. poll_world p br token w0 w1 \<and> page_of cur p br token c w1 = (w2, msgs, cur w' i c, False) \<and>
       (\<forall>m \<in> set msgs. passed br (seen w0 (KeyID br)) em m)))"

definition listed_ok :: "'w Poller \<Rightarrow> BotRef \<Rightarrow> string \<Rightarrow> 'w \<Rightarrow> Message list \<Rightarrow> string \<Rightarrow> bool" where
  "listed_ok p br token w0 em c \<longleftrightarrow> (\<exists>w1 w2 msgs v bad. poll_world p br token w0 w1 \<and>
     page_of cur p br token c w1 = (w2, msgs, v, bad) \<and>
     (bad \<or> (\<forall>m \<in> set msgs. passed br (seen w0 (KeyID br)) em m)))"

lemma cursor_ok_same: "cur w' = cur w \<Longrightarrow> cursor_ok p br token w0 em w w'"
  by (simp add: cursor_ok_def)

lemma cursor_ok_mono: "cursor_ok p br token w0 em w w' \<Longrightarrow> set em \<subseteq> set em' \<Longrightarrow> cursor_ok p br token w0 em' w w'"
  unfolding cursor_ok_def by (meson passed_mono)

lemma listed_ok_mono: "listed_ok p br token w0 em c \<Longrightarrow> set em \<subseteq> set em' \<Longrightarrow> listed_ok p br token w0 em' c"
  unfolding listed_ok_def by (meson passed_mono)

lemma cursor_ok_trans:
  "cursor_ok p br token w0 em w w' \<Longrightarrow> cursor_ok p br token w0 em w' w'' \<Longrightarrow> cursor_ok p br token w0 em w w''"
  unfolding cursor_ok_def by metis

lemma cursor_ok_set:
  assumes "poll_world p br token w0 w1" "page_of cur p br token ch w1 = (w2, msgs, new, False)"
    and "\<forall>m \<in> set msgs. passed br (seen w0 (KeyID br)) em m"
    and "cur w' = (\<lambda>i' c'. if i' = KeyID br \<and> c' = ch then new else cur w i' c') \<or> cur w' = cur w"
  shows "cursor_ok p br token w0 em w w'"
proof (cases "cur w' = cur w")
  case True
  then show ?thesis by (rule cursor_ok_same)
next
  case False
  then have "cur w' i c = (if i = KeyID br \<and> c = ch then new else cur w i c)" for i c using assms(4) by simp
  then show ?thesis using assms(1-3) unfolding cursor_ok_def by (smt (verit))
qed

lemma poll_past_world:
  "poll_past p br token w0 s \<Longrightarrow> poll_world p br token w0 w \<Longrightarrow> seen w = seen (ps_w s) \<Longrightarrow>
    poll_past p br token w0 (s\<lparr>ps_w := w\<rparr>)"
  by (simp add: poll_past_def)

lemma poll_world_ask:
  assumes "poll_world p br token w0 w" "st_Cursor st (KeyID br) ch (fst (limiter_Wait p w)) = (w1, x)" "store p = st"
  shows "poll_world p br token w0 w1"
    "lister p token ch '''' cu (pageLimit p) w1 = (w2, y) \<Longrightarrow> poll_world p br token w0 w2"
proof -
  obtain wl ok where "limiter_Wait p w = (wl, ok)" by (rule prod.exhaust)
  then show w1: "poll_world p br token w0 w1" using assms pw_wait pw_cursor by fastforce
  show "lister p token ch '''' cu (pageLimit p) w1 = (w2, y) \<Longrightarrow> poll_world p br token w0 w2"
    by (rule pw_list [OF w1])
qed

lemma poll_channels_past:
  assumes "poll_channels p br token chs s = (s', err)" "onMessage p \<noteq> None" "quiet seen p" "quiet cur p" "store p = st"
    and "poll_past p br token w0 s"
  shows "cursor_ok p br token w0 (emitted s') (ps_w s) (ps_w s') \<and> set (emitted s) \<subseteq> set (emitted s') \<and>
    (err = None \<longrightarrow> (\<forall>c \<in> set chs. listed_ok p br token w0 (emitted s') c))"
  using assms(1,6)
proof (induction chs arbitrary: s)
  case Nil
  then show ?case by (simp add: cursor_ok_same)
next
  case (Cons ch chs)
  have pw: "poll_world p br token w0 (ps_w s)" using Cons.prems(2) by (simp add: poll_past_def)
  note ask = ask_frame [OF assms(3,4)] and go = poll_world_ask [OF pw _ assms(5)]
  from Cons.prems(1) assms(5) show ?case
  proof (cases rule: poll_channels_cases)
    case (stopped w)
    then show ?thesis using stopped_frame(2) [OF assms(3,4) stopped(3)] stopped(1,2) by (auto simp: cursor_ok_same)
  next
    case (unlisted w1 w2 cursor msgs new)
    note w2 = ask(3) [OF unlisted(1,2)]
    have cu: "cursor = cur w1 (KeyID br) ch"
      using cursor_get [OF unlisted(1)] cursor_frame [OF unlisted(1)] by simp
    have l: "listed_ok p br token w0 em ch" for em
      using go(1) [OF unlisted(1)] unlisted(2) cu unfolding listed_ok_def page_of_def by blast
    have "poll_past p br token w0 (s\<lparr>ps_w := w2\<rparr>)"
      by (rule poll_past_world [OF Cons.prems(2) go(2) [OF unlisted(1,2)]]) (use w2 in simp)
    from Cons.IH [OF unlisted(3) this] show ?thesis
      using l cursor_ok_trans [OF cursor_ok_same [of w2 "ps_w s"]] w2 by auto
  next
    case (page_stopped w1 w2 cursor msgs new)
    note w2 = ask(3) [OF page_stopped(1,2)]
    have "poll_past p br token w0 (s\<lparr>ps_w := w2\<rparr>)"
      by (rule poll_past_world [OF Cons.prems(2) go(2) [OF page_stopped(1,2)]]) (use w2 in simp)
    from poll_page_past [OF page_stopped(3) assms(2-5) this] show ?thesis
      using w2 page_stopped(4) by (auto simp: cursor_ok_same)
  next
    case (set_stopped s1 w1 w2 w3 cursor msgs new e)
    note w2 = ask(3) [OF set_stopped(1,2)]
    have cu: "cursor = cur w1 (KeyID br) ch"
      using cursor_get [OF set_stopped(1)] cursor_frame [OF set_stopped(1)] by simp
    have "poll_past p br token w0 (s\<lparr>ps_w := w2\<rparr>)"
      by (rule poll_past_world [OF Cons.prems(2) go(2) [OF set_stopped(1,2)]]) (use w2 in simp)
    note p1 = poll_page_past [OF set_stopped(3) assms(2-5) this]
    have c1: "cur (ps_w s1) = cur (ps_w s)" using p1 w2 by simp
    have "cursor_ok p br token w0 (emitted s1) (ps_w s) w3"
      by (rule cursor_ok_set [OF go(1) [OF set_stopped(1)]])
        (use p1 cursor_set [OF set_stopped(6), unfolded c1] set_stopped(2) cu in \<open>auto simp: page_of_def\<close>)
    then show ?thesis using p1 set_stopped(4,5) by auto
  next
    case (page s1 s2 w1 w2 cursor msgs new)
    note w2 = ask(3) [OF page(1,2)]
    have cu: "cursor = cur w1 (KeyID br) ch"
      using cursor_get [OF page(1)] cursor_frame [OF page(1)] by simp
    have "poll_past p br token w0 (s\<lparr>ps_w := w2\<rparr>)"
      by (rule poll_past_world [OF Cons.prems(2) go(2) [OF page(1,2)]]) (use w2 in simp)
    note p1 = poll_page_past [OF page(3) assms(2-5) this]
    have l: "listed_ok p br token w0 (emitted s1) ch"
      using p1 go(1) [OF page(1)] page(2) cu unfolding listed_ok_def page_of_def by blast
    have e2: "emitted s2 = emitted s1" using page(4) by auto
    have past1: "poll_past p br token w0 s1" using p1 by blast
    have s2: "poll_past p br token w0 s2" "cursor_ok p br token w0 (emitted s1) (ps_w s) (ps_w s2)"
    proof -
      show "poll_past p br token w0 s2"
        using page(4) past1 poll_past_world [OF past1] pw_set cursor_set assms(5) by (metis poll_past_def)
      from page(4) show "cursor_ok p br token w0 (emitted s1) (ps_w s) (ps_w s2)"
      proof
        assume "s2 = s1"
        then show ?thesis using p1 w2 by (simp add: cursor_ok_same)
      next
        assume "\<exists>w3. st_SetCursor st (KeyID br) ch new (ps_w s1) = (w3, None) \<and> s2 = s1\<lparr>ps_w := w3\<rparr>"
        then obtain w3 where w3: "st_SetCursor st (KeyID br) ch new (ps_w s1) = (w3, None)" "s2 = s1\<lparr>ps_w := w3\<rparr>" by blast
        have c1: "cur (ps_w s1) = cur (ps_w s)" using p1 w2 by simp
        show ?thesis
          by (rule cursor_ok_set [OF go(1) [OF page(1)]])
            (use p1 cursor_set [OF w3(1), unfolded c1] w3(2) page(2) cu in \<open>auto simp: page_of_def\<close>)
      qed
    qed
    note ih = Cons.IH [OF page(5) s2(1)]
    have "set (emitted s1) \<subseteq> set (emitted s')" using ih e2 by simp
    then show ?thesis
      using ih e2 p1 cursor_ok_trans [OF cursor_ok_mono [OF s2(2)]] listed_ok_mono [OF l] by auto
  qed
qed

lemma PollOnce_inv:
  assumes "PollOnce p br token w = (s, err)" "quiet seen p" "quiet cur p" "store p = st"
    and "int (card (seen w (KeyID br))) + found s \<le> int cap"
  shows "poll_end p br (seen w (KeyID br)) s err"
proof -
  obtain w1 x where ch: "st_Channels st (KeyID br) w = (w1, x)" by (rule prod.exhaust)
  note w1 = channels_frame [OF ch]
  have inv0: "poll_inv p br (seen w (KeyID br)) \<lparr>ps_w = w1, found = 0, emitted = []\<rparr>" (is "poll_inv _ _ _ ?s0")
    using w1 by (simp add: poll_inv_def emission_ok_def)
  show ?thesis
  proof (cases x)
    case (Inl e)
    then show ?thesis using assms(1,4) ch poll_end_inv [OF inv0] by (auto simp: PollOnce_def)
  next
    case (Inr chs)
    obtain s' e where pc: "poll_channels p br token chs ?s0 = (s', e)" by (rule prod.exhaust)
    have r: "s = s' \<and> err = e \<or> e = None \<and> err = None \<and> s = s'\<lparr>ps_w := fst (st_BumpActivity st (KeyID br) (ps_w s'))\<rparr>"
      using assms(1,4) ch Inr pc by (auto simp: PollOnce_def split: option.splits if_splits)
    have "int (card (seen w (KeyID br))) + found s' \<le> int cap" using assms(5) r by auto
    note e = poll_channels_inv [OF pc inv0 assms(2-4) this]
    then show ?thesis using r poll_inv_world bump_frame by (auto simp: poll_end_def)
  qed
qed

lemma PollOnce_past:
  assumes "PollOnce p br token w = (s, err)" "onMessage p \<noteq> None" "quiet seen p" "quiet cur p" "store p = st"
  shows "cursor_ok p br token w (emitted s) w (ps_w s) \<and>
    (err = None \<longrightarrow> (\<exists>w1 chs. st_Channels st (KeyID br) w = (w1, Inr chs) \<and>
       (\<forall>c \<in> set chs. listed_ok p br token w (emitted s) c)))"
proof -
  obtain w1 x where ch: "st_Channels st (KeyID br) w = (w1, x)" by (rule prod.exhaust)
  note w1 = channels_frame [OF ch]
  show ?thesis
  proof (cases x)
    case (Inl e)
    then show ?thesis using assms(1,5) ch w1 by (auto simp: PollOnce_def cursor_ok_same)
  next
    case (Inr chs)
    let ?s0 = "\<lparr>ps_w = w1, found = 0, emitted = []\<rparr>"
    obtain s' e where pc: "poll_channels p br token chs ?s0 = (s', e)" by (rule prod.exhaust)
    have r: "emitted s = emitted s'" "err = e" "cur (ps_w s) = cur (ps_w s')"
      using assms(1,5) ch Inr pc bump_frame [of "KeyID br" "ps_w s'"]
      by (auto simp: PollOnce_def split: option.splits if_splits)
    have "poll_past p br token w ?s0"
      using w1 pw_channels [OF pw_start, of p br w w1] ch assms(5) by (auto simp: poll_past_def)
    from poll_channels_past [OF pc assms(2-5) this]
    have c: "cursor_ok p br token w (emitted s) w1 (ps_w s')"
      and l: "err = None \<longrightarrow> (\<forall>c \<in> set chs. listed_ok p br token w (emitted s) c)"
      using r by simp_all
    have "cursor_ok p br token w (emitted s) w (ps_w s)"
      using cursor_ok_trans [OF cursor_ok_trans [OF cursor_ok_same c] cursor_ok_same] w1 r(3) by simp
    then show ?thesis using l ch Inr by blast
  qed
qed

end

section \<open>The properties\<close>

text \<open>A Redis world with one channel, a lister that answers the bot's own message and the same
  foreign message twice, and a poller on them.\<close>

definition ex_br :: BotRef where
  "ex_br = BotRef0\<lparr>KeyID := ''b'', BotUserID := ''7''\<rparr>"

definition ex_msg :: "string \<Rightarrow> string \<Rightarrow> Message" where
  "ex_msg mid sender = Message0\<lparr>MessageID := mid, SenderID := sender\<rparr>"

definition ex_world :: "(db \<times> bool list) rworld" where
  "ex_world = \<lparr>rw_r = (empty_db\<lparr>ds := (\<lambda>_. [])(redis_key ''b'' ''chan'' := [''c1''])\<rparr>, []), rw_now = 5, rw_srv = 0\<rparr>"

definition ex_poller :: "(db \<times> bool list) rworld Poller" where
  "ex_poller = New_Poller (\<lambda>_ _ _ _ _ w. (w, [ex_msg ''1'' ''7'', ex_msg ''2'' ''8'', ex_msg ''2'' ''8''], ''2'', False))
     (redis_store (\<lambda>x. x) ref_rdb ex_store) (Some (\<lambda>_ _ w. w)) (\<lambda>_ w. (w, True)) 0 0 0"

lemma ex_quiet: "quiet obs ex_poller"
  by (simp add: quiet_def ex_poller_def New_Poller_def Let_def)

lemma ex_poll: "\<exists>s. PollOnce ex_poller ex_br ''t'' ex_world = (s, None) \<and> found s = 1 \<and> emitted s = [ex_msg ''2'' ''8'']"
  by (simp add: PollOnce_def ex_poller_def New_Poller_def ex_br_def ex_world_def redis_store_def on_r_def
      ex_msg_def Message0_def BotRef0_def Channels_def reply_list_def Cursor_def reply_str_def Seen_def poll_emit_def
      SetCursor_def pipeline_def ref_eval)

text \<open>C16. One poll, whatever ends it, emits only messages of others, each message id at most once
  and none that the store remembered before; with a handler set the count is the number of
  emitted messages.  (The dedup set must have room for what the poll found.)\<close>

theorem PollOnce_emits_new_messages_once:
  assumes "msg_store st seen cur cap" "store p = st" "quiet seen p" "quiet cur p"
    and "PollOnce p br token w = (s, err)" "int (card (seen w (KeyID br))) + found s \<le> int cap"
  shows "(\<forall>m \<in> set (emitted s). SenderID m \<noteq> BotUserID br) \<and> distinct (emitted_ids (emitted s)) \<and>
    set (emitted_ids (emitted s)) \<inter> seen w (KeyID br) = {} \<and>
    (onMessage p \<noteq> None \<longrightarrow> found s = int (length (emitted s)))"
  using msg_store.PollOnce_inv [OF assms(1,5,3,4,2,6)]
  by (cases err) (auto simp: msg_store.poll_end_def [OF assms(1)] msg_store.poll_inv_def [OF assms(1)] emission_ok_def)

lemma ex_store_contract:
  "msg_store (redis_store (\<lambda>x. x) ref_rdb ex_store) (\<lambda>w. seen_ids (rw_srv w) (ref_db (rw_r w)))
     (\<lambda>w. cursor_in (rw_srv w) (ref_db (rw_r w))) 2048"
  using ref_store.store.msg_store_axioms by (simp add: ex_store_def NewRedisStore_def)

lemma ex_store_of: "store ex_poller = redis_store (\<lambda>x. x) ref_rdb ex_store"
  by (simp add: ex_poller_def New_Poller_def Let_def)

lemma ex_world_seen: "seen_ids (rw_srv ex_world) (ref_db (rw_r ex_world)) (KeyID ex_br) = {}"
  by (simp add: ex_world_def seen_ids_def zview_def ref_db_def empty_db_def)

lemma PollOnce_emits_new_messages_once_witness:
  "\<exists>s. PollOnce ex_poller ex_br ''t'' ex_world = (s, None) \<and> emitted s = [ex_msg ''2'' ''8''] \<and>
    distinct (emitted_ids (emitted s))"
proof -
  obtain s where s: "PollOnce ex_poller ex_br ''t'' ex_world = (s, None)" "found s = 1" "emitted s = [ex_msg ''2'' ''8'']"
    using ex_poll by blast
  have "int (card (seen_ids (rw_srv ex_world) (ref_db (rw_r ex_world)) (KeyID ex_br))) + found s \<le> int 2048"
    unfolding ex_world_seen using s by simp
  from PollOnce_emits_new_messages_once [OF ex_store_contract ex_store_of ex_quiet ex_quiet s(1) this] s
  show ?thesis by blast
qed

text \<open>C7. A poll never skips a message, however it ends and whatever room the dedup set has: a
  cursor that the poll changed is one of this bot and is now the end of a page the lister gave
  during the poll when asked from the cursor the store then held, and every message of that page is
  the bot's own, was handed to the handler by this poll, or carries an id that was remembered when
  the poll began or was handed out by it.  A poll that ends without an error has so dealt with a
  page of every channel of the bot whose listing did not fail; and if the dedup set had room for
  what it found, everything it handed out is remembered.\<close>

theorem PollOnce_never_skips:
  assumes "msg_store st seen cur cap" "store p = st" "quiet seen p" "quiet cur p" "onMessage p \<noteq> None"
    and "PollOnce p br token w = (s, err)"
  shows "(\<forall>i c. cur (ps_w s) i c = cur w i c \<or> i = KeyID br \<and>
      (\<exists>w1 w2 msgs. poll_world p br token w w1 \<and> page_of cur p br token c w1 = (w2, msgs, cur (ps_w s) i c, False) \<and>
        (\<forall>m \<in> set msgs. passed br (seen w (KeyID br)) (emitted s) m))) \<and>
    (err = None \<longrightarrow> (\<exists>w0 chs. st_Channels st (KeyID br) w = (w0, Inr chs) \<and>
      (\<forall>c \<in> set chs. \<exists>w1 w2 msgs v bad. poll_world p br token w w1 \<and>
        page_of cur p br token c w1 = (w2, msgs, v, bad) \<and>
        (bad \<or> (\<forall>m \<in> set msgs. passed br (seen w (KeyID br)) (emitted s) m))))) \<and>
    (err = None \<longrightarrow> int (card (seen w (KeyID br))) + found s \<le> int cap \<longrightarrow>
      seen (ps_w s) (KeyID br) = seen w (KeyID br) \<union> set (emitted_ids (emitted s)))"
proof -
  note m = assms(1)
  have e: "seen (ps_w s) (KeyID br) = seen w (KeyID br) \<union> set (emitted_ids (emitted s))"
    if "err = None" "int (card (seen w (KeyID br))) + found s \<le> int cap"
    using msg_store.PollOnce_inv [OF m assms(6,3,4,2) that(2)] that(1) assms(5)
    by (auto simp: msg_store.poll_end_def [OF m] msg_store.poll_inv_def [OF m])
  then show ?thesis
    using msg_store.PollOnce_past [OF m assms(6,5,3,4,2)]
    unfolding msg_store.cursor_ok_def [OF m] msg_store.listed_ok_def [OF m] by blast
qed

lemma ex_poll_cursor:
  "cursor_in 0 (ref_db (rw_r ex_world)) ''b'' ''c1'' = ''''"
  "cursor_in 0 (ref_db (rw_r (ps_w (fst (PollOnce ex_poller ex_br ''t'' ex_world))))) ''b'' ''c1'' = ''2''"
  "rw_srv ex_world = 0" "rw_srv (ps_w (fst (PollOnce ex_poller ex_br ''t'' ex_world))) = 0"
  by (simp_all add: PollOnce_def ex_poller_def New_Poller_def ex_br_def ex_world_def redis_store_def on_r_def
      ex_msg_def Message0_def BotRef0_def Channels_def reply_list_def Cursor_def reply_str_def Seen_def poll_emit_def
      SetCursor_def BumpActivity_def pipeline_def ref_eval cursor_in_def hview_def redis_key_inj)

lemma ex_handled: "onMessage ex_poller \<noteq> None" "KeyID ex_br = ''b''"
  by (simp_all add: ex_poller_def New_Poller_def Let_def ex_br_def)

lemma PollOnce_never_skips_witness:
  "\<exists>s w1 w2 msgs. PollOnce ex_poller ex_br ''t'' ex_world = (s, None) \<and>
    page_of (\<lambda>w. cursor_in (rw_srv w) (ref_db (rw_r w))) ex_poller ex_br ''t'' ''c1'' w1 = (w2, msgs, ''2'', False) \<and>
    seen_ids (rw_srv (ps_w s)) (ref_db (rw_r (ps_w s))) (KeyID ex_br) = {''2''}"
proof -
  obtain s where s: "PollOnce ex_poller ex_br ''t'' ex_world = (s, None)" "found s = 1" "emitted s = [ex_msg ''2'' ''8'']"
    using ex_poll by blast
  have c: "cursor_in (rw_srv (ps_w s)) (ref_db (rw_r (ps_w s))) ''b'' ''c1'' = ''2''"
    "cursor_in (rw_srv ex_world) (ref_db (rw_r ex_world)) ''b'' ''c1'' = ''''"
    using ex_poll_cursor s(1) by simp_all
  have "int (card (seen_ids (rw_srv ex_world) (ref_db (rw_r ex_world)) (KeyID ex_br))) + found s \<le> int 2048"
    unfolding ex_world_seen using s by simp
  moreover note t = PollOnce_never_skips [OF ex_store_contract ex_store_of ex_quiet ex_quiet ex_handled(1) s(1)]
  ultimately have "seen_ids (rw_srv (ps_w s)) (ref_db (rw_r (ps_w s))) (KeyID ex_br) = {''2''}"
    unfolding ex_world_seen using s(3) by (simp add: ex_msg_def)
  moreover obtain w1 w2 msgs where
    "page_of (\<lambda>w. cursor_in (rw_srv w) (ref_db (rw_r w))) ex_poller ex_br ''t'' ''c1'' w1 = (w2, msgs, ''2'', False)"
    using t [THEN conjunct1, THEN spec, THEN spec, of "''b''" "''c1''"] c by auto
  ultimately show ?thesis using s(1) by blast
qed








end
