(* ===== verification/Conn.thy ===== *)
theory Conn
  imports Wire_Correct
begin

text \<open>
  \<open>lib/ws/conn.go\<close>: one hot socket.  The gorilla socket under it is a record of what its
  n-th write answers, the number of writes so far and the frames it accepted, so that every
  pattern of network failures is a value.  A request waits in several atomic steps, between
  which other goroutines run: each step is a function here, and \<open>sock_step\<close> interleaves them.
\<close>

section \<open>The socket and the connection\<close>

record websocket =
  ws_answers :: "nat \<Rightarrow> string option"
  ws_calls :: nat
  ws_sent :: "bytes list"
  ws_open :: bool

datatype conn_err = ErrCloseSent | WriteFailed string | DialFailed string | ErrNoAck | ErrRejected

text \<open>A write on a socket that was closed fails; \<open>None\<close> is success.\<close>

definition WriteMessage :: "bytes \<Rightarrow> websocket \<Rightarrow> websocket \<times> conn_err option" where
  "WriteMessage b s =
     (let s' = s\<lparr>ws_calls := Suc (ws_calls s)\<rparr> in
      if \<not> ws_open s then (s', Some (WriteFailed ''use of closed connection''))
      else (case ws_answers s (ws_calls s) of
          Some e \<Rightarrow> (s', Some (WriteFailed e))
        | None \<Rightarrow> (s'\<lparr>ws_sent := ws_sent s @ [b]\<rparr>, None)))"

record Conn =
  ws :: websocket
  botUserID :: string
  c_closed :: bool
  pingCid :: u64
  pending :: "u64 \<rightharpoonup> Ack option"
  joined :: "string \<rightharpoonup> bool"

text \<open>\<open>pending\<close> maps a request id to what its one-place channel holds.\<close>

definition send :: "bytes \<Rightarrow> Conn \<Rightarrow> Conn \<times> conn_err option" where
  "send env c =
     (if c_closed c then (c, Some ErrCloseSent)
      else (case WriteMessage env (ws c) of (s, r) \<Rightarrow> (c\<lparr>ws := s\<rparr>, r)))"

definition HasJoined :: "string \<Rightarrow> Conn \<Rightarrow> bool" where
  "HasJoined clan c = (joined c clan = Some True)"

definition JoinClan :: "wire_lib \<Rightarrow> string \<Rightarrow> Conn \<Rightarrow> Conn \<times> conn_err option" where
  "JoinClan w clan c =
     (if joined c clan = Some True then (c, None)
      else (case send (BuildClanJoinEnvelope w clan) c of
          (c', Some e) \<Rightarrow> (c', Some e)
        | (c', None) \<Rightarrow> (c'\<lparr>joined := (joined c')(clan \<mapsto> True)\<rparr>, None)))"

definition Close :: "Conn \<Rightarrow> Conn" where
  "Close c = c\<lparr>c_closed := True, ws := (ws c)\<lparr>ws_open := False\<rparr>\<rparr>"

definition conn_Closed :: "Conn \<Rightarrow> bool" where
  "conn_Closed c = c_closed c"

text \<open>\<open>url.QueryEscape\<close>.\<close>

definition hex_digit :: "nat \<Rightarrow> char" where
  "hex_digit n = ''0123456789ABCDEF'' ! n"

definition query_escape_char :: "char \<Rightarrow> string" where
  "query_escape_char ch =
     (let n = of_char ch :: nat in
      if n = 32 then ''+''
      else if 48 \<le> n \<and> n \<le> 57 \<or> 65 \<le> n \<and> n \<le> 90 \<or> 97 \<le> n \<and> n \<le> 122 \<or> n \<in> {45, 46, 95, 126} then [ch]
      else ''%'' @ [hex_digit (n div 16), hex_digit (n mod 16)])"

definition endpoint :: "string \<Rightarrow> bool \<Rightarrow> string \<Rightarrow> string" where
  "endpoint host ssl token =
     (if ssl then ''wss'' else ''ws'') @ ''://'' @ host @ ''/ws?lang=en&status=true&token='' @
       concat (map query_escape_char token) @ ''&format=protobuf''"

text \<open>\<open>Dial\<close> takes the dialler (a socket or an error for each address); joins that fail are
  dropped.  The read loop it starts is \<open>readLoop\<close>.\<close>

definition new_conn :: "websocket \<Rightarrow> string \<Rightarrow> Conn" where
  "new_conn raw b = \<lparr>ws = raw, botUserID = b, c_closed = False, pingCid = 0,
     pending = Map.empty, joined = Map.empty\<rparr>"

definition join_all :: "wire_lib \<Rightarrow> string list \<Rightarrow> Conn \<Rightarrow> Conn" where
  "join_all w ids c = foldl (\<lambda>c i. fst (JoinClan w i c)) c ids"

definition Dial :: "wire_lib \<Rightarrow> (string \<Rightarrow> string + websocket) \<Rightarrow> string \<Rightarrow> bool \<Rightarrow> string \<Rightarrow> string \<Rightarrow>
    string list \<Rightarrow> conn_err + Conn" where
  "Dial w dialer host ssl token b clanIDs =
     (case dialer (endpoint host ssl token) of
        Inl e \<Rightarrow> Inl (DialFailed e)
      | Inr raw \<Rightarrow> Inr (join_all w clanIDs (new_conn raw b)))"

section \<open>Reading\<close>

definition hasPending :: "Conn \<Rightarrow> bool" where
  "hasPending c \<longleftrightarrow> pending c \<noteq> Map.empty"

text \<open>A full channel drops the reply.\<close>

definition resolve :: "Ack \<Rightarrow> Conn \<Rightarrow> Conn" where
  "resolve a c = (case pending c (Cid a) of
       Some None \<Rightarrow> c\<lparr>pending := (pending c)(Cid a \<mapsto> Some a)\<rparr>
     | _ \<Rightarrow> c)"

text \<open>One iteration of the read loop on a frame: the connection, and the message handed to
  \<open>emit\<close>; \<open>None\<close> if a decoder does not return.\<close>

definition read_frame :: "wire_lib \<Rightarrow> bytes \<Rightarrow> Conn \<Rightarrow> (Conn \<times> Message option) option" where
  "read_frame w data c =
     (case (if hasPending c then DecodeAck w data else Some (Ack0, False)) of
        None \<Rightarrow> None
      | Some (a, True) \<Rightarrow> Some (resolve a c, None)
      | Some (a, False) \<Rightarrow>
     (case DecodeChannelMessage w data of
        None \<Rightarrow> None
      | Some (msg, ok, derr) \<Rightarrow>
          if derr \<noteq> None \<or> \<not> ok then Some (c, None)
          else if SenderID msg = botUserID c then Some (c, None)
          else Some (c, Some msg)))"

text \<open>A run of iterations, and the whole loop over the frames a socket yields before its read
  fails.  \<open>emit\<close> recovers from a panic of the handler, so the loop outlives it; the messages
  are collected in the order it is called.\<close>

fun read_frames :: "wire_lib \<Rightarrow> bytes list \<Rightarrow> Conn \<Rightarrow> (Conn \<times> Message list) option" where
  "read_frames w [] c = Some (c, [])"
| "read_frames w (data # rest) c =
     (case read_frame w data c of
        None \<Rightarrow> None
      | Some (c', m) \<Rightarrow>
          (case read_frames w rest c' of
             None \<Rightarrow> None
           | Some (c'', ms) \<Rightarrow> Some (c'', (case m of None \<Rightarrow> ms | Some x \<Rightarrow> x # ms))))"

definition readLoop :: "wire_lib \<Rightarrow> bytes list \<Rightarrow> Conn \<Rightarrow> (Conn \<times> Message list) option" where
  "readLoop w frames c = map_option (\<lambda>(c', ms). (c'\<lparr>c_closed := True\<rparr>, ms)) (read_frames w frames c)"

section \<open>Sending\<close>

definition SendTextOpts :: "wire_lib \<Rightarrow> string \<Rightarrow> string \<Rightarrow> i32 \<Rightarrow> bool \<Rightarrow> string \<Rightarrow> SendOpts \<Rightarrow> Conn \<Rightarrow>
    (Conn \<times> conn_err option) option" where
  "SendTextOpts w channelID clanID mode isPublic text opts c =
     (case BuildSendEnvelope w channelID clanID mode isPublic text opts of
        None \<Rightarrow> None | Some env \<Rightarrow> Some (send env c))"

definition SendText :: "wire_lib \<Rightarrow> string \<Rightarrow> string \<Rightarrow> i32 \<Rightarrow> bool \<Rightarrow> string \<Rightarrow> Ref option \<Rightarrow> Conn \<Rightarrow>
    (Conn \<times> conn_err option) option" where
  "SendText w channelID clanID mode isPublic text ref c =
     SendTextOpts w channelID clanID mode isPublic text
       \<lparr>so_Ref = ref, so_Mentions = [], MentionEveryone = False\<rparr> c"

definition conn_SendTyping ::
    "wire_lib \<Rightarrow> string \<Rightarrow> string \<Rightarrow> string \<Rightarrow> string \<Rightarrow> string \<Rightarrow> i32 \<Rightarrow> bool \<Rightarrow> Conn \<Rightarrow> Conn \<times> conn_err option" where
  "conn_SendTyping w channelID clanID senderID senderUsername senderDisplayName mode isPublic c =
     send (BuildTypingEnvelope w channelID clanID senderID senderUsername senderDisplayName mode isPublic) c"

definition conn_SendReaction ::
    "wire_lib \<Rightarrow> string \<Rightarrow> string \<Rightarrow> string \<Rightarrow> string \<Rightarrow> string \<Rightarrow> bool \<Rightarrow> i32 \<Rightarrow> bool \<Rightarrow> Conn \<Rightarrow> Conn \<times> conn_err option" where
  "conn_SendReaction w clanID channelID messageID emojiID emoji action mode isPublic c =
     send (BuildReactionEnvelope w clanID channelID messageID emojiID emoji action mode isPublic) c"

definition conn_SendSticker ::
    "wire_lib \<Rightarrow> string \<Rightarrow> string \<Rightarrow> i32 \<Rightarrow> bool \<Rightarrow> string \<Rightarrow> string \<Rightarrow> Conn \<Rightarrow> Conn \<times> conn_err option" where
  "conn_SendSticker w channelID clanID mode isPublic stickerShortcode stickerURL c =
     send (BuildStickerEnvelope w channelID clanID mode isPublic stickerShortcode stickerURL) c"

text \<open>\<open>pingCid.Add(1)\<close>: keepalives and requests share the sequence.\<close>

definition next_cid :: "Conn \<Rightarrow> Conn \<times> u64" where
  "next_cid c = (c\<lparr>pingCid := pingCid c + 1\<rparr>, pingCid c + 1)"

definition ping :: "wire_lib \<Rightarrow> Conn \<Rightarrow> Conn \<times> conn_err option" where
  "ping w c = (case next_cid c of (c', cid) \<Rightarrow> send (BuildPingEnvelopeWithCid w cid) c')"

section \<open>Requests\<close>

text \<open>\<open>request\<close> in its atomic steps: take an id and register a channel under it; write the
  frame; then take the reply out of the channel or give up after the timeout.  Whichever way
  it returns, the deferred function removes its channel.\<close>

definition request_begin :: "Conn \<Rightarrow> Conn \<times> u64" where
  "request_begin c = (case next_cid c of (c', cid) \<Rightarrow> (c'\<lparr>pending := (pending c')(cid \<mapsto> None)\<rparr>, cid))"

definition request_done :: "u64 \<Rightarrow> Conn \<Rightarrow> Conn" where
  "request_done cid c = c\<lparr>pending := (pending c)(cid := None)\<rparr>"

datatype stage = Registered bytes | Awaiting | Finished "conn_err + Ack"

definition request_send :: "wire_lib \<Rightarrow> u64 \<Rightarrow> bytes \<Rightarrow> Conn \<Rightarrow> Conn \<times> stage" where
  "request_send w cid env c =
     (case send (WithCid w cid env) c of
        (c', Some e) \<Rightarrow> (request_done cid c', Finished (Inl e))
      | (c', None) \<Rightarrow> (c', Awaiting))"

definition request_receive :: "u64 \<Rightarrow> Conn \<Rightarrow> (Conn \<times> stage) option" where
  "request_receive cid c = (case pending c cid of
       Some (Some a) \<Rightarrow> Some (request_done cid c, Finished (if Err a then Inl ErrRejected else Inr a))
     | _ \<Rightarrow> None)"

definition request_timeout :: "u64 \<Rightarrow> Conn \<Rightarrow> Conn \<times> stage" where
  "request_timeout cid c = (request_done cid c, Finished (Inl ErrNoAck))"

text \<open>What \<open>SendTextAck\<close> and \<open>UpdateText\<close> make of the result of their request.\<close>

definition SendTextAck_result :: "conn_err + Ack \<Rightarrow> conn_err + string" where
  "SendTextAck_result r = (case r of
       Inl e \<Rightarrow> Inl e
     | Inr a \<Rightarrow> if ack_MessageID a = '''' then Inl ErrNoAck else Inr (ack_MessageID a))"

definition UpdateText_result :: "conn_err + Ack \<Rightarrow> conn_err option" where
  "UpdateText_result r = (case r of Inl e \<Rightarrow> Some e | Inr a \<Rightarrow> None)"

text \<open>A request no other goroutine interleaves with but the read loop, which reads \<open>frames\<close>
  before the timeout.\<close>

definition request :: "wire_lib \<Rightarrow> bytes \<Rightarrow> bytes list \<Rightarrow> Conn \<Rightarrow> (Conn \<times> (conn_err + Ack)) option" where
  "request w env frames c =
     (case request_begin c of (c1, cid) \<Rightarrow>
     (case request_send w cid env c1 of
        (c2, Finished r) \<Rightarrow> Some (c2, r)
      | (c2, _) \<Rightarrow>
     (case read_frames w frames c2 of
        None \<Rightarrow> None
      | Some (c3, _) \<Rightarrow>
     (case request_receive cid c3 of
        Some (c4, Finished r) \<Rightarrow> Some (c4, r)
      | _ \<Rightarrow> Some (request_done cid c3, Inl ErrNoAck)))))"

definition SendTextAck :: "wire_lib \<Rightarrow> string \<Rightarrow> string \<Rightarrow> i32 \<Rightarrow> bool \<Rightarrow> string \<Rightarrow> SendOpts \<Rightarrow> bytes list \<Rightarrow>
    Conn \<Rightarrow> (Conn \<times> (conn_err + string)) option" where
  "SendTextAck w channelID clanID mode isPublic text opts frames c =
     (case BuildSendEnvelope w channelID clanID mode isPublic text opts of
        None \<Rightarrow> None
      | Some env \<Rightarrow> map_option (\<lambda>(c', r). (c', SendTextAck_result r)) (request w env frames c))"

definition UpdateText :: "wire_lib \<Rightarrow> string \<Rightarrow> string \<Rightarrow> string \<Rightarrow> i32 \<Rightarrow> bool \<Rightarrow> string \<Rightarrow> bytes list \<Rightarrow>
    Conn \<Rightarrow> (Conn \<times> conn_err option) option" where
  "UpdateText w channelID clanID messageID mode isPublic text frames c =
     (case BuildUpdateEnvelope w channelID clanID messageID mode isPublic text of
        None \<Rightarrow> None
      | Some env \<Rightarrow> map_option (\<lambda>(c', r). (c', UpdateText_result r)) (request w env frames c))"

section \<open>Interleaving\<close>

text \<open>A connection with its goroutines: the requests in flight or returned, by caller, each with
  the number of frames read when it registered; the frames read and the messages emitted so
  far; and how often the id sequence was advanced.\<close>

record req =
  r_cid :: u64
  r_env :: bytes
  r_since :: nat
  r_stage :: stage

record sock =
  s_conn :: Conn
  s_reqs :: "nat \<rightharpoonup> req"
  s_reads :: "bytes list"
  s_msgs :: "Message list"
  s_adds :: nat

definition sock_init :: "Conn \<Rightarrow> sock" where
  "sock_init c = \<lparr>s_conn = c, s_reqs = Map.empty, s_reads = [], s_msgs = [], s_adds = 0\<rparr>"

definition set_req :: "nat \<Rightarrow> req \<Rightarrow> Conn \<Rightarrow> stage \<Rightarrow> sock \<Rightarrow> sock" where
  "set_req t r c st s = s\<lparr>s_conn := c, s_reqs := (s_reqs s)(t \<mapsto> r\<lparr>r_stage := st\<rparr>)\<rparr>"

inductive sock_step :: "wire_lib \<Rightarrow> sock \<Rightarrow> sock \<Rightarrow> bool" for w where
  step_begin: "s_reqs s t = None \<Longrightarrow> request_begin (s_conn s) = (c, cid) \<Longrightarrow>
    sock_step w s (s\<lparr>s_conn := c, s_adds := Suc (s_adds s), s_reqs := (s_reqs s)(t \<mapsto>
      \<lparr>r_cid = cid, r_env = env, r_since = length (s_reads s), r_stage = Registered env\<rparr>)\<rparr>)"
| step_send: "s_reqs s t = Some r \<Longrightarrow> r_stage r = Registered env \<Longrightarrow>
    request_send w (r_cid r) env (s_conn s) = (c, st) \<Longrightarrow> sock_step w s (set_req t r c st s)"
| step_receive: "s_reqs s t = Some r \<Longrightarrow> r_stage r = Awaiting \<Longrightarrow>
    request_receive (r_cid r) (s_conn s) = Some (c, st) \<Longrightarrow> sock_step w s (set_req t r c st s)"
| step_timeout: "s_reqs s t = Some r \<Longrightarrow> r_stage r = Awaiting \<Longrightarrow>
    request_timeout (r_cid r) (s_conn s) = (c, st) \<Longrightarrow> sock_step w s (set_req t r c st s)"
| step_read: "read_frame w data (s_conn s) = Some (c, m) \<Longrightarrow>
    sock_step w s (s\<lparr>s_conn := c, s_reads := s_reads s @ [data],
      s_msgs := s_msgs s @ (case m of None \<Rightarrow> [] | Some x \<Rightarrow> [x])\<rparr>)"
| step_ping: "ping w (s_conn s) = (c, e) \<Longrightarrow>
    sock_step w s (s\<lparr>s_conn := c, s_adds := Suc (s_adds s)\<rparr>)"
| step_join: "JoinClan w clan (s_conn s) = (c, e) \<Longrightarrow> sock_step w s (s\<lparr>s_conn := c\<rparr>)"
| step_write: "send env (s_conn s) = (c, e) \<Longrightarrow> sock_step w s (s\<lparr>s_conn := c\<rparr>)"
| step_close: "sock_step w s (s\<lparr>s_conn := Close (s_conn s)\<rparr>)"
| step_lost: "sock_step w s (s\<lparr>s_conn := (s_conn s)\<lparr>c_closed := True\<rparr>\<rparr>)"

inductive sock_run :: "wire_lib \<Rightarrow> sock \<Rightarrow> sock \<Rightarrow> bool" for w where
  run_start: "sock_run w s s"
| run_step: "sock_run w s s' \<Longrightarrow> sock_step w s' s'' \<Longrightarrow> sock_run w s s''"

text \<open>The first reply to a request among some frames.\<close>

definition reply_in :: "wire_lib \<Rightarrow> u64 \<Rightarrow> bytes \<Rightarrow> Ack option" where
  "reply_in w cid data = (case DecodeAck w data of
       Some (a, True) \<Rightarrow> if Cid a = cid then Some a else None | _ \<Rightarrow> None)"

fun first_reply :: "wire_lib \<Rightarrow> u64 \<Rightarrow> bytes list \<Rightarrow> Ack option" where
  "first_reply w cid [] = None"
| "first_reply w cid (data # rest) =
     (case reply_in w cid data of Some a \<Rightarrow> Some a | None \<Rightarrow> first_reply w cid rest)"

end
