(* ===== verification/Conn_Correct.thy ===== *)
theory Conn_Correct
  imports Conn
begin

text \<open>
  The properties of \<open>conn.go\<close>: an acknowledged request returns the first reply sent under its
  own id whatever runs in between, the read loop delivers every message that is not the bot's
  own, and dialling joins each clan once.
\<close>

section \<open>What the operations leave alone\<close>

lemma send_frame:
  assumes "send env c = (c', e)"
  shows "pending c' = pending c" "pingCid c' = pingCid c" "botUserID c' = botUserID c"
    "joined c' = joined c" "c_closed c' = c_closed c"
    "ws_sent (ws c') = (if e = None then ws_sent (ws c) @ [env] else ws_sent (ws c))"
  using assms by (auto simp: send_def WriteMessage_def Let_def split: if_splits option.splits)

lemma send_ok:
  assumes "send env c = (c', None)"
  shows "\<not> c_closed c"
  using assms by (auto simp: send_def split: if_splits)

lemma JoinClan_frame:
  assumes "JoinClan w clan c = (c', e)"
  shows "pending c' = pending c" "pingCid c' = pingCid c" "set (ws_sent (ws c)) \<subseteq> set (ws_sent (ws c'))"
  using assms send_frame [of "BuildClanJoinEnvelope w clan" c]
  by (auto simp: JoinClan_def split: if_splits prod.splits option.splits)

lemma ping_frame:
  assumes "ping w c = (c', e)"
  shows "pending c' = pending c" "pingCid c' = pingCid c + 1" "botUserID c' = botUserID c"
    "joined c' = joined c" "c_closed c' = c_closed c"
    "ws_sent (ws c') = (if e = None then ws_sent (ws c) @ [BuildPingEnvelopeWithCid w (pingCid c + 1)] else ws_sent (ws c))"
  using send_frame [of _ "c\<lparr>pingCid := pingCid c + 1\<rparr>" c' e] assms
  by (simp_all add: ping_def next_cid_def)

lemma request_send_frame:
  assumes "request_send w cid env c = (c', st)"
  shows "pingCid c' = pingCid c"
    "pending c' = (if st = Awaiting then pending c else (pending c)(cid := None))"
    "set (ws_sent (ws c)) \<subseteq> set (ws_sent (ws c'))"
    "st = Awaiting \<and> WithCid w cid env \<in> set (ws_sent (ws c')) \<or>
     (\<exists>e. st = Finished (Inl e) \<and> e \<noteq> ErrRejected \<and> e \<noteq> ErrNoAck)"
proof -
  obtain c1 r where s: "send (WithCid w cid env) c = (c1, r)" by (rule prod.exhaust)
  have e: "\<And>e. r = Some e \<Longrightarrow> e \<noteq> ErrRejected \<and> e \<noteq> ErrNoAck"
    using s by (auto simp: send_def WriteMessage_def Let_def split: if_splits option.splits)
  show "pingCid c' = pingCid c"
    "pending c' = (if st = Awaiting then pending c else (pending c)(cid := None))"
    "set (ws_sent (ws c)) \<subseteq> set (ws_sent (ws c'))"
    "st = Awaiting \<and> WithCid w cid env \<in> set (ws_sent (ws c')) \<or>
     (\<exists>e. st = Finished (Inl e) \<and> e \<noteq> ErrRejected \<and> e \<noteq> ErrNoAck)"
    using assms send_frame [OF s] s e
    by (auto simp: request_send_def request_done_def split: option.splits)
qed

lemma resolve_frame:
  "pingCid (resolve a c) = pingCid c" "ws (resolve a c) = ws c" "botUserID (resolve a c) = botUserID c"
  "c_closed (resolve a c) = c_closed c" "joined (resolve a c) = joined c"
  by (simp_all add: resolve_def split: option.splits)

lemma resolve_pending:
  "pending (resolve a c) cid = (case pending c cid of
     Some None \<Rightarrow> Some (if Cid a = cid then Some a else None) | x \<Rightarrow> x)"
  by (auto simp: resolve_def split: option.splits)

lemma read_frame_frame:
  assumes "read_frame w d c = Some (c', m)"
  shows "pingCid c' = pingCid c" "ws c' = ws c" "botUserID c' = botUserID c"
    "joined c' = joined c" "c_closed c' = c_closed c"
  using assms by (auto simp: read_frame_def resolve_frame split: option.splits prod.splits bool.splits if_splits)

lemma read_frame_pending:
  assumes "read_frame w d c = Some (c', m)"
  shows "pending c' cid = (case pending c cid of None \<Rightarrow> None
     | Some None \<Rightarrow> Some (reply_in w cid d) | Some (Some a) \<Rightarrow> Some (Some a))"
proof (cases "hasPending c")
  case False
  then show ?thesis using assms
    by (auto simp: read_frame_def hasPending_def split: option.splits prod.splits if_splits)
next
  case True
  then show ?thesis using assms
    by (auto simp: read_frame_def reply_in_def resolve_pending
        split: option.splits prod.splits bool.splits if_splits)
qed

lemma first_reply_append:
  "first_reply w cid (xs @ ys) =
     (case first_reply w cid xs of Some a \<Rightarrow> Some a | None \<Rightarrow> first_reply w cid ys)"
  by (induction xs) (auto split: option.splits)

lemma reply_in_cid: "reply_in w cid d = Some a \<Longrightarrow> Cid a = cid"
  by (auto simp: reply_in_def split: option.splits prod.splits bool.splits if_splits)

lemma first_reply_cid: "first_reply w cid xs = Some a \<Longrightarrow> Cid a = cid"
  by (induction xs) (auto split: option.splits dest: reply_in_cid)

lemma first_reply_in:
  "first_reply w cid xs = Some a \<Longrightarrow> \<exists>d \<in> set xs. DecodeAck w d = Some (a, True)"
proof (induction xs)
  case (Cons d xs)
  then show ?case
    by (cases "reply_in w cid d")
      (auto simp: reply_in_def split: option.splits prod.splits bool.splits if_splits)
qed simp

section \<open>The invariant of a connection\<close>

text \<open>What holds of one request in every state.\<close>

definition req_ok :: "wire_lib \<Rightarrow> nat \<Rightarrow> bytes list \<Rightarrow> bytes list \<Rightarrow> (u64 \<rightharpoonup> Ack option) \<Rightarrow> req \<Rightarrow> bool" where
  "req_ok w adds reads sent pend r \<longleftrightarrow>
     0 < unat (r_cid r) \<and> unat (r_cid r) \<le> adds \<and> r_since r \<le> length reads \<and>
     (let reply = first_reply w (r_cid r) (drop (r_since r) reads);
          written = WithCid w (r_cid r) (r_env r) \<in> set sent
      in case r_stage r of
           Registered env \<Rightarrow> env = r_env r \<and> pend (r_cid r) = Some reply
         | Awaiting \<Rightarrow> written \<and> pend (r_cid r) = Some reply
         | Finished (Inr a) \<Rightarrow> pend (r_cid r) = None \<and> written \<and> reply = Some a \<and> \<not> Err a
         | Finished (Inl e) \<Rightarrow> pend (r_cid r) = None \<and>
             (e = ErrRejected \<longrightarrow> written \<and> (\<exists>a. reply = Some a \<and> Err a)))"

definition distinct_cids :: "(nat \<rightharpoonup> req) \<Rightarrow> bool" where
  "distinct_cids rs \<longleftrightarrow> (\<forall>t t' r r'. rs t = Some r \<longrightarrow> rs t' = Some r' \<longrightarrow> r_cid r = r_cid r' \<longrightarrow> t = t')"

definition owned :: "(u64 \<rightharpoonup> Ack option) \<Rightarrow> (nat \<rightharpoonup> req) \<Rightarrow> bool" where
  "owned pend rs \<longleftrightarrow> (\<forall>cid x. pend cid = Some x \<longrightarrow> (\<exists>t r. rs t = Some r \<and> r_cid r = cid))"

definition sock_inv :: "wire_lib \<Rightarrow> sock \<Rightarrow> bool" where
  "sock_inv w s \<longleftrightarrow> pingCid (s_conn s) = of_nat (s_adds s) \<and> distinct_cids (s_reqs s) \<and>
     owned (pending (s_conn s)) (s_reqs s) \<and>
     (\<forall>t r. s_reqs s t = Some r \<longrightarrow>
        req_ok w (s_adds s) (s_reads s) (ws_sent (ws (s_conn s))) (pending (s_conn s)) r)"

text \<open>A request is unaffected by what leaves its own channel alone.\<close>

lemma req_ok_mono:
  assumes "req_ok w adds reads sent pend r" "adds \<le> adds'" "set sent \<subseteq> set sent'"
    and "pend' (r_cid r) = pend (r_cid r)"
  shows "req_ok w adds' reads sent' pend' r"
  using assms by (auto simp: req_ok_def Let_def split: stage.splits sum.splits)

lemma req_ok_read:
  assumes "req_ok w adds reads sent pend r"
    and "pend' (r_cid r) = (case pend (r_cid r) of None \<Rightarrow> None
       | Some None \<Rightarrow> Some (reply_in w (r_cid r) d) | Some (Some a) \<Rightarrow> Some (Some a))"
  shows "req_ok w adds (reads @ [d]) sent pend' r"
proof -
  have d: "drop (r_since r) (reads @ [d]) = drop (r_since r) reads @ [d]"
    using assms(1) by (simp add: req_ok_def)
  show ?thesis using assms
    by (auto simp: req_ok_def Let_def d first_reply_append split: stage.splits sum.splits option.splits)
qed

lemma of_nat_suc_cid:
  assumes "Suc n < 2 ^ 64"
  shows "unat (of_nat n + 1 :: u64) = Suc n"
proof -
  have "unat (of_nat (Suc n) :: u64) = Suc n"
    unfolding unat_of_nat using assms by (simp add: take_bit_nat_eq_self)
  then show ?thesis by (simp add: add.commute)
qed

text \<open>Steps that touch no channel.\<close>

lemma sock_inv_quiet:
  assumes "sock_inv w s" "pending c = pending (s_conn s)" "pingCid c = of_nat n" "s_adds s \<le> n"
    and "set (ws_sent (ws (s_conn s))) \<subseteq> set (ws_sent (ws c))"
  shows "sock_inv w (s\<lparr>s_conn := c, s_adds := n\<rparr>)"
proof -
  have "req_ok w n (s_reads s) (ws_sent (ws c)) (pending c) r" if "s_reqs s t = Some r" for t r
    by (rule req_ok_mono [where pend = "pending (s_conn s)" and adds = "s_adds s"
          and sent = "ws_sent (ws (s_conn s))"])
      (use that assms in \<open>simp_all add: sock_inv_def\<close>)
  then show ?thesis using assms by (simp add: sock_inv_def)
qed

text \<open>Registering or changing one request keeps every channel owned.\<close>

lemma owned_update:
  assumes "owned pend rs" "\<And>cid. cid \<noteq> r_cid r \<Longrightarrow> pend' cid = pend cid"
    and "case rs t of None \<Rightarrow> True | Some r0 \<Rightarrow> r_cid r0 = r_cid r"
  shows "owned pend' (rs(t \<mapsto> r))"
  unfolding owned_def
proof (intro allI impI)
  fix cid x
  assume x: "pend' cid = Some x"
  show "\<exists>t' r'. (rs(t \<mapsto> r)) t' = Some r' \<and> r_cid r' = cid"
  proof (cases "cid = r_cid r")
    case True
    then show ?thesis by (intro exI [of _ t] exI [of _ r]) simp
  next
    case False
    then obtain t' r' where "rs t' = Some r'" "r_cid r' = cid"
      using assms(1) x assms(2) [OF False] by (auto simp: owned_def)
    then show ?thesis using False assms(3) by (intro exI [of _ t'] exI [of _ r']) auto
  qed
qed

text \<open>Steps of one request.\<close>

lemma sock_inv_own:
  assumes inv: "sock_inv w s" and r: "s_reqs s t = Some r" and "pingCid c = pingCid (s_conn s)"
    and p: "\<And>cid. cid \<noteq> r_cid r \<Longrightarrow> pending c cid = pending (s_conn s) cid"
    and sent: "set (ws_sent (ws (s_conn s))) \<subseteq> set (ws_sent (ws c))"
    and ok: "req_ok w (s_adds s) (s_reads s) (ws_sent (ws c)) (pending c) (r\<lparr>r_stage := st\<rparr>)"
  shows "sock_inv w (set_req t r c st s)"
proof -
  have "req_ok w (s_adds s) (s_reads s) (ws_sent (ws c)) (pending c) r'"
    if "t' \<noteq> t" "s_reqs s t' = Some r'" for t' r'
  proof (rule req_ok_mono)
    show "req_ok w (s_adds s) (s_reads s) (ws_sent (ws (s_conn s))) (pending (s_conn s)) r'"
      using inv that(2) by (simp add: sock_inv_def)
    have "r_cid r' \<noteq> r_cid r" using inv r that by (auto simp: sock_inv_def distinct_cids_def)
    then show "pending c (r_cid r') = pending (s_conn s) (r_cid r')" by (rule p)
  qed (use sent in simp_all)
  moreover have "distinct_cids ((s_reqs s)(t \<mapsto> r\<lparr>r_stage := st\<rparr>))"
    using inv r by (auto simp: sock_inv_def distinct_cids_def)
  moreover have "owned (pending c) ((s_reqs s)(t \<mapsto> r\<lparr>r_stage := st\<rparr>))"
    by (rule owned_update [where pend = "pending (s_conn s)"])
      (use inv r p in \<open>simp_all add: sock_inv_def\<close>)
  ultimately show ?thesis using assms by (simp add: sock_inv_def set_req_def)
qed

lemma req_okD:
  assumes "sock_inv w s" "s_reqs s t = Some r"
  shows "req_ok w (s_adds s) (s_reads s) (ws_sent (ws (s_conn s))) (pending (s_conn s)) r"
  using assms by (simp add: sock_inv_def)

lemma sock_inv_begin:
  assumes inv: "sock_inv w s" and t: "s_reqs s t = None" and b: "request_begin (s_conn s) = (c, cid)"
    and n: "Suc (s_adds s) < 2 ^ 64"
  shows "sock_inv w (s\<lparr>s_conn := c, s_adds := Suc (s_adds s), s_reqs := (s_reqs s)(t \<mapsto>
      \<lparr>r_cid = cid, r_env = env, r_since = length (s_reads s), r_stage = Registered env\<rparr>)\<rparr>)"
proof -
  have cid: "cid = of_nat (s_adds s) + 1" and p: "pending c = (pending (s_conn s))(cid \<mapsto> None)"
    and c: "pingCid c = of_nat (Suc (s_adds s))" "ws c = ws (s_conn s)"
    using b inv by (auto simp: request_begin_def next_cid_def sock_inv_def)
  have u: "unat cid = Suc (s_adds s)" using of_nat_suc_cid [OF n] cid by simp
  have ne: "r_cid r \<noteq> cid" if "s_reqs s t' = Some r" for t' r
    using req_okD [OF inv that] u by (auto simp: req_ok_def)
  have "distinct_cids ((s_reqs s)(t \<mapsto> \<lparr>r_cid = cid, r_env = env, r_since = length (s_reads s), r_stage = Registered env\<rparr>))"
    using inv ne by (auto simp: sock_inv_def distinct_cids_def)
  moreover have "req_ok w (Suc (s_adds s)) (s_reads s) (ws_sent (ws c)) (pending c) r'"
    if "s_reqs s t' = Some r'" for t' r'
    by (rule req_ok_mono [OF req_okD [OF inv that]]) (simp_all add: c p ne [OF that])
  moreover have "req_ok w (Suc (s_adds s)) (s_reads s) (ws_sent (ws c)) (pending c)
      \<lparr>r_cid = cid, r_env = env, r_since = length (s_reads s), r_stage = Registered env\<rparr>"
    by (simp add: req_ok_def u p)
  moreover have "owned (pending c) ((s_reqs s)(t \<mapsto>
      \<lparr>r_cid = cid, r_env = env, r_since = length (s_reads s), r_stage = Registered env\<rparr>))"
    by (rule owned_update [where pend = "pending (s_conn s)"])
      (use inv t in \<open>simp_all add: sock_inv_def p\<close>)
  ultimately show ?thesis using c by (simp add: sock_inv_def)
qed

lemma sock_inv_step:
  assumes "sock_step w s s'" "sock_inv w s" "s_adds s' < 2 ^ 64"
  shows "sock_inv w s'"
  using assms
proof cases
  case (step_begin t c cid env)
  then show ?thesis using assms(2,3) sock_inv_begin by simp
next
  case (step_send t r env c st)
  note f = request_send_frame [OF step_send(4)] and ok = req_okD [OF assms(2) step_send(2)]
  have env: "r_env r = env" using ok step_send(3) by (simp add: req_ok_def)
  show ?thesis unfolding step_send(1)
    by (rule sock_inv_own [OF assms(2) step_send(2)])
      (use f ok step_send(3) env in \<open>auto simp: req_ok_def Let_def split: stage.splits sum.splits\<close>)
next
  case (step_receive t r c st)
  note ok = req_okD [OF assms(2) step_receive(2)]
  have p: "pending (s_conn s) (r_cid r) = Some (first_reply w (r_cid r) (drop (r_since r) (s_reads s)))"
    using ok step_receive(3) by (simp add: req_ok_def Let_def)
  show ?thesis unfolding step_receive(1)
    by (rule sock_inv_own [OF assms(2) step_receive(2)])
      (use ok p step_receive(3,4) in
        \<open>auto simp: req_ok_def request_receive_def request_done_def Let_def split: option.splits\<close>)
next
  case (step_timeout t r c st)
  show ?thesis unfolding step_timeout(1)
    by (rule sock_inv_own [OF assms(2) step_timeout(2)])
      (use req_okD [OF assms(2) step_timeout(2)] step_timeout(4) in
        \<open>auto simp: req_ok_def request_timeout_def request_done_def Let_def\<close>)
next
  case (step_read d c m)
  have "req_ok w (s_adds s) (s_reads s @ [d]) (ws_sent (ws (s_conn s))) (pending c) r"
    if "s_reqs s t = Some r" for t r
    by (rule req_ok_read [where pend = "pending (s_conn s)"])
      (rule req_okD [OF assms(2) that], rule read_frame_pending [OF step_read(2)])
  moreover have "owned (pending c) (s_reqs s)"
    using assms(2) by (auto simp: sock_inv_def owned_def read_frame_pending [OF step_read(2)] split: option.splits)
  ultimately show ?thesis
    using assms(2) step_read(1) read_frame_frame [OF step_read(2)] by (simp add: sock_inv_def)
next
  case (step_ping c e)
  then show ?thesis using ping_frame [OF step_ping(2)] assms(2)
    by (auto intro!: sock_inv_quiet simp: sock_inv_def [of w s] )
next
  case (step_join clan c e)
  then show ?thesis using JoinClan_frame [OF step_join(2)] sock_inv_quiet [OF assms(2), of c "s_adds s"] assms(2)
    by (simp add: sock_inv_def [of w s])
next
  case (step_write env c e)
  then show ?thesis using send_frame [OF step_write(2)] sock_inv_quiet [OF assms(2), of c "s_adds s"] assms(2)
    by (simp add: sock_inv_def [of w s] subset_insertI split: if_splits)
next
  case step_close
  then show ?thesis using assms(2) by (simp add: sock_inv_def Close_def)
next
  case step_lost
  then show ?thesis using assms(2) by (simp add: sock_inv_def)
qed

lemma sock_step_adds: "sock_step w s s' \<Longrightarrow> s_adds s \<le> s_adds s'"
  by (cases rule: sock_step.cases) (auto simp: set_req_def)

lemma sock_run_inv:
  "sock_run w s s' \<Longrightarrow> sock_inv w s \<Longrightarrow> s_adds s' < 2 ^ 64 \<Longrightarrow> sock_inv w s'"
proof (induction rule: sock_run.induct)
  case (run_step s s' s'')
  then show ?case using sock_inv_step [OF run_step.hyps(2)] sock_step_adds [OF run_step.hyps(2)] by simp
qed simp

lemma sock_inv_init: "pingCid c = 0 \<Longrightarrow> pending c = Map.empty \<Longrightarrow> sock_inv w (sock_init c)"
  by (simp add: sock_inv_def sock_init_def distinct_cids_def owned_def)

section \<open>Acknowledged sends\<close>

text \<open>C4. Whatever requests, keepalives, joins, sends, reads and closes run in between, an
  acknowledged send that returns an id returns the one of the first reply under its own request
  id read since it registered; its frame was written; and no other request has that id.\<close>

theorem acked_request_gets_its_own_reply:
  assumes "sock_run w (sock_init c) s" "pingCid c = 0" "pending c = Map.empty" "s_adds s < 2 ^ 64"
    and "s_reqs s t = Some r" "r_stage r = Finished res"
  shows "(\<forall>mid. SendTextAck_result res = Inr mid \<longrightarrow>
      WithCid w (r_cid r) (r_env r) \<in> set (ws_sent (ws (s_conn s))) \<and>
      (\<exists>a. first_reply w (r_cid r) (drop (r_since r) (s_reads s)) = Some a \<and>
         Cid a = r_cid r \<and> ack_MessageID a = mid \<and> \<not> Err a)) \<and>
    (res = Inl ErrRejected \<longrightarrow>
      (\<exists>a. first_reply w (r_cid r) (drop (r_since r) (s_reads s)) = Some a \<and> Cid a = r_cid r \<and> Err a)) \<and>
    (\<forall>t' r'. s_reqs s t' = Some r' \<and> r_cid r' = r_cid r \<longrightarrow> t' = t)"
proof -
  have inv: "sock_inv w s" using sock_run_inv [OF assms(1) sock_inv_init] assms(2-4) by simp
  have d: "\<forall>t' r'. s_reqs s t' = Some r' \<and> r_cid r' = r_cid r \<longrightarrow> t' = t"
    using inv assms(5) by (auto simp: sock_inv_def distinct_cids_def)
  show ?thesis using req_okD [OF inv assms(5)] assms(6) d
    by (auto simp: req_ok_def Let_def SendTextAck_result_def dest: first_reply_cid
        split: sum.splits if_splits)
qed

text \<open>C10. A reply is never lost to a waiting request: once a frame with the request's id was read,
  receiving returns it, whatever else happened; and the connection holds a channel for exactly
  the requests that have not returned.\<close>

theorem waiting_request_receives:
  assumes "sock_run w (sock_init c) s" "pingCid c = 0" "pending c = Map.empty" "s_adds s < 2 ^ 64"
    and "s_reqs s t = Some r" "r_stage r = Awaiting"
    and "first_reply w (r_cid r) (drop (r_since r) (s_reads s)) = Some a"
  shows "request_receive (r_cid r) (s_conn s) =
      Some (request_done (r_cid r) (s_conn s), Finished (if Err a then Inl ErrRejected else Inr a)) \<and>
    dom (pending (s_conn s)) = {r_cid r' |r' t'. s_reqs s t' = Some r' \<and> (\<forall>res. r_stage r' \<noteq> Finished res)}"
proof
  have inv: "sock_inv w s" using sock_run_inv [OF assms(1) sock_inv_init] assms(2-4) by simp
  show "request_receive (r_cid r) (s_conn s) =
      Some (request_done (r_cid r) (s_conn s), Finished (if Err a then Inl ErrRejected else Inr a))"
    using req_okD [OF inv assms(5)] assms(6,7) by (simp add: req_ok_def Let_def request_receive_def)
  have ok: "(\<exists>x. pending (s_conn s) (r_cid r') = Some x) \<longleftrightarrow> (\<forall>res. r_stage r' \<noteq> Finished res)"
    if "s_reqs s t' = Some r'" for t' r'
    using req_okD [OF inv that] by (auto simp: req_ok_def Let_def split: stage.splits sum.splits)
  have own: "\<exists>t' r'. s_reqs s t' = Some r' \<and> r_cid r' = cid" if "pending (s_conn s) cid = Some x" for cid x
    using inv that by (auto simp: sock_inv_def owned_def)
  show "dom (pending (s_conn s)) = {r_cid r' |r' t'. s_reqs s t' = Some r' \<and> (\<forall>res. r_stage r' \<noteq> Finished res)}"
  proof (intro set_eqI iffI)
    fix cid
    assume "cid \<in> dom (pending (s_conn s))"
    then obtain x where x: "pending (s_conn s) cid = Some x" by blast
    from own [OF x] obtain t' r' where r': "s_reqs s t' = Some r'" "r_cid r' = cid" by blast
    then show "cid \<in> {r_cid r' |r' t'. s_reqs s t' = Some r' \<and> (\<forall>res. r_stage r' \<noteq> Finished res)}"
      using ok [OF r'(1)] x by blast
  qed (use ok in blast)
qed

section \<open>Reading and dialling\<close>

lemma read_frame_total:
  assumes "wire w"
  shows "\<exists>c' m. read_frame w d c = Some (c', m) \<and> (\<forall>x. m = Some x \<longrightarrow> SenderID x \<noteq> botUserID c) \<and>
    botUserID c' = botUserID c"
proof -
  obtain a ok where a: "DecodeAck w d = Some (a, ok)" using wire.DecodeAck_total [OF assms, of d] by auto
  obtain msg ok' err where m: "DecodeChannelMessage w d = Some (msg, ok', err)"
    using wire.DecodeChannelMessage_total [OF assms, of d] by auto
  show ?thesis by (cases ok) (auto simp: read_frame_def a m resolve_frame split: bool.splits)
qed

lemma read_frames_total:
  assumes "wire w"
  shows "\<exists>c' ms. read_frames w fs c = Some (c', ms) \<and> (\<forall>x \<in> set ms. SenderID x \<noteq> botUserID c) \<and>
    botUserID c' = botUserID c"
proof (induction fs arbitrary: c)
  case (Cons d fs)
  obtain c1 m where r: "read_frame w d c = Some (c1, m)" "\<forall>x. m = Some x \<longrightarrow> SenderID x \<noteq> botUserID c"
      "botUserID c1 = botUserID c"
    using read_frame_total [OF assms] by blast
  obtain c2 ms where "read_frames w fs c1 = Some (c2, ms)" "\<forall>x \<in> set ms. SenderID x \<noteq> botUserID c1"
      "botUserID c2 = botUserID c1"
    using Cons.IH by blast
  then show ?case using r by (cases m) auto
qed simp

lemma read_frames_append:
  assumes "read_frames w xs c = Some (c1, ms1)" "read_frames w ys c1 = Some (c2, ms2)"
  shows "read_frames w (xs @ ys) c = Some (c2, ms1 @ ms2)"
  using assms by (induction xs arbitrary: c ms1) (auto split: option.splits prod.splits)

text \<open>A frame with a channel message and no acknowledgement reaches the handler even while
  requests wait.\<close>

lemma read_frame_message:
  assumes w: "wire w" and ok: "\<forall>f \<in> set (pre @ [FBytes 6 (enc_fields w fs)]). field_ok f"
    and pre: "bytes_at 6 pre = []" "bytes_at 7 pre = []" "bytes_at 12 pre = []"
    and fs: "\<forall>f \<in> set fs. field_ok f" "fits (enc_fields w fs)"
  shows "read_frame w (enc_fields w (pre @ [FBytes 6 (enc_fields w fs)])) c =
    Some (c, if SenderID (spec_message w fs) = botUserID c then None else Some (spec_message w fs))"
proof -
  let ?d = "enc_fields w (pre @ [FBytes 6 (enc_fields w fs)])"
  have "bytes_at 7 (pre @ [FBytes 6 (enc_fields w fs)]) = map (enc_fields w) []" using pre by simp
  from wire.DecodeAck_fields [OF w ok this] have a: "\<exists>a. DecodeAck w ?d = Some (a, False)"
    using pre by (simp del: enc_fields_simps)
  have m: "DecodeChannelMessage w ?d = Some (spec_message w fs, True, None)"
    using wire.DecodeChannelMessage_fields [OF w _ pre(1) fs, of "[]"] ok by simp
  from a obtain a' where a': "DecodeAck w ?d = Some (a', False)" by blast
  show ?thesis by (cases "hasPending c") (simp_all add: read_frame_def m a' del: enc_fields_simps)
qed

text \<open>C25. The read loop always returns, whatever the frames; every message another user sent
  reaches the handler, in its place among the others, even while requests wait for replies; and
  no message of the bot itself does.\<close>

theorem read_loop_delivers:
  assumes "wire w" "\<forall>f \<in> set (pre @ [FBytes 6 (enc_fields w fs)]). field_ok f"
    and "bytes_at 6 pre = []" "bytes_at 7 pre = []" "bytes_at 12 pre = []"
    and "\<forall>f \<in> set fs. field_ok f" "fits (enc_fields w fs)"
  shows "\<exists>c' before after. readLoop w (xs @ enc_fields w (pre @ [FBytes 6 (enc_fields w fs)]) # ys) c =
      Some (c', before @
        (if SenderID (spec_message w fs) = botUserID c then [] else [spec_message w fs]) @ after) \<and>
    c_closed c' \<and> (\<forall>m \<in> set (before @ after). SenderID m \<noteq> botUserID c) \<and>
    (\<exists>c1 c2. read_frames w xs c = Some (c1, before) \<and> read_frames w ys c1 = Some (c2, after))"
proof -
  let ?d = "enc_fields w (pre @ [FBytes 6 (enc_fields w fs)])"
  obtain c1 before where x: "read_frames w xs c = Some (c1, before)" "\<forall>m \<in> set before. SenderID m \<noteq> botUserID c"
      "botUserID c1 = botUserID c"
    using read_frames_total [OF assms(1), of xs c] by blast
  obtain c2 after where y: "read_frames w ys c1 = Some (c2, after)" "\<forall>m \<in> set after. SenderID m \<noteq> botUserID c1"
    using read_frames_total [OF assms(1), of ys c1] by blast
  have "read_frames w (?d # ys) c1 = Some (c2, (if SenderID (spec_message w fs) = botUserID c then []
      else [spec_message w fs]) @ after)"
    using read_frame_message [OF assms, of c1] y(1) x(3) by (simp del: enc_fields_simps)
  from read_frames_append [OF x(1) this] show ?thesis
    using x y unfolding readLoop_def by (intro exI [of _ "c2\<lparr>c_closed := True\<rparr>"] exI [of _ before] exI [of _ after])
      (auto simp del: enc_fields_simps)
qed

definition ex_ws :: websocket where
  "ex_ws = \<lparr>ws_answers = (\<lambda>_. None), ws_calls = 0, ws_sent = [], ws_open = True\<rparr>"

definition ex_conn :: Conn where
  "ex_conn = new_conn ex_ws ''7''"

lemma read_loop_delivers_witness:
  "\<exists>c' m. readLoop std_wire [enc_fields std_wire ([FVarint 1 3] @ [FBytes 6 (enc_fields std_wire ex_fs)])]
      (fst (request_begin ex_conn)) = Some (c', [m]) \<and> MessageID m = ''100''"
proof -
  have "field_ok (FBytes 6 (enc_fields std_wire ex_fs))" using ex_fs_ok(2) by (simp add: valid_num_def)
  then have ok: "\<forall>f \<in> set ([FVarint 1 3] @ [FBytes 6 (enc_fields std_wire ex_fs)]). field_ok f"
    by (auto simp: valid_num_def)
  have s: "SenderID (spec_message std_wire ex_fs) \<noteq> botUserID (fst (request_begin ex_conn))"
    by (simp add: spec_message_def ex_fs_def at_defs ids_at_def last_or_def request_begin_def next_cid_def
        ex_conn_def new_conn_def)
  show ?thesis
    using read_loop_delivers [OF std.wire_axioms ok _ _ _ ex_fs_ok, where xs = "[]" and ys = "[]"
        and c = "fst (request_begin ex_conn)"] s ex_fs_message(1) [of std_wire]
    by (auto simp: at_defs simp del: enc_fields_simps)
qed

text \<open>Joining: the clans whose frame was accepted, in order.\<close>

definition joined_are :: "string list \<Rightarrow> Conn \<Rightarrow> bool" where
  "joined_are js c \<longleftrightarrow> distinct js \<and> joined c = (\<lambda>x. if x \<in> set js then Some True else None)"

lemma JoinClan_joined:
  assumes "joined_are js c"
  shows "\<exists>new. joined_are (js @ new) (fst (JoinClan w i c)) \<and> set new \<subseteq> {i} \<and>
    ws_sent (ws (fst (JoinClan w i c))) = ws_sent (ws c) @ map (BuildClanJoinEnvelope w) new \<and>
    (snd (JoinClan w i c) = None \<longrightarrow> i \<in> set (js @ new))"
proof (cases "i \<in> set js")
  case True
  then show ?thesis using assms by (intro exI [of _ "[]"]) (simp add: JoinClan_def joined_are_def)
next
  case False
  obtain c' e where s: "send (BuildClanJoinEnvelope w i) c = (c', e)" by (rule prod.exhaust)
  show ?thesis
  proof (cases e)
    case None
    then show ?thesis using assms False send_frame [OF s]
      by (intro exI [of _ "[i]"]) (auto simp: JoinClan_def joined_are_def s)
  next
    case (Some x)
    then show ?thesis using assms False send_frame [OF s]
      by (intro exI [of _ "[]"]) (simp add: JoinClan_def joined_are_def s)
  qed
qed

definition healthy :: "Conn \<Rightarrow> bool" where
  "healthy c \<longleftrightarrow> \<not> c_closed c \<and> ws_open (ws c) \<and> (\<forall>n. ws_answers (ws c) n = None)"

lemma JoinClan_healthy:
  "healthy c \<Longrightarrow> healthy (fst (JoinClan w i c)) \<and> snd (JoinClan w i c) = None"
  by (simp add: healthy_def JoinClan_def send_def WriteMessage_def)

lemma join_all_joined:
  assumes "joined_are js c"
  shows "\<exists>new. joined_are (js @ new) (join_all w ids c) \<and> set new \<subseteq> set ids \<and>
    ws_sent (ws (join_all w ids c)) = ws_sent (ws c) @ map (BuildClanJoinEnvelope w) new \<and>
    (healthy c \<longrightarrow> set ids \<subseteq> set (js @ new))"
  using assms
proof (induction ids arbitrary: js c)
  case Nil
  then show ?case by (intro exI [of _ "[]"]) (simp add: join_all_def)
next
  case (Cons i ids)
  let ?c = "fst (JoinClan w i c)"
  obtain n1 where n1: "joined_are (js @ n1) ?c" "set n1 \<subseteq> {i}"
      "ws_sent (ws ?c) = ws_sent (ws c) @ map (BuildClanJoinEnvelope w) n1"
      "snd (JoinClan w i c) = None \<longrightarrow> i \<in> set (js @ n1)"
    using JoinClan_joined [OF Cons.prems] by blast
  obtain n2 where n2: "joined_are ((js @ n1) @ n2) (join_all w ids ?c)" "set n2 \<subseteq> set ids"
      "ws_sent (ws (join_all w ids ?c)) = ws_sent (ws ?c) @ map (BuildClanJoinEnvelope w) n2"
      "healthy ?c \<longrightarrow> set ids \<subseteq> set ((js @ n1) @ n2)"
    using Cons.IH [OF n1(1)] by blast
  have e: "join_all w (i # ids) c = join_all w ids ?c" by (simp add: join_all_def)
  show ?case unfolding e
    by (rule exI [of _ "n1 @ n2"]) (use n1 n2 JoinClan_healthy [of c w i] in auto)
qed

lemma join_all_append: "join_all w (xs @ ys) c = join_all w ys (join_all w xs c)"
  by (simp add: join_all_def)

text \<open>C24. A dialled socket, with any later joins, has sent one join frame for each clan it counts as
  joined and no other frame: never two for one clan, none for a clan whose frame failed, and,
  when no write fails, one for every clan asked for.\<close>

theorem each_clan_joined_once:
  assumes "dialer (endpoint host ssl token) = Inr raw" "Dial w dialer host ssl token b clanIDs = Inr c"
  shows "\<exists>js. distinct js \<and> (\<forall>clan. HasJoined clan (join_all w later c) \<longleftrightarrow> clan \<in> set js) \<and>
    set js \<subseteq> set clanIDs \<union> set later \<and>
    ws_sent (ws (join_all w later c)) = ws_sent raw @ map (BuildClanJoinEnvelope w) js \<and>
    (ws_open raw \<and> (\<forall>n. ws_answers raw n = None) \<longrightarrow> set js = set clanIDs \<union> set later)"
proof -
  let ?c0 = "new_conn raw b"
  have c: "join_all w later c = join_all w (clanIDs @ later) ?c0"
    using assms by (simp add: Dial_def join_all_append)
  have "joined_are [] ?c0" by (simp add: joined_are_def new_conn_def)
  from join_all_joined [OF this, of w "clanIDs @ later"]
  obtain new where n: "joined_are new (join_all w (clanIDs @ later) ?c0)" "set new \<subseteq> set (clanIDs @ later)"
      "ws_sent (ws (join_all w (clanIDs @ later) ?c0)) = ws_sent (ws ?c0) @ map (BuildClanJoinEnvelope w) new"
      "healthy ?c0 \<longrightarrow> set (clanIDs @ later) \<subseteq> set new" by auto
  show ?thesis unfolding c
    by (rule exI [of _ new]) (use n in \<open>auto simp: joined_are_def HasJoined_def healthy_def new_conn_def\<close>)
qed

lemma each_clan_joined_once_witness:
  "\<exists>js. distinct js \<and> set js = {''0'', ''10'', ''20''} \<and>
    ws_sent (ws (join_all std_wire [''20'', ''10''] (join_all std_wire [''0'', ''10''] ex_conn))) =
      map (BuildClanJoinEnvelope std_wire) js"
  using each_clan_joined_once [of "\<lambda>_. Inr ex_ws" "''h''" True "''t''" ex_ws std_wire "''7''" "[''0'', ''10'']"
      "join_all std_wire [''0'', ''10''] ex_conn" "[''20'', ''10'']"]
  by (auto simp: Dial_def ex_conn_def ex_ws_def insert_commute)

section \<open>A concrete request\<close>

definition ex_frame :: bytes where
  "ex_frame = enc_fields std_wire [FVarint 1 1, FBytes 7 (enc_fields std_wire [FVarint 2 99])]"

definition ex_ack :: Ack where
  "ex_ack = \<lparr>Cid = 1, ack_MessageID = ''99'', Err = False\<rparr>"

lemma ex_frame_ack: "DecodeAck std_wire ex_frame = Some (ex_ack, True)"
proof -
  have "fits (enc_fields std_wire [FVarint 2 99])" by (simp add: frame_eval)
  then have "DecodeAck std_wire ex_frame = Some (spec_ack [FVarint 1 1, FBytes 7 (enc_fields std_wire [FVarint 2 99])]
      [[FVarint 2 99]], True)"
    unfolding ex_frame_def
    using std.DecodeAck_fields [of "[FVarint 1 1, FBytes 7 (enc_fields std_wire [FVarint 2 99])]" "[[FVarint 2 99]]"]
    by (simp add: valid_num_def at_defs cids_at_def del: enc_fields_simps)
  then show ?thesis
    by (simp add: spec_ack_def ex_ack_def at_defs cids_at_def ack_ids_def last_or_def digits_eval del: enc_fields_simps)
qed

definition ex_s1 :: sock where
  "ex_s1 = \<lparr>s_conn = fst (request_begin ex_conn), s_reqs = [0 \<mapsto> \<lparr>r_cid = 1, r_env = [5], r_since = 0,
     r_stage = Registered [5]\<rparr>], s_reads = [], s_msgs = [], s_adds = 1\<rparr>"

definition ex_s2 :: sock where
  "ex_s2 = set_req 0 (the (s_reqs ex_s1 0)) (fst (send (WithCid std_wire 1 [5]) (s_conn ex_s1))) Awaiting ex_s1"

definition ex_s3 :: sock where
  "ex_s3 = ex_s2\<lparr>s_conn := resolve ex_ack (s_conn ex_s2), s_reads := [ex_frame]\<rparr>"

definition ex_s4 :: sock where
  "ex_s4 = set_req 0 (the (s_reqs ex_s3 0)) (request_done 1 (s_conn ex_s3)) (Finished (Inr ex_ack)) ex_s3"

lemmas ex_s_defs = ex_s1_def ex_s2_def ex_s3_def ex_s4_def set_req_def send_def WriteMessage_def
  request_begin_def next_cid_def ex_conn_def new_conn_def ex_ws_def Let_def

lemma ex_s2_conn:
  "pending (s_conn ex_s2) = [1 \<mapsto> None]" "c_closed (s_conn ex_s2) = False" "botUserID (s_conn ex_s2) = ''7''"
  by (simp_all add: ex_s_defs)

lemma ex_run3: "sock_run std_wire (sock_init ex_conn) ex_s3"
proof -
  let ?s0 = "sock_init ex_conn"
  have "sock_step std_wire ?s0 (?s0\<lparr>s_conn := fst (request_begin ex_conn), s_adds := Suc (s_adds ?s0),
      s_reqs := (s_reqs ?s0)(0 \<mapsto> \<lparr>r_cid = 1, r_env = [5], r_since = length (s_reads ?s0), r_stage = Registered [5]\<rparr>)\<rparr>)"
    by (rule step_begin) (simp_all add: sock_init_def ex_s_defs)
  then have 1: "sock_step std_wire ?s0 ex_s1" by (simp add: sock_init_def ex_s1_def)
  have 2: "sock_step std_wire ex_s1 ex_s2" unfolding ex_s2_def
    by (rule step_send [where env = "[5]"]) (simp_all add: ex_s_defs request_send_def)
  have r: "read_frame std_wire ex_frame (s_conn ex_s2) = Some (resolve ex_ack (s_conn ex_s2), None)"
    by (simp add: read_frame_def hasPending_def ex_s2_conn ex_frame_ack)
  have 3: "sock_step std_wire ex_s2 ex_s3"
    using step_read [OF r] by (simp add: ex_s3_def) (simp add: ex_s_defs)
  show ?thesis by (rule run_step [OF run_step [OF run_step [OF run_start 1] 2] 3])
qed

lemma ex_s3_facts:
  "s_adds ex_s3 = 1" "s_reads ex_s3 = [ex_frame]" "s_reqs ex_s3 = [0 \<mapsto> \<lparr>r_cid = 1, r_env = [5], r_since = 0, r_stage = Awaiting\<rparr>]"
  "pending (s_conn ex_s3) = [1 \<mapsto> Some ex_ack]"
  by (simp_all add: ex_s3_def resolve_def ex_s2_conn ex_ack_def) (simp_all add: ex_s_defs)

lemma ex_run4: "sock_run std_wire (sock_init ex_conn) ex_s4"
proof -
  have "sock_step std_wire ex_s3 ex_s4" unfolding ex_s4_def
    by (rule step_receive) (simp_all add: ex_s3_facts request_receive_def ex_ack_def)
  then show ?thesis by (rule run_step [OF ex_run3])
qed

lemma ex_conn_start: "pingCid ex_conn = 0" "pending ex_conn = Map.empty"
  by (simp_all add: ex_conn_def new_conn_def)

lemma ex_reply: "first_reply std_wire 1 [ex_frame] = Some ex_ack"
  by (simp add: reply_in_def ex_frame_ack) (simp add: ex_ack_def)

lemma ex_s4_facts:
  "s_adds ex_s4 = 1" "s_reads ex_s4 = [ex_frame]"
  "s_reqs ex_s4 = [0 \<mapsto> \<lparr>r_cid = 1, r_env = [5], r_since = 0, r_stage = Finished (Inr ex_ack)\<rparr>]"
  by (simp_all add: ex_s4_def set_req_def ex_s3_facts)

lemma acked_request_gets_its_own_reply_witness:
  "SendTextAck_result (Inr ex_ack) = Inr ''99'' \<and> WithCid std_wire 1 [5] \<in> set (ws_sent (ws (s_conn ex_s4))) \<and>
    (\<exists>a. first_reply std_wire 1 [ex_frame] = Some a \<and> ack_MessageID a = ''99'')"
proof -
  have r: "SendTextAck_result (Inr ex_ack) = Inr ''99''" by (simp add: SendTextAck_result_def ex_ack_def)
  show ?thesis
    using acked_request_gets_its_own_reply [OF ex_run4 ex_conn_start, of 0
        "\<lparr>r_cid = 1, r_env = [5], r_since = 0, r_stage = Finished (Inr ex_ack)\<rparr>" "Inr ex_ack"] r
    by (simp add: ex_s4_facts) blast
qed

lemma waiting_request_receives_witness:
  "request_receive 1 (s_conn ex_s3) = Some (request_done 1 (s_conn ex_s3), Finished (Inr ex_ack)) \<and>
    dom (pending (s_conn ex_s3)) = {1}"
  using waiting_request_receives [OF ex_run3 ex_conn_start, of 0
      "\<lparr>r_cid = 1, r_env = [5], r_since = 0, r_stage = Awaiting\<rparr>" ex_ack]
  by (simp add: ex_s3_facts ex_reply del: first_reply.simps) (simp add: ex_ack_def)

text \<open>C30. A reply under the id of a request reaches that request and no other: its frame decodes to an
  acknowledgement under that id, except under id 0, which the encoder omits; the read loop hands it to
  the request waiting under the id, leaves every other request alone and emits no message.  And no
  request or event of the client is ever taken for a reply, whatever id it carries: not a message, an
  edit, a typing event, a reaction, a sticker, a clan join or a keepalive.\<close>

theorem cid_matches_replies_only:
  fixes cid :: u64
  assumes "wire w" "fits (enc_fields w [FBytes 7 (enc_fields w [FVarint 2 mid])])"
    and "fits (BuildSendEnvelopeRaw w ch cl mode pub content opts)"
    and "BuildUpdateEnvelope w ch cl msg mode pub text = Some edit" "fits edit"
    and "fits (BuildTypingEnvelope w ch cl sender user name mode pub)"
    and "fits (BuildReactionEnvelope w cl ch msg eid emoji action mode pub)"
    and "fits (BuildStickerEnvelope w ch cl mode pub short url)" "fits (BuildClanJoinEnvelope w cl)"
  defines "reply \<equiv> WithCid w cid (enc_fields w [FBytes 7 (enc_fields w [FVarint 2 mid])])"
  shows "DecodeAck w reply = Some (\<lparr>Cid = cid, ack_MessageID = FormatUint mid, Err = False\<rparr>, cid \<noteq> 0) \<and>
    (\<forall>c. cid \<noteq> 0 \<and> pending c cid = Some None \<longrightarrow> (\<exists>c'. read_frame w reply c = Some (c', None) \<and>
       pending c' = (pending c)(cid \<mapsto> Some \<lparr>Cid = cid, ack_MessageID = FormatUint mid, Err = False\<rparr>))) \<and>
    (\<forall>env \<in> {BuildSendEnvelopeRaw w ch cl mode pub content opts, edit,
       BuildTypingEnvelope w ch cl sender user name mode pub,
       BuildReactionEnvelope w cl ch msg eid emoji action mode pub,
       BuildStickerEnvelope w ch cl mode pub short url, BuildClanJoinEnvelope w cl}.
       \<exists>a. DecodeAck w (WithCid w cid env) = Some (a, False)) \<and>
    (\<exists>a. DecodeAck w (BuildPingEnvelopeWithCid w cid) = Some (a, False))"
proof (intro conjI)
  let ?fs = "vfield 1 cid @ [FBytes 7 (enc_fields w [FVarint 2 mid])]"
  let ?a = "\<lparr>Cid = cid, ack_MessageID = FormatUint mid, Err = False\<rparr>"
  have ok: "\<forall>f \<in> set ?fs. field_ok f"
    using wire.one_field_ok [OF assms(1) _ assms(2)] by (auto simp: vfield_def valid_num_def)
  have "DecodeAck w (enc_fields w ?fs) = Some (spec_ack ?fs [[FVarint 2 mid]],
      cids_at ?fs \<noteq> [] \<and> (bytes_at 7 ?fs \<noteq> [] \<or> bytes_at 12 ?fs \<noteq> []))"
    by (rule wire.DecodeAck_fields [OF assms(1) ok]) (simp_all add: valid_num_def)
  then show d: "DecodeAck w reply = Some (?a, cid \<noteq> 0)"
    unfolding reply_def wire.WithCid_fields [OF assms(1)]
    by (simp add: spec_ack_def vfield_def ack_ids_def del: enc_fields_simps)
  show "\<forall>c. cid \<noteq> 0 \<and> pending c cid = Some None \<longrightarrow>
      (\<exists>c'. read_frame w reply c = Some (c', None) \<and> pending c' = (pending c)(cid \<mapsto> Some ?a))"
  proof (intro allI impI)
    fix c :: Conn
    assume c: "cid \<noteq> 0 \<and> pending c cid = Some None"
    then have "hasPending c" by (auto simp: hasPending_def)
    then have "read_frame w reply c = Some (resolve ?a c, None)" using d c by (simp add: read_frame_def)
    then show "\<exists>c'. read_frame w reply c = Some (c', None) \<and> pending c' = (pending c)(cid \<mapsto> Some ?a)"
      using c by (simp add: resolve_def)
  qed
  have na: "\<exists>a. DecodeAck w (WithCid w cid (enc_fields w [FBytes n b])) = Some (a, False)"
    if "n \<in> {3, 8, 9, 24, 26}" "fits (enc_fields w [FBytes n b])" for n b
    using wire.request_not_ack [OF assms(1), of n b cid] wire.one_field_inner [OF assms(1) that(2)] that(1)
    by (auto simp: valid_num_def)
  obtain blob where e: "edit = enc_fields w [FBytes 9 (enc_fields w (update_fields ch cl msg mode pub blob))]"
  proof (cases "BuildContent text")
    case (Some blob)
    then show ?thesis using that [of blob] assms(4) wire.BuildUpdateEnvelope_fields [OF assms(1) Some] by simp
  qed (use assms(4) in \<open>simp add: BuildUpdateEnvelope_def\<close>)
  show "\<forall>env \<in> {BuildSendEnvelopeRaw w ch cl mode pub content opts, edit,
       BuildTypingEnvelope w ch cl sender user name mode pub,
       BuildReactionEnvelope w cl ch msg eid emoji action mode pub,
       BuildStickerEnvelope w ch cl mode pub short url, BuildClanJoinEnvelope w cl}.
       \<exists>a. DecodeAck w (WithCid w cid env) = Some (a, False)"
    using assms(3,5-9) na unfolding e wire.BuildSendEnvelopeRaw_fields [OF assms(1)]
      wire.BuildTypingEnvelope_fields [OF assms(1)] wire.BuildReactionEnvelope_fields [OF assms(1)]
      wire.BuildStickerEnvelope_fields [OF assms(1)] wire.BuildClanJoinEnvelope_fields [OF assms(1)]
    by (simp del: enc_fields_simps)
  show "\<exists>a. DecodeAck w (BuildPingEnvelopeWithCid w cid) = Some (a, False)"
    using wire.request_not_ack [OF assms(1), of 22 "[]" cid] fits_Nil
    unfolding wire.BuildPingEnvelopeWithCid_fields [OF assms(1)] wire.WithCid_fields [OF assms(1)]
    by (simp add: valid_num_def)
qed

lemma cid_matches_replies_only_witness:
  "\<exists>c'. read_frame std_wire (WithCid std_wire 6 (enc_fields std_wire [FBytes 7 (enc_fields std_wire [FVarint 2 99])]))
      (ex_conn\<lparr>pending := [6 \<mapsto> None, 7 \<mapsto> None]\<rparr>) = Some (c', None) \<and>
    pending c' = [7 \<mapsto> None, 6 \<mapsto> Some \<lparr>Cid = 6, ack_MessageID = FormatUint 99, Err = False\<rparr>]"
proof -
  let ?c = "ex_conn\<lparr>pending := [6 \<mapsto> None, 7 \<mapsto> None]\<rparr>"
  have f: "fits (enc_fields std_wire [FBytes 7 (enc_fields std_wire [FVarint 2 99])])" by (simp add: frame_eval)
  have b: "fits (BuildSendEnvelopeRaw std_wire ''20'' ''10'' 2 True ''{}'' ex_opts)"
    unfolding std.BuildSendEnvelopeRaw_fields
    by (simp add: send_fields_def ex_opts_def mention_fields_def ref_fields_def frame_eval u64_of_i32_def)
  have d: "fits (BuildTypingEnvelope std_wire ''20'' ''10'' ''5'' ''bob'' '''' 2 True)"
    "fits (BuildReactionEnvelope std_wire ''10'' ''20'' ''9'' '''' ''joy'' True 2 True)"
    "fits (BuildStickerEnvelope std_wire ''20'' ''10'' 2 True ''cat'' ''u'')"
    "fits (BuildClanJoinEnvelope std_wire ''10'')"
    unfolding std.BuildTypingEnvelope_fields std.BuildReactionEnvelope_fields std.BuildStickerEnvelope_fields
      std.BuildClanJoinEnvelope_fields
    by (simp_all add: typing_fields_def reaction_fields_def sticker_fields_def frame_eval u64_of_i32_def)
  note p = cid_matches_replies_only [OF std.wire_axioms f b std.BuildUpdateEnvelope_fields [OF ex_blob] ex_edit_fits d, where cid = 6]
  have "(6 :: u64) \<noteq> 0 \<and> pending ?c 6 = Some None" by simp
  then have "\<exists>c'. read_frame std_wire (WithCid std_wire 6 (enc_fields std_wire [FBytes 7 (enc_fields std_wire [FVarint 2 99])])) ?c =
      Some (c', None) \<and> pending c' = (pending ?c)(6 \<mapsto> Some \<lparr>Cid = 6, ack_MessageID = FormatUint 99, Err = False\<rparr>)"
    using p by blast
  then show ?thesis by (simp add: fun_upd_twist del: enc_fields_simps)
qed

end
