(* ===== verification/Ping_Wheel.thy ===== *)
theory Ping_Wheel
  imports Conn_Correct
begin

text \<open>
  \<open>lib/ws/pingwheel.go\<close>: the one goroutine that keeps every hot socket alive.  A connection is
  an address in a heap, since the wheel, the engine and the read loops share it.  One tick is
  the loop over the snapshot of the registered addresses, in the order the map yields them.
\<close>

type_synonym conn_heap = "nat \<rightharpoonup> Conn"

record PingWheel =
  interval :: duration
  w_conns :: "nat \<rightharpoonup> unit"

definition NewPingWheel :: "duration \<Rightarrow> PingWheel" where
  "NewPingWheel i = \<lparr>interval = (if i \<le> 0 then 10 * second else i), w_conns = Map.empty\<rparr>"

definition wheel_Add :: "nat \<Rightarrow> PingWheel \<Rightarrow> PingWheel" where
  "wheel_Add p wh = wh\<lparr>w_conns := (w_conns wh)(p \<mapsto> ())\<rparr>"

definition wheel_Remove :: "nat \<Rightarrow> PingWheel \<Rightarrow> PingWheel" where
  "wheel_Remove p wh = wh\<lparr>w_conns := (w_conns wh)(p := None)\<rparr>"

definition wheel_Len :: "PingWheel \<Rightarrow> nat" where
  "wheel_Len wh = card (dom (w_conns wh))"

definition wheel_visit :: "wire_lib \<Rightarrow> PingWheel \<times> conn_heap \<Rightarrow> nat \<Rightarrow> PingWheel \<times> conn_heap" where
  "wheel_visit w s p = (case s of (wh, h) \<Rightarrow>
     (case h p of
        None \<Rightarrow> (wh, h)
      | Some c \<Rightarrow> if conn_Closed c then (wheel_Remove p wh, h) else (wh, h(p \<mapsto> fst (ping w c)))))"

definition wheel_tick :: "wire_lib \<Rightarrow> nat list \<Rightarrow> PingWheel \<times> conn_heap \<Rightarrow> PingWheel \<times> conn_heap" where
  "wheel_tick w ks s = foldl (wheel_visit w) s ks"

text \<open>The ticks before the context is cancelled, each with the order of its snapshot.\<close>

definition wheel_Run :: "wire_lib \<Rightarrow> nat list list \<Rightarrow> PingWheel \<times> conn_heap \<Rightarrow> PingWheel \<times> conn_heap" where
  "wheel_Run w orders s = foldl (\<lambda>s ks. wheel_tick w ks s) s orders"

fun orders_ok :: "wire_lib \<Rightarrow> nat list list \<Rightarrow> PingWheel \<times> conn_heap \<Rightarrow> bool" where
  "orders_ok w [] s = True"
| "orders_ok w (ks # rest) s \<longleftrightarrow> range_order (w_conns (fst s)) ks \<and> orders_ok w rest (wheel_tick w ks s)"

section \<open>One tick\<close>

text \<open>What a tick makes of a registered connection.\<close>

definition kept_alive :: "wire_lib \<Rightarrow> Conn \<Rightarrow> Conn" where
  "kept_alive w c = (if c_closed c then c else fst (ping w c))"

lemma kept_alive_closed [simp]: "c_closed (kept_alive w c) = c_closed c"
  using ping_frame(5) [of w c "fst (ping w c)" "snd (ping w c)"] by (simp add: kept_alive_def)

lemma wheel_tick_eq:
  assumes "distinct ks"
  shows "wheel_tick w ks (wh, h) =
    (wh\<lparr>w_conns := (\<lambda>p. if p \<in> set ks \<and> (\<exists>c. h p = Some c \<and> c_closed c) then None else w_conns wh p)\<rparr>,
     \<lambda>p. if p \<in> set ks then map_option (kept_alive w) (h p) else h p)"
  using assms
proof (induction ks arbitrary: wh h)
  case Nil
  then show ?case by (simp add: wheel_tick_def)
next
  case (Cons k ks)
  let ?s = "wheel_visit w (wh, h) k"
  have IH: "wheel_tick w ks (a, b) =
      (a\<lparr>w_conns := (\<lambda>p. if p \<in> set ks \<and> (\<exists>c. b p = Some c \<and> c_closed c) then None else w_conns a p)\<rparr>,
       \<lambda>p. if p \<in> set ks then map_option (kept_alive w) (b p) else b p)" for a b
    using Cons by simp
  have s: "wheel_tick w (k # ks) (wh, h) = wheel_tick w ks (fst ?s, snd ?s)" by (simp add: wheel_tick_def)
  obtain i m where wh: "wh = \<lparr>interval = i, w_conns = m\<rparr>" by (cases wh)
  show ?case
  proof (cases "h k")
    case None
    then have v: "?s = (wh, h)" by (simp add: wheel_visit_def)
    show ?thesis unfolding s v IH fst_conv snd_conv using Cons.prems None by (auto simp: wh fun_eq_iff)
  next
    case (Some c)
    then have v: "?s = (if c_closed c then (wheel_Remove k wh, h) else (wh, h(k \<mapsto> kept_alive w c)))"
      by (simp add: wheel_visit_def conn_Closed_def kept_alive_def)
    show ?thesis
    proof (cases "c_closed c")
      case True
      then show ?thesis unfolding s v using Cons.prems Some
        by (auto simp: IH wh wheel_Remove_def fun_eq_iff kept_alive_def)
    next
      case False
      then show ?thesis unfolding s v using Cons.prems Some by (auto simp: IH wh fun_eq_iff)
    qed
  qed
qed

text \<open>The open connections of the wheel, which a tick keeps and pings.\<close>

definition alive :: "PingWheel \<times> conn_heap \<Rightarrow> nat \<Rightarrow> Conn \<Rightarrow> bool" where
  "alive s p c \<longleftrightarrow> p \<in> dom (w_conns (fst s)) \<and> snd s p = Some c \<and> \<not> c_closed c"

lemma tick_alive:
  assumes "range_order (w_conns (fst s)) ks"
  shows "alive s p c \<Longrightarrow> alive (wheel_tick w ks s) p (fst (ping w c))"
    and "(\<forall>c. \<not> alive s p c) \<Longrightarrow> snd (wheel_tick w ks s) p = snd s p \<and> (\<forall>c. \<not> alive (wheel_tick w ks s) p c)"
    and "p \<in> dom (w_conns (fst (wheel_tick w ks s))) \<longleftrightarrow>
      p \<in> dom (w_conns (fst s)) \<and> (\<forall>c. snd s p = Some c \<longrightarrow> \<not> c_closed c)"
proof -
  have d: "distinct ks" "set ks = dom (w_conns (fst s))" using assms by (auto simp: range_order_def)
  obtain wh h where s: "s = (wh, h)" by (rule prod.exhaust)
  show "alive s p c \<Longrightarrow> alive (wheel_tick w ks s) p (fst (ping w c))"
    using d kept_alive_closed [of w c] by (auto simp: s wheel_tick_eq alive_def kept_alive_def)
  show "(\<forall>c. \<not> alive s p c) \<Longrightarrow> snd (wheel_tick w ks s) p = snd s p \<and> (\<forall>c. \<not> alive (wheel_tick w ks s) p c)"
    using d by (cases "h p") (auto simp: s wheel_tick_eq alive_def kept_alive_def)
  show "p \<in> dom (w_conns (fst (wheel_tick w ks s))) \<longleftrightarrow>
      p \<in> dom (w_conns (fst s)) \<and> (\<forall>c. snd s p = Some c \<longrightarrow> \<not> c_closed c)"
    using d by (auto simp: s wheel_tick_eq split: if_splits)
qed

definition pings :: "wire_lib \<Rightarrow> nat \<Rightarrow> Conn \<Rightarrow> Conn" where
  "pings w n = ((\<lambda>c. fst (ping w c)) ^^ n)"

lemma pings_Suc: "pings w (Suc n) c = pings w n (fst (ping w c))"
  by (simp only: pings_def funpow_Suc_right comp_def)

lemma wheel_run_alive:
  "orders_ok w orders s \<Longrightarrow> alive s p c \<Longrightarrow> alive (wheel_Run w orders s) p (pings w (length orders) c)"
proof (induction orders arbitrary: s c)
  case (Cons ks orders)
  have "alive (wheel_tick w ks s) p (fst (ping w c))" using Cons.prems tick_alive(1) by simp
  then have "alive (wheel_Run w orders (wheel_tick w ks s)) p (pings w (length orders) (fst (ping w c)))"
    using Cons by simp
  then show ?case by (simp add: wheel_Run_def pings_Suc)
qed (simp add: wheel_Run_def pings_def)

lemma wheel_run_dead:
  "orders_ok w orders s \<Longrightarrow> (\<forall>c. \<not> alive s p c) \<Longrightarrow>
    snd (wheel_Run w orders s) p = snd s p \<and> (\<forall>c. \<not> alive (wheel_Run w orders s) p c)"
proof (induction orders arbitrary: s)
  case (Cons ks orders)
  have "snd (wheel_tick w ks s) p = snd s p \<and> (\<forall>c. \<not> alive (wheel_tick w ks s) p c)"
    using Cons.prems tick_alive(2) by simp
  then show ?case using Cons.IH [of "wheel_tick w ks s"] Cons.prems by (simp add: wheel_Run_def)
qed (simp add: wheel_Run_def)

lemma pings_healthy:
  "healthy c \<Longrightarrow> healthy (pings w n c) \<and> pingCid (pings w n c) = pingCid c + of_nat n \<and>
    ws_sent (ws (pings w n c)) = ws_sent (ws c) @
      map (\<lambda>i. BuildPingEnvelopeWithCid w (pingCid c + of_nat (Suc i))) [0..<n]"
proof (induction n)
  case (Suc n)
  have p: "pings w (Suc n) c = fst (ping w (pings w n c))" by (simp add: pings_def)
  have "ping w d = (d\<lparr>pingCid := pingCid d + 1, ws := (ws d)\<lparr>ws_calls := Suc (ws_calls (ws d)),
      ws_sent := ws_sent (ws d) @ [BuildPingEnvelopeWithCid w (pingCid d + 1)]\<rparr>\<rparr>, None)" if "healthy d" for d
    using that by (simp add: healthy_def ping_def next_cid_def send_def WriteMessage_def)
  from this [of "pings w n c"] show ?case using Suc p by (simp add: healthy_def algebra_simps)
qed (simp add: pings_def)

section \<open>The property\<close>

text \<open>C17. Over any number of ticks, each registered open connection whose writes succeed is sent
  exactly one ping a tick, under ids that count up from its last, and stays registered; a
  connection that is closed or not registered is not touched; and after the first tick the
  wheel holds no connection that was closed.\<close>

theorem wheel_keeps_alive:
  assumes "orders_ok w orders (wh, h)" "wheel_Run w orders (wh, h) = (wh', h')"
  shows "(p \<in> dom (w_conns wh) \<and> h p = Some c \<and> healthy c \<longrightarrow>
      p \<in> dom (w_conns wh') \<and> (\<exists>c'. h' p = Some c' \<and> healthy c' \<and>
        ws_sent (ws c') = ws_sent (ws c) @
          map (\<lambda>i. BuildPingEnvelopeWithCid w (pingCid c + of_nat (Suc i))) [0..<length orders])) \<and>
    (p \<notin> dom (w_conns wh) \<or> h p = Some c \<and> c_closed c \<longrightarrow>
      h' p = h p \<and> (orders \<noteq> [] \<longrightarrow> p \<notin> dom (w_conns wh')))"
proof (rule conjI; rule impI)
  assume "p \<in> dom (w_conns wh) \<and> h p = Some c \<and> healthy c"
  then have "alive (wh, h) p c" "healthy c" by (auto simp: alive_def healthy_def)
  from wheel_run_alive [OF assms(1) this(1)] pings_healthy [OF this(2), of w "length orders"]
  show "p \<in> dom (w_conns wh') \<and> (\<exists>c'. h' p = Some c' \<and> healthy c' \<and>
      ws_sent (ws c') = ws_sent (ws c) @
        map (\<lambda>i. BuildPingEnvelopeWithCid w (pingCid c + of_nat (Suc i))) [0..<length orders])"
    unfolding assms(2) by (simp add: alive_def)
next
  assume d: "p \<notin> dom (w_conns wh) \<or> h p = Some c \<and> c_closed c"
  then have na: "\<forall>c. \<not> alive (wh, h) p c" by (auto simp: alive_def)
  have e: "h' p = h p" using wheel_run_dead [OF assms(1) na] assms(2) by simp
  have "p \<notin> dom (w_conns wh')" if "orders \<noteq> []"
  proof -
  from that
  obtain ks rest where o: "orders = ks # rest" by (cases orders) auto
  let ?t = "wheel_tick w ks (wh, h)"
  have r: "range_order (w_conns wh) ks" and ok: "orders_ok w rest ?t" using assms(1) o by simp_all
  have gone: "p \<notin> dom (w_conns (fst ?t))" using tick_alive(3) [of "(wh, h)" ks p w] r d by auto
  have "p \<notin> dom (w_conns (fst (wheel_Run w os s)))"
    if "orders_ok w os s" "p \<notin> dom (w_conns (fst s))" for os s
    using that
  proof (induction os arbitrary: s)
    case (Cons k os)
    then show ?case using tick_alive(3) [of s k p w] Cons.IH [of "wheel_tick w k s"] by (simp add: wheel_Run_def)
  qed (simp add: wheel_Run_def)
  from this [OF ok gone] show "p \<notin> dom (w_conns wh')" using assms(2) by (simp add: o wheel_Run_def)
  qed
  with e show "h' p = h p \<and> (orders \<noteq> [] \<longrightarrow> p \<notin> dom (w_conns wh'))" by blast
qed

definition ex_wheel :: PingWheel where
  "ex_wheel = wheel_Add 2 (wheel_Add 1 (NewPingWheel 0))"

lemma wheel_keeps_alive_witness:
  "\<exists>wh' h' c'. wheel_Run std_wire [[2, 1], [1]] (ex_wheel, [1 \<mapsto> ex_conn, 2 \<mapsto> Close ex_conn]) = (wh', h') \<and>
    h' 1 = Some c' \<and> ws_sent (ws c') = [BuildPingEnvelopeWithCid std_wire 1, BuildPingEnvelopeWithCid std_wire 2]"
proof -
  let ?s = "(ex_wheel, [1 \<mapsto> ex_conn, 2 \<mapsto> Close ex_conn])"
  obtain wh' h' where r: "wheel_Run std_wire [[2, 1], [1]] ?s = (wh', h')" by (rule prod.exhaust)
  have "orders_ok std_wire [[2, 1], [1]] ?s"
    by (auto simp: range_order_def ex_wheel_def wheel_Add_def NewPingWheel_def wheel_tick_def wheel_visit_def
        conn_Closed_def Close_def ex_conn_def new_conn_def wheel_Remove_def split: if_splits)
  from wheel_keeps_alive [OF this r, of 1 ex_conn] r show ?thesis
    by (auto simp: ex_wheel_def wheel_Add_def NewPingWheel_def healthy_def ex_conn_def new_conn_def ex_ws_def
        upt_rec)
qed

end
