(* ===== verification/Engine.thy ===== *)
theory Engine
  imports Ping_Wheel Rest Poller Redis_State Tier_Manager
begin

text \<open>
  \<open>lib/turbo/turbo.go\<close>: the engine that ties the socket client, the poller, the store and the
  tier manager together.  \<open>Engine\<close> holds what \<open>New\<close> wires and never changes; \<open>EState\<close> holds what
  the engine's mutex guards, the heap of connections and the goroutines it has started.  For the
  sockets each section of the code under the mutex is one function, and a goroutine between two
  of them is a \<open>job\<close>: opening, registering, losing and closing a socket interleave as they do in
  the code.  Some operations are coarser than the code, which releases the mutex within them:
  \<open>session\<close> looks up, authenticates and stores in one step, \<open>SyncClans\<close> (in \<open>Engine_Api\<close>) is one
  step with all its listings, and \<open>open_dial\<close> is the session, the dial and, after a failure, the
  two deletions in one step.  \<open>Poll\<close> adds its poll to the goroutines at once, where the code waits in
  \<open>Submit\<close> for a worker.  The REST client, the dialler, the clock and the readings of the manager
  are functions on the state \<open>'w\<close> of the world outside.
\<close>

section \<open>Configuration and interfaces\<close>

record EngineConfig =
  WSHost :: string
  WSSSL :: bool
  ec_Tier :: Config
  PollRPS :: int
  PollWorkers :: int
  PollPageLimit :: i32
  StateTTL :: duration
  DedupCap :: int
  PingInterval :: duration

text \<open>The capabilities of the REST client handed to \<open>New\<close>: it always lists messages; the other
  interfaces are what its type assertions find, \<open>None\<close> when it does not implement one.\<close>

record 'w ClanDirectory =
  dir_ListClans :: "string \<Rightarrow> string \<Rightarrow> 'w \<Rightarrow> 'w \<times> (rest_err + Clan list)"
  dir_ListChannels :: "string \<Rightarrow> string \<Rightarrow> string \<Rightarrow> 'w \<Rightarrow> 'w \<times> (rest_err + Channel list)"

record 'w Lister =
  l_ListSince :: "string \<Rightarrow> string \<Rightarrow> string \<Rightarrow> string \<Rightarrow> i32 \<Rightarrow> 'w \<Rightarrow> 'w \<times> Message list \<times> string \<times> bool"
  l_Authenticator :: "(string \<Rightarrow> string \<Rightarrow> 'w \<Rightarrow> 'w \<times> (rest_err + Session)) option"
  l_ClanLister :: "(string \<Rightarrow> string \<Rightarrow> 'w \<Rightarrow> 'w \<times> (rest_err + string list)) option"
  l_ClanDirectory :: "'w ClanDirectory option"
  l_AccountFetcher :: "(string \<Rightarrow> string \<Rightarrow> 'w \<Rightarrow> 'w \<times> (rest_err + Account)) option"

record ClanSnapshot =
  snap_ID :: string
  snap_Name :: string
  snap_Channels :: "Channel list"
  ChannelsKnown :: bool

abbreviation hour :: duration where "hour \<equiv> 60 * minute"

definition channelsBackoff :: duration where "channelsBackoff = 6 * hour"
definition sessionTTL :: duration where "sessionTTL = 30 * minute"

record cachedSession =
  cs_token :: string
  cs_wsHost :: string
  cs_apiURL :: string
  cs_clanIDs :: "string list"
  cs_username :: string
  cs_displayName :: string
  cs_fetched :: go_time

section \<open>The engine\<close>

datatype job =
    OpenJob BotRef            \<comment> \<open>the goroutine of \<open>OpenHot\<close>, before it has dialled\<close>
  | RegisterJob BotRef nat    \<comment> \<open>the same, holding the connection it dialled\<close>
  | FailJob BotRef            \<comment> \<open>the same, after a failed dial\<close>
  | ClosedJob BotRef          \<comment> \<open>the read loop of a socket has ended: its \<open>onClose\<close>\<close>
  | RearmJob BotRef           \<comment> \<open>the rest of \<open>onClose\<close> after it evicted the socket\<close>
  | ShutJob nat               \<comment> \<open>\<open>CloseHot\<close> past its critical section\<close>
  | PollJob BotRef string     \<comment> \<open>a poll handed to the poller\<close>

text \<open>\<open>owner\<close> is the bot in the callbacks of a socket opened hot and \<open>reading\<close> the sockets whose
  read loop runs (a socket dialled for one call has no such callbacks); \<open>x_out\<close> records the messages handed to the consumer, \<open>x_next\<close> is the next free address.\<close>

record 'w EState =
  x_w :: 'w
  noChannels :: "string \<rightharpoonup> go_time"
  hot :: "string \<rightharpoonup> nat"
  x_opening :: "string \<rightharpoonup> unit"
  sessions :: "string \<rightharpoonup> cachedSession"
  pw :: PingWheel
  conns :: conn_heap
  owner :: "nat \<rightharpoonup> BotRef"
  reading :: "nat set"
  x_next :: nat
  jobs :: "job list"
  x_out :: "(BotRef \<times> Message) list"

text \<open>\<open>e_sample\<close> is what the manager reads from outside in one pass: the orders of its map loops,
  the heap gauge and the clock.\<close>

record 'w Engine =
  cfg :: EngineConfig
  e_wire :: wire_lib
  e_store :: "'w Store"
  e_lister :: "'w Lister"
  e_onMessage :: "(BotRef \<Rightarrow> Message \<Rightarrow> 'w \<Rightarrow> 'w) option"
  e_limiter :: "int \<Rightarrow> 'w \<Rightarrow> 'w \<times> bool"
  e_dial :: "string \<Rightarrow> 'w \<Rightarrow> 'w \<times> (string + websocket)"
  e_now :: "'w \<Rightarrow> 'w \<times> go_time"
  e_rnd :: "real \<Rightarrow> real"
  e_sample :: "Manager \<Rightarrow> 'w \<Rightarrow> 'w \<times> orders \<times> nat \<times> go_time"

abbreviation auth :: "'w Engine \<Rightarrow> (string \<Rightarrow> string \<Rightarrow> 'w \<Rightarrow> 'w \<times> (rest_err + Session)) option" where
  "auth E \<equiv> l_Authenticator (e_lister E)"

type_synonym 'w sys = "Manager \<times> 'w EState"

text \<open>\<open>on_w\<close> runs an operation of the world in the engine.\<close>

definition on_w :: "('w \<Rightarrow> 'w \<times> 'a) \<Rightarrow> 'w EState \<Rightarrow> 'w EState \<times> 'a" where
  "on_w f x = (case f (x_w x) of (w, r) \<Rightarrow> (x\<lparr>x_w := w\<rparr>, r))"

section \<open>Sessions\<close>

definition TrimPrefix :: "string \<Rightarrow> string \<Rightarrow> string" where
  "TrimPrefix s p = (if take (length p) s = p then drop (length p) s else s)"

definition session_host :: "string \<Rightarrow> string \<Rightarrow> string" where
  "session_host url dflt =
     (let h = TrimPrefix (TrimPrefix url ''wss://'') ''ws://'' in if h = '''' then dflt else h)"

text \<open>The cached session if there is a fresh one; the clock is read only when there is one.\<close>

definition fresh_session :: "'w Engine \<Rightarrow> string \<Rightarrow> 'w EState \<Rightarrow> 'w EState \<times> cachedSession option" where
  "fresh_session E k x = (case sessions x k of
       None \<Rightarrow> (x, None)
     | Some s \<Rightarrow> (case on_w (e_now E) x of (x, t) \<Rightarrow>
         (x, if time_Sub t (cs_fetched s) < sessionTTL then Some s else None)))"

definition session_clans :: "'w Engine \<Rightarrow> Session \<Rightarrow> 'w EState \<Rightarrow> 'w EState \<times> string list" where
  "session_clans E sess x = (case l_ClanLister (e_lister E) of
       None \<Rightarrow> (x, [''0''])
     | Some clans \<Rightarrow> (case on_w (clans (ses_APIURL sess) (ses_Token sess)) x of
           (x, Inl e) \<Rightarrow> (x, [''0''])
         | (x, Inr ids) \<Rightarrow> (x, [''0''] @ ids)))"

definition session_names :: "'w Engine \<Rightarrow> Session \<Rightarrow> 'w EState \<Rightarrow> 'w EState \<times> string \<times> string" where
  "session_names E sess x = (case l_AccountFetcher (e_lister E) of
       None \<Rightarrow> (x, '''', '''')
     | Some acct \<Rightarrow> (case on_w (acct (ses_APIURL sess) (ses_Token sess)) x of
           (x, Inl e) \<Rightarrow> (x, '''', '''')
         | (x, Inr acc) \<Rightarrow> (x, ac_Username acc, ac_DisplayName acc)))"

definition session :: "'w Engine \<Rightarrow> BotRef \<Rightarrow> 'w EState \<Rightarrow> 'w EState \<times> string \<times> string \<times> string list" where
  "session E b x = (case auth E of
       None \<Rightarrow> (x, BotToken b, WSHost (cfg E), [])
     | Some authenticate \<Rightarrow>
     (case fresh_session E (KeyID b) x of
        (x, Some s) \<Rightarrow> (x, cs_token s, cs_wsHost s, cs_clanIDs s)
      | (x, None) \<Rightarrow>
     (case on_w (authenticate (BotUserID b) (BotToken b)) x of
        (x, Inl e) \<Rightarrow> (x, BotToken b, WSHost (cfg E), [])
      | (x, Inr sess) \<Rightarrow>
     (case session_clans E sess x of (x, clanIDs) \<Rightarrow>
     (case on_w (e_now E) x of (x, t) \<Rightarrow>
     (case session_names E sess x of (x, user, disp) \<Rightarrow>
     (let host = session_host (ses_WSURL sess) (WSHost (cfg E));
          cs = \<lparr>cs_token = ses_Token sess, cs_wsHost = host, cs_apiURL = ses_APIURL sess,
                cs_clanIDs = clanIDs, cs_username = user, cs_displayName = disp, cs_fetched = t\<rparr>
      in (x\<lparr>sessions := (sessions x)(KeyID b \<mapsto> cs)\<rparr>, ses_Token sess, host, clanIDs))))))))"

definition dropSession :: "string \<Rightarrow> 'w EState \<Rightarrow> 'w EState" where
  "dropSession k x = x\<lparr>sessions := (sessions x)(k := None)\<rparr>"

section \<open>Connections\<close>

text \<open>\<open>conn != nil && !conn.Closed()\<close>: the live socket registered for a bot.\<close>

definition live_conn :: "'w EState \<Rightarrow> string \<Rightarrow> (nat \<times> Conn) option" where
  "live_conn x k = (case hot x k of
       None \<Rightarrow> None
     | Some p \<Rightarrow> (case conns x p of
           None \<Rightarrow> None
         | Some c \<Rightarrow> if conn_Closed c then None else Some (p, c)))"

definition put_conn :: "nat \<Rightarrow> Conn \<Rightarrow> 'w EState \<Rightarrow> 'w EState" where
  "put_conn p c x = x\<lparr>conns := (conns x)(p \<mapsto> c)\<rparr>"

definition close_conn :: "nat \<Rightarrow> 'w EState \<Rightarrow> 'w EState" where
  "close_conn p x = (case conns x p of None \<Rightarrow> x | Some c \<Rightarrow> put_conn p (Close c) x)"

text \<open>\<open>ws.Dial\<close> after \<open>e.session\<close>; the new connection gets the next address.\<close>

definition dial_bot :: "'w Engine \<Rightarrow> BotRef \<Rightarrow> 'w EState \<Rightarrow> 'w EState \<times> (conn_err + nat)" where
  "dial_bot E b x = (case session E b x of (x, token, host, clanIDs) \<Rightarrow>
     (case on_w (e_dial E (endpoint host (WSSSL (cfg E)) token)) x of (x, r) \<Rightarrow>
     (case Dial (e_wire E) (\<lambda>_. r) host (WSSSL (cfg E)) token (BotUserID b) clanIDs of
        Inl e \<Rightarrow> (x, Inl e)
      | Inr c \<Rightarrow> ((put_conn (x_next x) c x)\<lparr>x_next := Suc (x_next x)\<rparr>, Inr (x_next x)))))"

subsection \<open>Opening\<close>

definition OpenHot :: "BotRef \<Rightarrow> 'w EState \<Rightarrow> 'w EState" where
  "OpenHot b x =
     (if live_conn x (KeyID b) \<noteq> None then x
      else if x_opening x (KeyID b) \<noteq> None then x
      else x\<lparr>x_opening := (x_opening x)(KeyID b \<mapsto> ()), jobs := jobs x @ [OpenJob b]\<rparr>)"

text \<open>The goroutine of \<open>OpenHot\<close>: dial, with a read loop for the new socket; after a failure,
  forget the session and the claim.\<close>

definition open_dial :: "'w Engine \<Rightarrow> BotRef \<Rightarrow> 'w EState \<Rightarrow> 'w EState" where
  "open_dial E b x = (case dial_bot E b x of
       (x, Inl e) \<Rightarrow>
         (let x = dropSession (KeyID b) x
          in x\<lparr>x_opening := (x_opening x)(KeyID b := None), jobs := jobs x @ [FailJob b]\<rparr>)
     | (x, Inr p) \<Rightarrow> x\<lparr>owner := (owner x)(p \<mapsto> b), reading := insert p (reading x),
         jobs := jobs x @ [RegisterJob b p]\<rparr>)"

definition open_register :: "BotRef \<Rightarrow> nat \<Rightarrow> 'w EState \<Rightarrow> 'w EState" where
  "open_register b p x =
     (if x_opening x (KeyID b) = None then close_conn p x
      else (let x = x\<lparr>x_opening := (x_opening x)(KeyID b := None)\<rparr> in
        if live_conn x (KeyID b) \<noteq> None then close_conn p x
        else x\<lparr>hot := (hot x)(KeyID b \<mapsto> p), pw := wheel_Add p (pw x)\<rparr>))"

subsection \<open>Losing and closing\<close>

text \<open>The end of a read loop: the connection is marked, then its \<open>onClose\<close> runs.\<close>

definition conn_lost :: "nat \<Rightarrow> 'w EState \<Rightarrow> 'w EState" where
  "conn_lost p x = (case (conns x p, owner x p) of
       (Some c, Some b) \<Rightarrow> (put_conn p (c\<lparr>c_closed := True\<rparr>) x)
         \<lparr>reading := reading x - {p}, jobs := jobs x @ [ClosedJob b]\<rparr>
     | _ \<Rightarrow> x)"

definition onClose :: "BotRef \<Rightarrow> 'w EState \<Rightarrow> 'w EState" where
  "onClose b x = (case hot x (KeyID b) of
       None \<Rightarrow> x
     | Some p \<Rightarrow>
         if live_conn x (KeyID b) = None
         then x\<lparr>hot := (hot x)(KeyID b := None), pw := wheel_Remove p (pw x), jobs := jobs x @ [RearmJob b]\<rparr>
         else x)"

definition CloseHot_take :: "string \<Rightarrow> 'w EState \<Rightarrow> 'w EState \<times> nat option" where
  "CloseHot_take k x = (x\<lparr>hot := (hot x)(k := None), x_opening := (x_opening x)(k := None)\<rparr>, hot x k)"

definition CloseHot_shut :: "nat \<Rightarrow> 'w EState \<Rightarrow> 'w EState" where
  "CloseHot_shut p x = close_conn p (x\<lparr>pw := wheel_Remove p (pw x)\<rparr>)"

definition CloseHot :: "string \<Rightarrow> 'w EState \<Rightarrow> 'w EState" where
  "CloseHot k x = (case CloseHot_take k x of (x, None) \<Rightarrow> x | (x, Some p) \<Rightarrow> CloseHot_shut p x)"

subsection \<open>Polling\<close>

definition Poll :: "'w Engine \<Rightarrow> BotRef \<Rightarrow> 'w EState \<Rightarrow> 'w EState" where
  "Poll E b x = (case session E b x of (x, token, _, _) \<Rightarrow> x\<lparr>jobs := jobs x @ [PollJob b token]\<rparr>)"

text \<open>The engine is the actuator of its manager.\<close>

definition engine_act :: "'w Engine \<Rightarrow> 'w EState Actuator" where
  "engine_act E = \<lparr>act_OpenHot = OpenHot, act_CloseHot = CloseHot, act_Poll = Poll E\<rparr>"

end
