(* ===== verification/Engine_Api.thy ===== *)
theory Engine_Api
  imports Engine
begin

text \<open>
  The operations of \<open>lib/turbo/turbo.go\<close> that its consumer calls, and the delivery of inbound
  messages: what \<open>Engine.thy\<close> models, composed with the tier manager (which the engine serves
  as actuator), with the poller and with the store.  The messages that a read loop delivers while
  an acknowledged send waits are those of \<open>hot_frame\<close>; the send itself shows only what its frames do
  to the connection.
\<close>

section \<open>Delivery\<close>

text \<open>\<open>mgr.Touch\<close> with the engine as actuator; the readings of the pass come from outside.\<close>

definition engine_Touch :: "'w Engine \<Rightarrow> string \<Rightarrow> 'w sys \<Rightarrow> 'w sys" where
  "engine_Touch E k s = (case s of (m, x) \<Rightarrow>
     (case on_w (e_sample E m) x of (x, ords, mem, now) \<Rightarrow>
        Touch (e_rnd E) (engine_act E) ords mem now k (m, x)))"

definition deliver :: "'w Engine \<Rightarrow> BotRef \<Rightarrow> Message \<Rightarrow> 'w sys \<Rightarrow> 'w sys" where
  "deliver E b msg s = (case s of (m, x) \<Rightarrow>
     (let x = fst (on_w (st_AddChannel (e_store E) (KeyID b) (ChannelID msg)) x) in
      (case engine_Touch E (KeyID b) (m, x) of (m, x) \<Rightarrow>
        (case e_onMessage E of
           None \<Rightarrow> (m, x)
         | Some h \<Rightarrow> (m, x\<lparr>x_w := h b msg (x_w x), x_out := x_out x @ [(b, msg)]\<rparr>)))))"

text \<open>An error of the store counts as not seen.\<close>

definition onHotMessage :: "'w Engine \<Rightarrow> BotRef \<Rightarrow> Message \<Rightarrow> 'w sys \<Rightarrow> 'w sys" where
  "onHotMessage E b msg s = (case s of (m, x) \<Rightarrow>
     (case on_w (st_Seen (e_store E) (KeyID b) (MessageID msg)) x of
        (x, Inr True) \<Rightarrow> (m, x)
      | (x, _) \<Rightarrow> deliver E b msg (m, x)))"

definition onPollMessage :: "'w Engine \<Rightarrow> BotRef \<Rightarrow> Message \<Rightarrow> 'w sys \<Rightarrow> 'w sys" where
  "onPollMessage E b msg s = deliver E b msg s"

text \<open>One iteration of the read loop of a hot socket, its callback included; \<open>None\<close> if a decoder
  does not return or no read loop runs there.\<close>

definition hot_frame :: "'w Engine \<Rightarrow> nat \<Rightarrow> bytes \<Rightarrow> 'w sys \<Rightarrow> 'w sys option" where
  "hot_frame E p data s = (case s of (m, x) \<Rightarrow>
     (case (owner x p, conns x p) of
        (Some b, Some c) \<Rightarrow>
          if p \<notin> reading x then None else (case read_frame (e_wire E) data c of
             None \<Rightarrow> None
           | Some (c', None) \<Rightarrow> Some (m, put_conn p c' x)
           | Some (c', Some msg) \<Rightarrow> Some (onHotMessage E b msg (m, put_conn p c' x)))
      | _ \<Rightarrow> None))"

section \<open>The poller of the engine\<close>

text \<open>Operations of the world as operations of the whole system.\<close>

definition on_sys :: "('w \<Rightarrow> 'w \<times> 'a) \<Rightarrow> 'w sys \<Rightarrow> 'w sys \<times> 'a" where
  "on_sys f s = (case s of (m, x) \<Rightarrow> (case on_w f x of (x, r) \<Rightarrow> ((m, x), r)))"

definition sys_store :: "'w Store \<Rightarrow> 'w sys Store" where
  "sys_store st = \<lparr>
     st_Seen = (\<lambda>i m. on_sys (st_Seen st i m)),
     st_Channels = (\<lambda>i. on_sys (st_Channels st i)),
     st_AddChannel = (\<lambda>i c. on_sys (st_AddChannel st i c)),
     st_Cursor = (\<lambda>i c. on_sys (st_Cursor st i c)),
     st_SetCursor = (\<lambda>i c v. on_sys (st_SetCursor st i c v)),
     st_BumpActivity = (\<lambda>i. on_sys (st_BumpActivity st i)),
     st_Activity = (\<lambda>i. on_sys (st_Activity st i)),
     st_Tier = (\<lambda>i. on_sys (st_Tier st i)),
     st_SetTier = (\<lambda>i t. on_sys (st_SetTier st i t))\<rparr>"

definition engine_poller :: "'w Engine \<Rightarrow> 'w sys Poller" where
  "engine_poller E = New_Poller (\<lambda>tok ch cl cu n. on_sys (l_ListSince (e_lister E) tok ch cl cu n))
     (sys_store (e_store E)) (Some (onPollMessage E)) (\<lambda>rps. on_sys (e_limiter E rps))
     (PollRPS (cfg E)) (PollWorkers (cfg E)) (PollPageLimit (cfg E))"

text \<open>The job of a started poll; \<open>Poll\<close> passes no \<open>done\<close>.\<close>

definition poll_job :: "'w Engine \<Rightarrow> BotRef \<Rightarrow> string \<Rightarrow> 'w sys \<Rightarrow> 'w sys" where
  "poll_job E b token s = fst (run_job (engine_poller E) b token None 1 s)"

section \<open>The rest of a hot socket's goroutines\<close>

definition fail_job :: "BotRef \<Rightarrow> 'w sys \<Rightarrow> 'w sys" where
  "fail_job b s = (case s of (m, x) \<Rightarrow> (ForceTier (KeyID b) Warm m, x))"

definition rearm_job :: "'w Engine \<Rightarrow> BotRef \<Rightarrow> 'w sys \<Rightarrow> 'w sys" where
  "rearm_job E b s = (case s of (m, x) \<Rightarrow>
     engine_Touch E (KeyID b) (ForceTier (KeyID b) Warm m, dropSession (KeyID b) x))"

text \<open>What a goroutine does when it next runs.\<close>

definition run_next :: "'w Engine \<Rightarrow> job \<Rightarrow> 'w sys \<Rightarrow> 'w sys" where
  "run_next E j s = (case s of (m, x) \<Rightarrow>
     (case j of
        OpenJob b \<Rightarrow> (m, open_dial E b x)
      | RegisterJob b p \<Rightarrow> (m, open_register b p x)
      | FailJob b \<Rightarrow> fail_job b (m, x)
      | ClosedJob b \<Rightarrow> (m, onClose b x)
      | RearmJob b \<Rightarrow> rearm_job E b (m, x)
      | ShutJob p \<Rightarrow> (m, CloseHot_shut p x)
      | PollJob b token \<Rightarrow> poll_job E b token (m, x)))"

section \<open>The consumer's operations\<close>

definition New_Engine :: "EngineConfig \<Rightarrow> wire_lib \<Rightarrow> (duration \<Rightarrow> int \<Rightarrow> 'w Store) \<Rightarrow> 'w Lister \<Rightarrow>
    (BotRef \<Rightarrow> Message \<Rightarrow> 'w \<Rightarrow> 'w) option \<Rightarrow> (int \<Rightarrow> 'w \<Rightarrow> 'w \<times> bool) \<Rightarrow>
    (string \<Rightarrow> 'w \<Rightarrow> 'w \<times> (string + websocket)) \<Rightarrow> ('w \<Rightarrow> 'w \<times> go_time) \<Rightarrow> (real \<Rightarrow> real) \<Rightarrow>
    (Manager \<Rightarrow> 'w \<Rightarrow> 'w \<times> orders \<times> nat \<times> go_time) \<Rightarrow> 'w \<Rightarrow> 'w Engine \<times> 'w sys" where
  "New_Engine c w mk ls onMsg mkLim dialler clock rnd sample w0 =
     (\<lparr>cfg = c, e_wire = w, e_store = mk (StateTTL c) (DedupCap c), e_lister = ls, e_onMessage = onMsg,
       e_limiter = mkLim, e_dial = dialler, e_now = clock, e_rnd = rnd, e_sample = sample\<rparr>,
      (New_Manager (ec_Tier c),
       \<lparr>x_w = w0, noChannels = Map.empty, hot = Map.empty, x_opening = Map.empty, sessions = Map.empty,
        pw = NewPingWheel (PingInterval c), conns = Map.empty, owner = Map.empty, reading = {}, x_next = 0,
        jobs = [], x_out = []\<rparr>))"

definition Register :: "go_time \<Rightarrow> go_time \<Rightarrow> BotRef \<Rightarrow> 'w sys \<Rightarrow> 'w sys" where
  "Register now1 now2 b s = (case s of (m, x) \<Rightarrow> (Add now1 now2 b m, x))"

definition engine_AddChannel :: "'w Engine \<Rightarrow> string \<Rightarrow> string \<Rightarrow> 'w sys \<Rightarrow> 'w sys \<times> store_err option" where
  "engine_AddChannel E k ch s = on_sys (st_AddChannel (e_store E) k ch) s"

definition Deregister :: "'w Engine \<Rightarrow> string \<Rightarrow> 'w sys \<Rightarrow> 'w sys" where
  "Deregister E k s = (case Remove (engine_act E) k s of (m, x) \<Rightarrow> (m, CloseHot k x))"

text \<open>\<open>Run\<close> starts the wheel and runs the manager's loop; the ticks of each, with what they read.\<close>

definition engine_Run :: "'w Engine \<Rightarrow> (go_time \<times> nat \<times> orders) list \<Rightarrow> 'w sys \<Rightarrow> 'w sys" where
  "engine_Run E ticks s = Run (e_rnd E) (engine_act E) ticks s"

definition wheel_job :: "'w Engine \<Rightarrow> nat list \<Rightarrow> 'w EState \<Rightarrow> 'w EState" where
  "wheel_job E ks x = (case wheel_tick (e_wire E) ks (pw x, conns x) of (wh, h) \<Rightarrow> x\<lparr>pw := wh, conns := h\<rparr>)"

subsection \<open>Synchronising clans\<close>

datatype sync_err = NoDirectory | NoSession string | ListFailed rest_err

text \<open>One clan of the loop: whether to list channels, the snapshots so far.\<close>

definition forbidden :: "rest_err \<Rightarrow> bool" where
  "forbidden e = (case e of HTTPError st _ \<Rightarrow> st = 403 | _ \<Rightarrow> False)"

definition sync_clan :: "'w Engine \<Rightarrow> 'w ClanDirectory \<Rightarrow> cachedSession \<Rightarrow> string \<Rightarrow>
    'w EState \<times> bool \<times> ClanSnapshot list \<Rightarrow> Clan \<Rightarrow> 'w EState \<times> bool \<times> ClanSnapshot list" where
  "sync_clan E dir s k st cl = (case st of (x, listing, out) \<Rightarrow>
     (let snap = \<lparr>snap_ID = clan_ID cl, snap_Name = clan_Name cl, snap_Channels = [], ChannelsKnown = False\<rparr> in
      if \<not> listing then (x, False, out @ [snap])
      else (case on_w (dir_ListChannels dir (cs_apiURL s) (cs_token s) (clan_ID cl)) x of
          (x, Inr chans) \<Rightarrow> (x, True, out @ [snap\<lparr>snap_Channels := chans, ChannelsKnown := True\<rparr>])
        | (x, Inl e) \<Rightarrow>
            if forbidden e
            then (case on_w (e_now E) x of (x, t) \<Rightarrow>
              (x\<lparr>noChannels := (noChannels x)(k \<mapsto> t)\<rparr>, False, out @ [snap]))
            else (x, True, out @ [snap]))))"

definition may_list_channels :: "'w Engine \<Rightarrow> string \<Rightarrow> 'w EState \<Rightarrow> 'w EState \<times> bool" where
  "may_list_channels E k x = (case noChannels x k of
       None \<Rightarrow> (x, True)
     | Some t0 \<Rightarrow> (case on_w (e_now E) x of (x, t) \<Rightarrow> (x, time_Sub t t0 > channelsBackoff)))"

text \<open>\<open>known\<close> is read before the loop, so an id twice in \<open>clans\<close> is appended twice.\<close>

definition remember_clans :: "string \<Rightarrow> Clan list \<Rightarrow> 'w EState \<Rightarrow> 'w EState" where
  "remember_clans k clans x = (case sessions x k of
       None \<Rightarrow> x
     | Some cur \<Rightarrow> x\<lparr>sessions := (sessions x)(k \<mapsto> cur\<lparr>cs_clanIDs :=
         cs_clanIDs cur @ filter (\<lambda>i. i \<notin> set (cs_clanIDs cur)) (map clan_ID clans)\<rparr>)\<rparr>)"

definition join_live :: "'w Engine \<Rightarrow> string \<Rightarrow> Clan list \<Rightarrow> 'w EState \<Rightarrow> 'w EState" where
  "join_live E k clans x = (case live_conn x k of
       None \<Rightarrow> x
     | Some (p, c) \<Rightarrow> put_conn p (foldl (\<lambda>c cl. if HasJoined (clan_ID cl) c then c
         else fst (JoinClan (e_wire E) (clan_ID cl) c)) c clans) x)"

definition SyncClans :: "'w Engine \<Rightarrow> BotRef \<Rightarrow> 'w EState \<Rightarrow> 'w EState \<times> (sync_err + ClanSnapshot list)" where
  "SyncClans E b x =
     (case (l_ClanDirectory (e_lister E), auth E) of
        (Some dir, Some _) \<Rightarrow>
          (case session E b x of (x, _) \<Rightarrow>
          (case sessions x (KeyID b) of
             None \<Rightarrow> (x, Inl (NoSession (BotUserID b)))
           | Some s \<Rightarrow>
          (if cs_apiURL s = '''' then (x, Inl (NoSession (BotUserID b)))
           else (case on_w (dir_ListClans dir (cs_apiURL s) (cs_token s)) x of
             (x, Inl e) \<Rightarrow> (x, Inl (ListFailed e))
           | (x, Inr clans) \<Rightarrow>
          (case may_list_channels E (KeyID b) x of (x, listing) \<Rightarrow>
          (case foldl (sync_clan E dir s (KeyID b)) (x, listing, []) clans of (x, _, out) \<Rightarrow>
             (join_live E (KeyID b) clans (remember_clans (KeyID b) clans x), Inr out)))))))
      | _ \<Rightarrow> (x, Inl NoDirectory))"

subsection \<open>Sending\<close>

definition reply_ref :: "Message \<Rightarrow> bool \<Rightarrow> Ref option" where
  "reply_ref msg asReply =
     (if asReply \<and> \<not> IsDM msg
      then (let username = ClanNick msg;
                username = (if username = '''' then DisplayName msg else username);
                username = (if username = '''' then Username msg else username)
            in Some \<lparr>RefMessageID = MessageID msg, ref_SenderID = SenderID msg,
                 SenderUsername = username, SenderAvatar = Avatar msg, ref_Content = Content msg\<rparr>)
      else None)"

text \<open>\<open>withConn\<close>, also the shape of the senders that spell it out: the live socket, or one dialled
  for the call and closed after it.  \<open>None\<close> is a panic of the call.\<close>

definition withConn :: "'w Engine \<Rightarrow> BotRef \<Rightarrow> (Conn \<Rightarrow> (Conn \<times> (conn_err + 'a)) option) \<Rightarrow> 'w EState \<Rightarrow>
    ('w EState \<times> (conn_err + 'a)) option" where
  "withConn E b f x = (case live_conn x (KeyID b) of
       Some (p, c) \<Rightarrow> (case f c of None \<Rightarrow> None | Some (c', r) \<Rightarrow> Some (put_conn p c' x, r))
     | None \<Rightarrow>
         (case dial_bot E b x of
            (x, Inl e) \<Rightarrow> Some (x, Inl e)
          | (x, Inr p) \<Rightarrow> (case f (the (conns x p)) of
               None \<Rightarrow> None
             | Some (c', r) \<Rightarrow> Some (close_conn p (put_conn p c' x), r))))"

definition as_result :: "Conn \<times> conn_err option \<Rightarrow> Conn \<times> (conn_err + unit)" where
  "as_result r = (case r of (c, None) \<Rightarrow> (c, Inr ()) | (c, Some e) \<Rightarrow> (c, Inl e))"

definition SendTo :: "'w Engine \<Rightarrow> BotRef \<Rightarrow> string \<Rightarrow> string \<Rightarrow> i32 \<Rightarrow> bool \<Rightarrow> string \<Rightarrow> SendOpts \<Rightarrow>
    'w EState \<Rightarrow> ('w EState \<times> (conn_err + unit)) option" where
  "SendTo E b ch cl mode pub text opts x =
     withConn E b (\<lambda>c. map_option as_result (SendTextOpts (e_wire E) ch cl mode pub text opts c)) x"

definition ref_opts :: "Ref option \<Rightarrow> SendOpts" where
  "ref_opts ref = \<lparr>so_Ref = ref, so_Mentions = [], MentionEveryone = False\<rparr>"

definition Send :: "'w Engine \<Rightarrow> BotRef \<Rightarrow> Message \<Rightarrow> string \<Rightarrow> bool \<Rightarrow> 'w EState \<Rightarrow>
    ('w EState \<times> (conn_err + unit)) option" where
  "Send E b msg text asReply x =
     SendTo E b (ChannelID msg) (ClanID msg) (Mode msg) (IsPublic msg) text (ref_opts (reply_ref msg asReply)) x"

text \<open>The acknowledged sends take the frames the read loop of the connection reads meanwhile.\<close>

definition SendToAck :: "'w Engine \<Rightarrow> BotRef \<Rightarrow> string \<Rightarrow> string \<Rightarrow> i32 \<Rightarrow> bool \<Rightarrow> string \<Rightarrow> SendOpts \<Rightarrow>
    bytes list \<Rightarrow> 'w EState \<Rightarrow> ('w EState \<times> (conn_err + string)) option" where
  "SendToAck E b ch cl mode pub text opts frames x =
     withConn E b (\<lambda>c. SendTextAck (e_wire E) ch cl mode pub text opts frames c) x"

definition SendAck :: "'w Engine \<Rightarrow> BotRef \<Rightarrow> Message \<Rightarrow> string \<Rightarrow> bool \<Rightarrow> bytes list \<Rightarrow> 'w EState \<Rightarrow>
    ('w EState \<times> (conn_err + string)) option" where
  "SendAck E b msg text asReply frames x =
     withConn E b (\<lambda>c. SendTextAck (e_wire E) (ChannelID msg) (ClanID msg) (Mode msg) (IsPublic msg) text
       (ref_opts (reply_ref msg asReply)) frames c) x"

definition UpdateTo :: "'w Engine \<Rightarrow> BotRef \<Rightarrow> string \<Rightarrow> string \<Rightarrow> string \<Rightarrow> i32 \<Rightarrow> bool \<Rightarrow> string \<Rightarrow>
    bytes list \<Rightarrow> 'w EState \<Rightarrow> ('w EState \<times> (conn_err + unit)) option" where
  "UpdateTo E b ch cl mid mode pub text frames x =
     withConn E b (\<lambda>c. map_option as_result (UpdateText (e_wire E) ch cl mid mode pub text frames c)) x"

definition SendTyping :: "'w Engine \<Rightarrow> BotRef \<Rightarrow> Message \<Rightarrow> 'w EState \<Rightarrow> 'w EState" where
  "SendTyping E b msg x = (case live_conn x (KeyID b) of
       None \<Rightarrow> x
     | Some (p, c) \<Rightarrow>
         (let (suser, sdisp) = (case sessions x (KeyID b) of
                None \<Rightarrow> ('''', '''') | Some s \<Rightarrow> (cs_username s, cs_displayName s));
              username = (if BotUsername b = '''' then suser else BotUsername b);
              displayName = (if BotDisplayName b = '''' then sdisp else BotDisplayName b)
          in put_conn p (fst (conn_SendTyping (e_wire E) (ChannelID msg) (ClanID msg) (BotUserID b)
               username displayName (Mode msg) (IsPublic msg) c)) x))"

definition SendReaction :: "'w Engine \<Rightarrow> BotRef \<Rightarrow> Message \<Rightarrow> string \<Rightarrow> string \<Rightarrow> bool \<Rightarrow> 'w EState \<Rightarrow>
    ('w EState \<times> (conn_err + unit)) option" where
  "SendReaction E b msg emojiID emoji action x =
     withConn E b (\<lambda>c. Some (as_result (conn_SendReaction (e_wire E) (ClanID msg) (ChannelID msg) (MessageID msg)
       emojiID emoji action (Mode msg) (IsPublic msg) c))) x"

definition SendSticker :: "'w Engine \<Rightarrow> BotRef \<Rightarrow> Message \<Rightarrow> string \<Rightarrow> string \<Rightarrow> 'w EState \<Rightarrow>
    ('w EState \<times> (conn_err + unit)) option" where
  "SendSticker E b msg short url x =
     withConn E b (\<lambda>c. Some (as_result (conn_SendSticker (e_wire E) (ChannelID msg) (ClanID msg) (Mode msg)
       (IsPublic msg) short url c))) x"

end
