(* ===== verification/Engine_Steps.thy ===== *)
theory Engine_Steps
  imports Engine_Api
begin

text \<open>
  The sockets of the engine under every interleaving: a step relation over the sections of
  \<open>turbo.go\<close> that run under the mutex, the invariant of its reachable states, and the two facts
  it gives: no live socket is ever lost track of, and every socket that dies is replaced, unless
  it dies before it is registered.
\<close>

section \<open>The steps\<close>

text \<open>What of the state concerns sockets; \<open>same_sockets\<close> steps change only the rest: sessions, the
  world, the messages handed out.\<close>

definition same_sockets :: "'w EState \<Rightarrow> 'w EState \<Rightarrow> bool" where
  "same_sockets x x' \<longleftrightarrow> hot x' = hot x \<and> x_opening x' = x_opening x \<and> pw x' = pw x \<and> conns x' = conns x \<and>
     owner x' = owner x \<and> reading x' = reading x \<and> x_next x' = x_next x \<and> jobs x' = jobs x"

definition x_live :: "'w EState \<Rightarrow> nat \<Rightarrow> bool" where
  "x_live x p = (case conns x p of None \<Rightarrow> False | Some c \<Rightarrow> \<not> c_closed c)"

text \<open>The part of a job that acts on the engine, once it is taken off the list; what it does to
  the manager acts on the sockets through the calls of the actuator, which are steps too.\<close>

fun job_effect :: "'w Engine \<Rightarrow> job \<Rightarrow> 'w EState \<Rightarrow> 'w EState" where
  "job_effect E (OpenJob b) x = open_dial E b x"
| "job_effect E (RegisterJob b p) x = open_register b p x"
| "job_effect E (FailJob b) x = x"
| "job_effect E (ClosedJob b) x = onClose b x"
| "job_effect E (RearmJob b) x = dropSession (KeyID b) x"
| "job_effect E (ShutJob p) x = CloseHot_shut p x"
| "job_effect E (PollJob b token) x = x"

definition drop_job :: "job \<Rightarrow> 'w EState \<Rightarrow> 'w EState" where
  "drop_job j x = x\<lparr>jobs := remove1 j (jobs x)\<rparr>"

text \<open>\<open>timely\<close> says of a run that no socket dies between its dial and its registration.\<close>

inductive eng_step :: "'w Engine \<Rightarrow> bool \<Rightarrow> 'w EState \<Rightarrow> 'w EState \<Rightarrow> bool" for E timely where
  eng_open: "eng_step E timely x (OpenHot b x)"
| eng_take: "CloseHot_take k x = (x', r) \<Longrightarrow>
    eng_step E timely x (case r of None \<Rightarrow> x' | Some p \<Rightarrow> x'\<lparr>jobs := jobs x' @ [ShutJob p]\<rparr>)"
| eng_poll: "eng_step E timely x (Poll E b x)"
| eng_job: "j \<in> set (jobs x) \<Longrightarrow> (timely \<Longrightarrow> (case j of RegisterJob b p \<Rightarrow> x_live x p | _ \<Rightarrow> True)) \<Longrightarrow>
    eng_step E timely x (job_effect E j (drop_job j x))"
| eng_lost: "p \<in> reading x \<Longrightarrow> eng_step E timely x (conn_lost p x)"
| eng_conn: "conns x p = Some c \<Longrightarrow> c_closed c' = c_closed c \<Longrightarrow> eng_step E timely x (put_conn p c' x)"
| eng_tick: "range_order (w_conns (pw x)) ks \<Longrightarrow> eng_step E timely x (wheel_job E ks x)"
| eng_transient: "dial_bot E b x = (x', Inr p) \<Longrightarrow> eng_step E timely x (close_conn p x')"
| eng_other: "same_sockets x x' \<Longrightarrow> eng_step E timely x x'"

inductive eng_run :: "'w Engine \<Rightarrow> bool \<Rightarrow> 'w EState \<Rightarrow> 'w EState \<Rightarrow> bool" for E timely where
  eng_start: "eng_run E timely x x"
| eng_next: "eng_run E timely x x' \<Longrightarrow> eng_step E timely x' x'' \<Longrightarrow> eng_run E timely x x''"

text \<open>The state \<open>New\<close> leaves.\<close>

definition no_sockets :: "'w EState \<Rightarrow> bool" where
  "no_sockets x \<longleftrightarrow> hot x = Map.empty \<and> x_opening x = Map.empty \<and> w_conns (pw x) = Map.empty \<and>
     conns x = Map.empty \<and> owner x = Map.empty \<and> reading x = {} \<and> x_next x = 0 \<and> jobs x = []"

lemma New_Engine_no_sockets: "no_sockets (snd (snd (New_Engine c w mk ls onMsg mkLim dialler clock rnd sample w0)))"
  by (simp add: New_Engine_def no_sockets_def NewPingWheel_def)

section \<open>The effect of each operation on the sockets\<close>

named_theorems eng_simps \<open>what an operation does to the fields that concern sockets\<close>

lemma same_sockets_refl [simp]: "same_sockets x x"
  by (simp add: same_sockets_def)

lemma same_sockets_trans: "same_sockets x y \<Longrightarrow> same_sockets y z \<Longrightarrow> same_sockets x z"
  by (simp add: same_sockets_def)

lemma on_w_same: "on_w f x = (x', r) \<Longrightarrow> same_sockets x x'"
  by (auto simp: on_w_def same_sockets_def split: prod.splits)

lemma fresh_session_same: "fresh_session E k x = (x', r) \<Longrightarrow> same_sockets x x'"
  by (auto simp: fresh_session_def split: option.splits prod.splits dest: on_w_same)

lemma session_clans_same: "session_clans E s x = (x', r) \<Longrightarrow> same_sockets x x'"
  by (auto simp: session_clans_def split: option.splits prod.splits sum.splits dest: on_w_same)

lemma session_names_same: "session_names E s x = (x', r) \<Longrightarrow> same_sockets x x'"
  by (auto simp: session_names_def split: option.splits prod.splits sum.splits dest: on_w_same)

lemma session_same:
  assumes "session E b x = (x', r)"
  shows "same_sockets x x'"
proof (cases "auth E")
  case None
  then show ?thesis using assms by (simp add: session_def)
next
  case (Some authenticate)
  obtain x1 c where f: "fresh_session E (KeyID b) x = (x1, c)" by (rule prod.exhaust)
  have s1: "same_sockets x x1" by (rule fresh_session_same [OF f])
  show ?thesis
  proof (cases c)
    case (Some s)
    then show ?thesis using assms s1 \<open>auth E = Some authenticate\<close> f by (simp add: session_def)
  next
    case None
    obtain x2 a where a: "on_w (authenticate (BotUserID b) (BotToken b)) x1 = (x2, a)" by (rule prod.exhaust)
    have s2: "same_sockets x x2" by (rule same_sockets_trans [OF s1 on_w_same [OF a]])
    show ?thesis
    proof (cases a)
      case (Inl e)
      then show ?thesis using assms s2 \<open>auth E = Some authenticate\<close> f None a by (simp add: session_def)
    next
      case (Inr sess)
      obtain x3 ids where c3: "session_clans E sess x2 = (x3, ids)" by (rule prod.exhaust)
      obtain x4 t where c4: "on_w (e_now E) x3 = (x4, t)" by (rule prod.exhaust)
      obtain x5 u d where c5: "session_names E sess x4 = (x5, u, d)" by (metis prod.exhaust)
      have "same_sockets x x5"
        using s2 session_clans_same [OF c3] on_w_same [OF c4] session_names_same [OF c5] same_sockets_trans by blast
      then show ?thesis using assms \<open>auth E = Some authenticate\<close> f None a Inr c3 c4 c5
        by (auto simp: session_def same_sockets_def Let_def)
    qed
  qed
qed

lemma JoinClan_closed: "c_closed (fst (JoinClan w i c)) = c_closed c"
  using send_frame(5) [of "BuildClanJoinEnvelope w i" c]
  by (auto simp: JoinClan_def split: prod.splits option.splits)

lemma join_all_closed: "c_closed (join_all w ids c) = c_closed c"
  unfolding join_all_def by (induction ids arbitrary: c) (simp_all add: JoinClan_closed)

lemma Dial_open: "Dial w d host ssl tok b ids = Inr c \<Longrightarrow> \<not> c_closed c"
  by (auto simp: Dial_def join_all_closed new_conn_def split: sum.splits)

lemma dial_bot_effect:
  assumes "dial_bot E b x = (x', r)"
  shows "\<exists>x1 c. same_sockets x x1 \<and> \<not> c_closed c \<and>
    (case r of Inl e \<Rightarrow> x' = x1
     | Inr p \<Rightarrow> p = x_next x1 \<and> x' = (put_conn p c x1)\<lparr>x_next := Suc p\<rparr>)"
proof -
  obtain x1 tok host ids where s: "session E b x = (x1, tok, host, ids)" by (metis prod.exhaust)
  obtain x2 d where o: "on_w (e_dial E (endpoint host (WSSSL (cfg E)) tok)) x1 = (x2, d)" by (rule prod.exhaust)
  have same: "same_sockets x x2" using same_sockets_trans [OF session_same [OF s] on_w_same [OF o]] .
  have op: "\<not> c_closed (new_conn ex_ws '''')" by (simp add: new_conn_def)
  show ?thesis
  proof (cases "Dial (e_wire E) (\<lambda>_. d) host (WSSSL (cfg E)) tok (BotUserID b) ids")
    case (Inl e)
    then show ?thesis using assms s o same op by (auto simp: dial_bot_def)
  next
    case (Inr c)
    then show ?thesis using assms s o same Dial_open [OF Inr]
      by (intro exI [of _ x2] exI [of _ c]) (auto simp: dial_bot_def)
  qed
qed

lemma live_put [eng_simps]: "x_live (put_conn p c x) q = (if q = p then \<not> c_closed c else x_live x q)"
  by (simp add: x_live_def put_conn_def)

lemma live_close [eng_simps]: "x_live (close_conn p x) q = (q \<noteq> p \<and> x_live x q)"
  by (auto simp: close_conn_def x_live_def put_conn_def Close_def split: option.splits)

lemma put_fields [eng_simps]:
  "hot (put_conn p c x) = hot x" "x_opening (put_conn p c x) = x_opening x" "pw (put_conn p c x) = pw x"
  "owner (put_conn p c x) = owner x" "reading (put_conn p c x) = reading x" "x_next (put_conn p c x) = x_next x"
  "jobs (put_conn p c x) = jobs x" "dom (conns (put_conn p c x)) = insert p (dom (conns x))"
  by (simp_all add: put_conn_def)

lemma close_fields [eng_simps]:
  "hot (close_conn p x) = hot x" "x_opening (close_conn p x) = x_opening x" "pw (close_conn p x) = pw x"
  "owner (close_conn p x) = owner x" "reading (close_conn p x) = reading x" "x_next (close_conn p x) = x_next x"
  "jobs (close_conn p x) = jobs x" "dom (conns (close_conn p x)) = dom (conns x)"
  by (auto simp: close_conn_def put_conn_def split: option.splits)

lemma live_upd [eng_simps]:
  "x_live (x\<lparr>hot := a\<rparr>) = x_live x" "x_live (x\<lparr>x_opening := b\<rparr>) = x_live x" "x_live (x\<lparr>pw := c\<rparr>) = x_live x"
  "x_live (x\<lparr>owner := d\<rparr>) = x_live x" "x_live (x\<lparr>reading := e\<rparr>) = x_live x" "x_live (x\<lparr>x_next := f\<rparr>) = x_live x"
  "x_live (x\<lparr>jobs := g\<rparr>) = x_live x" "x_live (x\<lparr>sessions := h\<rparr>) = x_live x"
  by (simp_all add: x_live_def fun_eq_iff)

lemma live_conn_None: "live_conn x k = None \<longleftrightarrow> (\<forall>p. hot x k = Some p \<longrightarrow> \<not> x_live x p)"
  by (auto simp: live_conn_def x_live_def conn_Closed_def split: option.splits)

section \<open>The invariant\<close>

text \<open>The sockets a goroutine holds: dialled and not yet registered, or taken out to be closed.\<close>

fun held1 :: "job \<Rightarrow> nat list" where
  "held1 (RegisterJob b p) = [p]"
| "held1 (ShutJob p) = [p]"
| "held1 _ = []"

definition held :: "job list \<Rightarrow> nat list" where
  "held js = concat (map held1 js)"

text \<open>A goroutine that will settle the claim of a bot in \<open>opening\<close>.\<close>

fun claims :: "string \<Rightarrow> job \<Rightarrow> bool" where
  "claims k (OpenJob b) = (KeyID b = k)"
| "claims k (RegisterJob b p) = (KeyID b = k)"
| "claims k _ = False"

lemma held_simps [simp]:
  "held [] = []" "held (j # js) = held1 j @ held js" "held (xs @ ys) = held xs @ held ys"
  by (simp_all add: held_def)

lemma held_remove1:
  assumes "j \<in> set js" "distinct (held js)"
  shows "set (held (remove1 j js)) = set (held js) - set (held1 j) \<and> distinct (held (remove1 j js))"
  using assms
proof (induction js)
  case (Cons i js)
  show ?case
  proof (cases "i = j")
    case True
    then show ?thesis using Cons.prems by auto
  next
    case False
    then have "j \<in> set js" using Cons.prems by simp
    moreover from this have "set (held1 j) \<subseteq> set (held js)" by (auto simp: held_def)
    ultimately show ?thesis using Cons False by auto
  qed
qed simp

lemma set_remove1_other: "i \<noteq> j \<Longrightarrow> i \<in> set (remove1 j js) \<longleftrightarrow> i \<in> set js"
  by (induction js) auto

definition hot_ok :: "'w EState \<Rightarrow> bool" where
  "hot_ok x \<longleftrightarrow> (\<forall>k p. hot x k = Some p \<longrightarrow> p < x_next x \<and> p \<notin> set (held (jobs x)) \<and>
     (\<exists>b. owner x p = Some b \<and> KeyID b = k) \<and> (x_live x p \<longrightarrow> p \<in> dom (w_conns (pw x))))"

definition addr_ok :: "'w EState \<Rightarrow> bool" where
  "addr_ok x \<longleftrightarrow> dom (conns x) = {..<x_next x} \<and> dom (owner x) \<subseteq> {..<x_next x} \<and>
     set (held (jobs x)) \<subseteq> dom (owner x) \<and> distinct (held (jobs x)) \<and> reading x \<subseteq> dom (owner x) \<and>
     (\<forall>p \<in> dom (owner x). x_live x p \<longrightarrow> p \<in> reading x)"

definition jobs_ok :: "'w EState \<Rightarrow> bool" where
  "jobs_ok x \<longleftrightarrow> (\<forall>b p. RegisterJob b p \<in> set (jobs x) \<longrightarrow> owner x p = Some b) \<and>
     (\<forall>k. x_opening x k \<noteq> None \<longrightarrow> (\<exists>j \<in> set (jobs x). claims k j)) \<and>
     (\<forall>p. x_live x p \<longrightarrow> (\<exists>k. hot x k = Some p) \<or> p \<in> set (held (jobs x)))"

definition dead_ok :: "'w EState \<Rightarrow> bool" where
  "dead_ok x \<longleftrightarrow> (\<forall>k p. hot x k = Some p \<and> \<not> x_live x p \<longrightarrow> (\<exists>b. KeyID b = k \<and> ClosedJob b \<in> set (jobs x)))"

definition eng_inv :: "bool \<Rightarrow> 'w EState \<Rightarrow> bool" where
  "eng_inv timely x \<longleftrightarrow> hot_ok x \<and> addr_ok x \<and> jobs_ok x \<and> (timely \<longrightarrow> dead_ok x)"

lemmas inv_defs = eng_inv_def hot_ok_def addr_ok_def jobs_ok_def dead_ok_def

lemma inv_same:
  assumes "same_sockets x x'"
  shows "eng_inv timely x' = eng_inv timely x" "live_conn x' = live_conn x" "x_live x' = x_live x"
proof -
  show l: "x_live x' = x_live x" using assms by (simp add: same_sockets_def x_live_def fun_eq_iff)
  show "live_conn x' = live_conn x" using assms by (intro ext) (simp add: same_sockets_def live_conn_def cong: option.case_cong)
  show "eng_inv timely x' = eng_inv timely x" using assms unfolding inv_defs l same_sockets_def by simp
qed

lemma inv_no_sockets: "no_sockets x \<Longrightarrow> eng_inv timely x"
  by (auto simp: no_sockets_def inv_defs x_live_def)

text \<open>A call of the actuator.\<close>

lemma eng_invD:
  assumes "eng_inv timely x"
  shows "hot_ok x" "addr_ok x" "jobs_ok x" "timely \<Longrightarrow> dead_ok x"
  using assms by (simp_all add: eng_inv_def)

lemma eng_invI:
  "hot_ok x \<Longrightarrow> addr_ok x \<Longrightarrow> jobs_ok x \<Longrightarrow> (timely \<Longrightarrow> dead_ok x) \<Longrightarrow> eng_inv timely x"
  by (simp add: eng_inv_def)

text \<open>No socket is registered for two bots.\<close>

lemma hot_inj:
  assumes "hot_ok x" "hot x k = Some p" "hot x k' = Some p"
  shows "k = k'"
proof -
  obtain b where "owner x p = Some b" "KeyID b = k" using assms(1,2) unfolding hot_ok_def by blast
  moreover obtain b' where "owner x p = Some b'" "KeyID b' = k'" using assms(1,3) unfolding hot_ok_def by blast
  ultimately show ?thesis by simp
qed

text \<open>A job that holds no socket may be added.\<close>

lemma inv_add_job:
  assumes "eng_inv timely x" "held1 j = []"
  shows "eng_inv timely (x\<lparr>jobs := jobs x @ [j]\<rparr>)"
proof (rule eng_invI)
  have j: "\<And>b p. j \<noteq> RegisterJob b p" using assms(2) by auto
  show "hot_ok (x\<lparr>jobs := jobs x @ [j]\<rparr>)" using eng_invD(1) [OF assms(1)] assms(2) by (simp add: hot_ok_def eng_simps)
  show "addr_ok (x\<lparr>jobs := jobs x @ [j]\<rparr>)" using eng_invD(2) [OF assms(1)] assms(2) by (simp add: addr_ok_def eng_simps)
  show "jobs_ok (x\<lparr>jobs := jobs x @ [j]\<rparr>)"
    using eng_invD(3) [OF assms(1)] assms(2) j by (auto simp: jobs_ok_def eng_simps)
  show "dead_ok (x\<lparr>jobs := jobs x @ [j]\<rparr>)" if timely
    using eng_invD(4) [OF assms(1) that] by (auto simp: dead_ok_def eng_simps)
qed

text \<open>A claim may be dropped, or made for a bot some goroutine will settle.\<close>

lemma inv_opening:
  assumes "eng_inv timely x" "\<And>k. m k \<noteq> None \<Longrightarrow> x_opening x k \<noteq> None \<or> (\<exists>j \<in> set (jobs x). claims k j)"
  shows "eng_inv timely (x\<lparr>x_opening := m\<rparr>)"
proof (rule eng_invI)
  show "hot_ok (x\<lparr>x_opening := m\<rparr>)" using eng_invD(1) [OF assms(1)] by (simp add: hot_ok_def eng_simps)
  show "addr_ok (x\<lparr>x_opening := m\<rparr>)" using eng_invD(2) [OF assms(1)] by (simp add: addr_ok_def eng_simps)
  show "jobs_ok (x\<lparr>x_opening := m\<rparr>)"
    using eng_invD(3) [OF assms(1)] assms(2) unfolding jobs_ok_def eng_simps by simp blast
  show "dead_ok (x\<lparr>x_opening := m\<rparr>)" if timely
    using eng_invD(4) [OF assms(1) that] by (simp add: dead_ok_def eng_simps)
qed

lemma inv_OpenHot:
  assumes "eng_inv timely x"
  shows "eng_inv timely (OpenHot b x)"
proof -
  let ?y = "x\<lparr>jobs := jobs x @ [OpenJob b]\<rparr>"
  have "eng_inv timely (?y\<lparr>x_opening := (x_opening x)(KeyID b \<mapsto> ())\<rparr>)"
    by (rule inv_opening [OF inv_add_job [OF assms]]) (auto split: if_splits)
  also have "?y\<lparr>x_opening := (x_opening x)(KeyID b \<mapsto> ())\<rparr> =
      x\<lparr>x_opening := (x_opening x)(KeyID b \<mapsto> ()), jobs := jobs x @ [OpenJob b]\<rparr>"
    by (rule EState.equality) simp_all
  finally show ?thesis using assms by (simp add: OpenHot_def)
qed

lemma inv_take:
  assumes inv: "eng_inv timely x" and t: "CloseHot_take k x = (x', r)"
  shows "eng_inv timely (case r of None \<Rightarrow> x' | Some p \<Rightarrow> x'\<lparr>jobs := jobs x' @ [ShutJob p]\<rparr>)"
proof -
  have y: "eng_inv timely (x\<lparr>x_opening := (x_opening x)(k := None)\<rparr>)"
    by (rule inv_opening [OF inv]) (auto split: if_splits)
  show ?thesis
  proof (cases "hot x k")
    case None
    then have "(hot x)(k := None) = hot x" by auto
    then show ?thesis using t None y by (auto simp: CloseHot_take_def)
  next
    case (Some p)
    let ?z = "x\<lparr>hot := (hot x)(k := None), x_opening := (x_opening x)(k := None), jobs := jobs x @ [ShutJob p]\<rparr>"
    have z: "(case r of None \<Rightarrow> x' | Some p \<Rightarrow> x'\<lparr>jobs := jobs x' @ [ShutJob p]\<rparr>) = ?z"
      using t by (simp add: CloseHot_take_def Some) auto
    note h = eng_invD [OF inv]
    have p: "p < x_next x" "p \<notin> set (held (jobs x))" "p \<in> dom (owner x)"
      using h(1) Some by (auto simp: hot_ok_def)
    have u: "k' = k" if "hot x k' = Some p" for k' by (rule hot_inj [OF h(1) that Some])
    show ?thesis unfolding z
    proof (rule eng_invI)
      show "hot_ok ?z" using h(1) u by (auto simp: hot_ok_def eng_simps)
      show "addr_ok ?z" using h(2) p(2,3) by (simp add: addr_ok_def eng_simps)
      have "(\<exists>k'. ((hot x)(k := None)) k' = Some q) \<or> q \<in> set (held (jobs x @ [ShutJob p]))" if "x_live x q" for q
      proof -
        from h(3) that consider k' where "hot x k' = Some q" | "q \<in> set (held (jobs x))" by (auto simp: jobs_ok_def)
        then show ?thesis
        proof cases
          case 1
          then show ?thesis using Some by (cases "k' = k") auto
        qed simp
      qed
      then show "jobs_ok ?z" using h(3) by (auto simp: jobs_ok_def eng_simps)
      show "dead_ok ?z" if timely using h(4) [OF that] by (simp add: dead_ok_def eng_simps)
    qed
  qed
qed

lemma inv_Poll:
  assumes "eng_inv timely x"
  shows "eng_inv timely (Poll E b x)"
proof -
  obtain x1 tok r where s: "session E b x = (x1, tok, r)" by (metis prod.exhaust)
  have "eng_inv timely x1" using inv_same [OF session_same [OF s]] assms by simp
  then show ?thesis using inv_add_job [of timely x1 "PollJob b tok"] by (cases r) (simp add: Poll_def s)
qed

text \<open>Sockets that die, change or are pinged.\<close>

lemma inv_lost:
  assumes "eng_inv timely x" "p \<in> reading x"
  shows "eng_inv timely (conn_lost p x)"
proof -
  obtain b where b: "owner x p = Some b" using assms by (auto simp: inv_defs)
  then have "p \<in> dom (conns x)" using assms(1) by (auto simp: inv_defs)
  then obtain c where c: "conns x p = Some c" by blast
  let ?y = "(put_conn p (c\<lparr>c_closed := True\<rparr>) x)\<lparr>reading := reading x - {p}, jobs := jobs x @ [ClosedJob b]\<rparr>"
  have y: "conn_lost p x = ?y" by (simp add: conn_lost_def b c)
  note h = eng_invD [OF assms(1)]
  have p: "p < x_next x" using h(2) c unfolding addr_ok_def by blast
  show ?thesis unfolding y
  proof (rule eng_invI)
    show "hot_ok ?y" using h(1) by (auto simp: hot_ok_def eng_simps)
    show "addr_ok ?y" using h(2) p by (auto simp: addr_ok_def eng_simps)
    show "jobs_ok ?y" using h(3) by (auto simp: jobs_ok_def eng_simps)
    show "dead_ok ?y" if timely
      using h(4) [OF that] h(1) b by (fastforce simp: dead_ok_def hot_ok_def eng_simps)
  qed
qed

lemma inv_conn:
  assumes "eng_inv timely x" "conns x p = Some c" "c_closed c' = c_closed c"
  shows "eng_inv timely (put_conn p c' x)"
proof -
  have l: "x_live (put_conn p c' x) = x_live x" using assms(2,3) by (auto simp: x_live_def put_conn_def fun_eq_iff)
  have d: "insert p (dom (conns x)) = dom (conns x)" using assms(2) by auto
  show ?thesis using assms(1) unfolding inv_defs l put_fields d by simp
qed

lemma inv_tick:
  assumes "eng_inv timely x" "range_order (w_conns (pw x)) ks"
  shows "eng_inv timely (wheel_job E ks x)"
proof -
  let ?m = "\<lambda>p. if p \<in> set ks \<and> (\<exists>c. conns x p = Some c \<and> c_closed c) then None else w_conns (pw x) p"
  let ?h = "\<lambda>p. if p \<in> set ks then map_option (kept_alive (e_wire E)) (conns x p) else conns x p"
  have y: "wheel_job E ks x = x\<lparr>pw := (pw x)\<lparr>w_conns := ?m\<rparr>, conns := ?h\<rparr>"
    using wheel_tick_eq [OF range_order_distinct [OF assms(2)], of "e_wire E" "pw x" "conns x"]
    by (simp add: wheel_job_def)
  have l: "x_live (x\<lparr>pw := a, conns := ?h\<rparr>) = x_live x" for a
    by (auto simp: x_live_def fun_eq_iff split: option.splits)
  have d: "dom ?h = dom (conns x)" by (auto split: if_splits)
  have w: "p \<in> dom ?m" if "x_live x p" "p \<in> dom (w_conns (pw x))" for p
    using that by (auto simp: x_live_def)
  show ?thesis using assms(1) w unfolding y by (simp add: inv_defs l d)
qed

text \<open>Jobs.  Dropping one that holds no socket and settles no claim is harmless.\<close>

lemma held_drop:
  assumes "addr_ok x" "j \<in> set (jobs x)"
  shows "set (held (remove1 j (jobs x))) = set (held (jobs x)) - set (held1 j)"
    "distinct (held (remove1 j (jobs x)))" "set (held1 j) \<subseteq> set (held (jobs x))"
  using held_remove1 [OF assms(2)] assms by (auto simp: addr_ok_def held_def)

lemma drop_fields [eng_simps]:
  "hot (drop_job j x) = hot x" "x_opening (drop_job j x) = x_opening x" "pw (drop_job j x) = pw x"
  "conns (drop_job j x) = conns x" "owner (drop_job j x) = owner x" "reading (drop_job j x) = reading x"
  "x_next (drop_job j x) = x_next x" "jobs (drop_job j x) = remove1 j (jobs x)"
  "x_live (drop_job j x) = x_live x" "live_conn (drop_job j x) = live_conn x"
  by (simp_all add: drop_job_def x_live_def live_conn_def fun_eq_iff cong: option.case_cong)

text \<open>What dropping \<open>j\<close> leaves, when \<open>j\<close> may have held a socket or settled a claim.\<close>

definition inv_without :: "bool \<Rightarrow> job \<Rightarrow> 'w EState \<Rightarrow> bool" where
  "inv_without timely j x \<longleftrightarrow> hot_ok x \<and> addr_ok x \<and>
     set (held1 j) \<inter> set (held (jobs x)) = {} \<and> set (held1 j) \<subseteq> dom (owner x) \<and>
     (\<forall>p \<in> set (held1 j). \<forall>k. hot x k \<noteq> Some p) \<and>
     (\<forall>b p. RegisterJob b p \<in> set (jobs x) \<longrightarrow> owner x p = Some b) \<and>
     (\<forall>b p. j = RegisterJob b p \<longrightarrow> owner x p = Some b) \<and>
     (\<forall>k. x_opening x k \<noteq> None \<longrightarrow> claims k j \<or> (\<exists>i \<in> set (jobs x). claims k i)) \<and>
     (\<forall>p. x_live x p \<longrightarrow> (\<exists>k. hot x k = Some p) \<or> p \<in> set (held1 j) \<union> set (held (jobs x))) \<and>
     (timely \<longrightarrow> (\<forall>k p. hot x k = Some p \<and> \<not> x_live x p \<longrightarrow>
        (\<exists>b. KeyID b = k \<and> (j = ClosedJob b \<or> ClosedJob b \<in> set (jobs x)))))"

lemma inv_drop:
  assumes inv: "eng_inv timely x" and j: "j \<in> set (jobs x)"
  shows "inv_without timely j (drop_job j x)"
proof -
  note h = eng_invD [OF inv] and d = held_drop [OF eng_invD(2) [OF inv] j]
  have s: "set (remove1 j (jobs x)) \<subseteq> set (jobs x)" by (rule set_remove1_subset)
  have "hot_ok (drop_job j x)" using h(1) by (auto simp: hot_ok_def eng_simps d)
  moreover have "addr_ok (drop_job j x)" using h(2) d by (auto simp: addr_ok_def eng_simps)
  moreover have "set (held1 j) \<inter> set (held (jobs (drop_job j x))) = {}" by (auto simp: eng_simps d)
  moreover have "set (held1 j) \<subseteq> dom (owner (drop_job j x))"
    using h(2) d(3) by (auto simp: addr_ok_def eng_simps)
  moreover have "\<forall>p \<in> set (held1 j). \<forall>k. hot (drop_job j x) k \<noteq> Some p"
    using h(1) d(3) by (auto simp: hot_ok_def eng_simps)
  moreover have "\<forall>b p. RegisterJob b p \<in> set (jobs (drop_job j x)) \<longrightarrow> owner (drop_job j x) p = Some b"
    "\<forall>b p. j = RegisterJob b p \<longrightarrow> owner (drop_job j x) p = Some b"
    using h(3) s j by (auto simp: jobs_ok_def eng_simps)
  moreover have "\<forall>k. x_opening (drop_job j x) k \<noteq> None \<longrightarrow> claims k j \<or> (\<exists>i \<in> set (jobs (drop_job j x)). claims k i)"
    using h(3) unfolding jobs_ok_def eng_simps by (metis set_remove1_other)
  moreover have "\<forall>p. x_live (drop_job j x) p \<longrightarrow> (\<exists>k. hot (drop_job j x) k = Some p) \<or>
      p \<in> set (held1 j) \<union> set (held (jobs (drop_job j x)))"
    using h(3) by (auto simp: jobs_ok_def eng_simps d)
  moreover have "timely \<longrightarrow> (\<forall>k p. hot (drop_job j x) k = Some p \<and> \<not> x_live (drop_job j x) p \<longrightarrow>
      (\<exists>b. KeyID b = k \<and> (j = ClosedJob b \<or> ClosedJob b \<in> set (jobs (drop_job j x)))))"
    using h(4) unfolding dead_ok_def eng_simps by (metis set_remove1_other)
  ultimately show ?thesis by (simp add: inv_without_def)
qed

lemma inv_without_idle:
  assumes "inv_without timely j x" "held1 j = []" "\<And>k. \<not> claims k j" "\<And>b. j \<noteq> ClosedJob b"
  shows "eng_inv timely x"
  using assms by (simp add: inv_without_def eng_inv_def jobs_ok_def dead_ok_def)

lemma inv_without_same:
  assumes "same_sockets x x'"
  shows "inv_without timely j x' = inv_without timely j x"
proof -
  have l: "x_live x' = x_live x" by (rule inv_same(3) [OF assms])
  show ?thesis using assms unfolding inv_without_def hot_ok_def addr_ok_def l same_sockets_def by simp
qed

lemma inv_withoutD:
  assumes "inv_without timely j x"
  shows "hot_ok x" "addr_ok x" "set (held1 j) \<inter> set (held (jobs x)) = {}" "set (held1 j) \<subseteq> dom (owner x)"
    "\<And>p k. p \<in> set (held1 j) \<Longrightarrow> hot x k \<noteq> Some p"
    "\<And>b p. RegisterJob b p \<in> set (jobs x) \<Longrightarrow> owner x p = Some b"
    "\<And>b p. j = RegisterJob b p \<Longrightarrow> owner x p = Some b"
    "\<And>k. x_opening x k \<noteq> None \<Longrightarrow> claims k j \<or> (\<exists>i \<in> set (jobs x). claims k i)"
    "\<And>p. x_live x p \<Longrightarrow> (\<exists>k. hot x k = Some p) \<or> p \<in> set (held1 j) \<union> set (held (jobs x))"
    "\<And>k p. timely \<Longrightarrow> hot x k = Some p \<Longrightarrow> \<not> x_live x p \<Longrightarrow>
        \<exists>b. KeyID b = k \<and> (j = ClosedJob b \<or> ClosedJob b \<in> set (jobs x))"
proof -
  note a1 = assms [unfolded inv_without_def]
  show "hot_ok x" by (rule a1 [THEN conjunct1])
  note a2 = a1 [THEN conjunct2] show "addr_ok x" by (rule a2 [THEN conjunct1])
  note a3 = a2 [THEN conjunct2] show "set (held1 j) \<inter> set (held (jobs x)) = {}" by (rule a3 [THEN conjunct1])
  note a4 = a3 [THEN conjunct2] show "set (held1 j) \<subseteq> dom (owner x)" by (rule a4 [THEN conjunct1])
  note a5 = a4 [THEN conjunct2]
  show "\<And>p k. p \<in> set (held1 j) \<Longrightarrow> hot x k \<noteq> Some p" by (rule a5 [THEN conjunct1, rule_format])
  note a6 = a5 [THEN conjunct2]
  show "\<And>b p. RegisterJob b p \<in> set (jobs x) \<Longrightarrow> owner x p = Some b" by (rule a6 [THEN conjunct1, rule_format])
  note a7 = a6 [THEN conjunct2]
  show "\<And>b p. j = RegisterJob b p \<Longrightarrow> owner x p = Some b" by (rule a7 [THEN conjunct1, rule_format])
  note a8 = a7 [THEN conjunct2]
  show "\<And>k. x_opening x k \<noteq> None \<Longrightarrow> claims k j \<or> (\<exists>i \<in> set (jobs x). claims k i)"
    by (rule a8 [THEN conjunct1, rule_format])
  note a9 = a8 [THEN conjunct2]
  show "\<And>p. x_live x p \<Longrightarrow> (\<exists>k. hot x k = Some p) \<or> p \<in> set (held1 j) \<union> set (held (jobs x))"
    by (rule a9 [THEN conjunct1, rule_format])
  show "\<And>k p. timely \<Longrightarrow> hot x k = Some p \<Longrightarrow> \<not> x_live x p \<Longrightarrow>
      \<exists>b. KeyID b = k \<and> (j = ClosedJob b \<or> ClosedJob b \<in> set (jobs x))"
    by (rule a9 [THEN conjunct2, rule_format, OF _ conjI])
qed

text \<open>Giving up the claim of a dropped job.\<close>

lemma inv_unclaim:
  assumes "inv_without timely j x"
    and "\<And>i. claims i j \<Longrightarrow> i = k"
  shows "inv_without timely j (x\<lparr>x_opening := (x_opening x)(k := None)\<rparr>)"
    and "\<forall>i. (x_opening (x\<lparr>x_opening := (x_opening x)(k := None)\<rparr>)) i \<noteq> None \<longrightarrow>
      (\<exists>a \<in> set (jobs x). claims i a)"
proof -
  note d = inv_withoutD [OF assms(1)]
  show "\<forall>i. (x_opening (x\<lparr>x_opening := (x_opening x)(k := None)\<rparr>)) i \<noteq> None \<longrightarrow> (\<exists>a \<in> set (jobs x). claims i a)"
    using d(8) assms(2) by (auto split: if_splits)
  show "inv_without timely j (x\<lparr>x_opening := (x_opening x)(k := None)\<rparr>)"
    using assms(1) unfolding inv_without_def hot_ok_def addr_ok_def eng_simps by simp
qed

text \<open>Closing the socket a dropped job held.\<close>

lemma inv_close_held:
  assumes inv: "inv_without timely j x" and j: "held1 j = [p]"
    and c: "\<And>k. x_opening x k \<noteq> None \<Longrightarrow> \<exists>i \<in> set (jobs x). claims k i"
  shows "eng_inv timely (close_conn p x)"
proof (rule eng_invI)
  note d = inv_withoutD [OF inv]
  show "hot_ok (close_conn p x)" using d(1) by (auto simp: hot_ok_def eng_simps)
  show "addr_ok (close_conn p x)" using d(2) by (auto simp: addr_ok_def eng_simps)
  show "jobs_ok (close_conn p x)" using d(6,9) c j by (auto simp: jobs_ok_def eng_simps)
  show "dead_ok (close_conn p x)" if timely
    using d(5) d(10) [OF that] j unfolding dead_ok_def eng_simps by (metis held1.simps(5) list.set_intros(1) not_Cons_self2)
qed

lemma inv_dial_fail:
  assumes "inv_without timely (OpenJob b) x"
  shows "eng_inv timely (x\<lparr>x_opening := (x_opening x)(KeyID b := None), jobs := jobs x @ [FailJob b]\<rparr>)"
proof -
  let ?y = "x\<lparr>x_opening := (x_opening x)(KeyID b := None)\<rparr>"
  note u = inv_unclaim [OF assms, where k = "KeyID b"]
  have "eng_inv timely ?y"
    using u inv_withoutD(1,2) [OF u(1)] inv_withoutD(6,9,10) [OF u(1)]
    unfolding eng_inv_def jobs_ok_def dead_ok_def by simp
  from inv_add_job [OF this, of "FailJob b"] show ?thesis by simp
qed

text \<open>A new socket at the next address.\<close>

lemma inv_new_socket:
  assumes inv: "inv_without timely (OpenJob b) x" and c: "\<not> c_closed c"
  defines "p \<equiv> x_next x"
  shows "eng_inv timely ((put_conn p c x)\<lparr>x_next := Suc p, owner := (owner x)(p \<mapsto> b),
    reading := insert p (reading x), jobs := jobs x @ [RegisterJob b p]\<rparr>)"
proof (rule eng_invI)
  note d = inv_withoutD [OF inv]
  let ?y = "(put_conn p c x)\<lparr>x_next := Suc p, owner := (owner x)(p \<mapsto> b),
    reading := insert p (reading x), jobs := jobs x @ [RegisterJob b p]\<rparr>"
  have fresh: "p \<notin> dom (owner x)" "p \<notin> set (held (jobs x))" "\<And>k. hot x k \<noteq> Some p"
    using d(1,2) by (fastforce simp: p_def addr_ok_def hot_ok_def)+
  have h: "q < x_next ?y \<and> q \<notin> set (held (jobs ?y)) \<and> (\<exists>a. owner ?y q = Some a \<and> KeyID a = k) \<and>
      (x_live ?y q \<longrightarrow> q \<in> dom (w_conns (pw ?y)))" if "hot x k = Some q" for k q
    using d(1) that fresh(3) [of k] unfolding hot_ok_def by (auto simp: eng_simps p_def less_SucI)
  show "hot_ok ?y" unfolding hot_ok_def by (intro allI impI; rule h) (simp add: eng_simps)
  show "addr_ok ?y" using d(2) fresh c unfolding addr_ok_def eng_simps
    by (auto simp: p_def lessThan_Suc eng_simps)
  show "jobs_ok ?y" using d(6,8,9) fresh by (auto simp: jobs_ok_def eng_simps)
  show "dead_ok ?y" if timely using d(10) [OF that] fresh by (auto simp: dead_ok_def eng_simps)
qed

lemma inv_open_dial:
  assumes "inv_without timely (OpenJob b) x"
  shows "eng_inv timely (open_dial E b x)"
proof -
  obtain x' r where r: "dial_bot E b x = (x', r)" by (rule prod.exhaust)
  obtain x1 c where e: "same_sockets x x1" "\<not> c_closed c"
    "case r of Inl e \<Rightarrow> x' = x1 | Inr p \<Rightarrow> p = x_next x1 \<and> x' = (put_conn p c x1)\<lparr>x_next := Suc p\<rparr>"
    using dial_bot_effect [OF r] by blast
  have i1: "inv_without timely (OpenJob b) x1" using inv_without_same [OF e(1)] assms by simp
  show ?thesis
  proof (cases r)
    case (Inl err)
    have "same_sockets x1 (dropSession (KeyID b) x1)" by (simp add: dropSession_def same_sockets_def)
    from inv_dial_fail [of timely b "dropSession (KeyID b) x1"] inv_without_same [OF this] i1
    show ?thesis using e(3) Inl by (simp add: open_dial_def r Let_def)
  next
    case (Inr p)
    have "open_dial E b x = (put_conn p c x1)\<lparr>x_next := Suc p, owner := (owner x1)(p \<mapsto> b),
        reading := insert p (reading x1), jobs := jobs x1 @ [RegisterJob b p]\<rparr>"
      using e(3) Inr by (simp add: open_dial_def r eng_simps)
    then show ?thesis using inv_new_socket [OF i1 e(2)] e(3) Inr by simp
  qed
qed

lemma inv_open_register:
  assumes inv: "inv_without timely (RegisterJob b p) x" and t: "timely \<Longrightarrow> x_live x p"
  shows "eng_inv timely (open_register b p x)"
proof -
  let ?y = "x\<lparr>x_opening := (x_opening x)(KeyID b := None)\<rparr>"
  note u = inv_unclaim [OF inv, where k = "KeyID b"]
  have y: "inv_without timely (RegisterJob b p) ?y" and cl: "\<And>k. x_opening ?y k \<noteq> None \<Longrightarrow> \<exists>a \<in> set (jobs x). claims k a"
    using u by simp_all
  consider "x_opening x (KeyID b) = None" | "x_opening x (KeyID b) \<noteq> None" "live_conn ?y (KeyID b) \<noteq> None"
    | "x_opening x (KeyID b) \<noteq> None" "live_conn ?y (KeyID b) = None" by blast
  then show ?thesis
  proof cases
    case 1
    then have "?y = x" by (intro EState.equality) auto
    then show ?thesis using inv_close_held [OF inv, of p] cl 1 by (simp add: open_register_def)
  next
    case 2
    then show ?thesis using inv_close_held [OF y, of p] cl by (simp add: open_register_def)
  next
    case 3
    let ?z = "?y\<lparr>hot := (hot x)(KeyID b \<mapsto> p), pw := wheel_Add p (pw x)\<rparr>"
    note d = inv_withoutD [OF y]
    have own: "owner x p = Some b" "p < x_next x" "p \<notin> set (held (jobs x))"
      using d(3,4,7) d(2) by (auto simp: addr_ok_def)
    have dead: "\<not> x_live x q" if "hot x (KeyID b) = Some q" for q
      using 3(2) that live_conn_None [of ?y] by (simp add: eng_simps)
    have "eng_inv timely ?z"
    proof (rule eng_invI)
      show "hot_ok ?z" using d(1) own by (auto simp: hot_ok_def eng_simps wheel_Add_def)
      show "addr_ok ?z" using d(2) by (auto simp: addr_ok_def eng_simps)
      have "(\<exists>k. ((hot x)(KeyID b \<mapsto> p)) k = Some q) \<or> q \<in> set (held (jobs x))" if q: "x_live x q" for q
      proof (cases "q = p")
        case False
        with d(9) [of q] q consider k where "hot x k = Some q" | "q \<in> set (held (jobs x))" by (auto simp: eng_simps)
        then show ?thesis
        proof cases
          case (1 k)
          then have "k \<noteq> KeyID b" using dead q by blast
          then show ?thesis using 1 by auto
        qed simp
      qed auto
      then show "jobs_ok ?z" using d(6) cl by (auto simp: jobs_ok_def eng_simps)
      show "dead_ok ?z" if timely using d(10) [OF that] t [OF that] by (auto simp: dead_ok_def eng_simps)
    qed
    then show ?thesis using 3 by (simp add: open_register_def)
  qed
qed

text \<open>Eviction, by the \<open>onClose\<close> of a socket.\<close>

lemma inv_onClose:
  assumes inv: "inv_without timely (ClosedJob b) x"
  shows "eng_inv timely (onClose b x)"
proof -
  note d = inv_withoutD [OF inv]
  have jobs: "jobs_ok x" using d(6,8,9) by (auto simp: jobs_ok_def)
  have other: "\<exists>a. KeyID a = k \<and> ClosedJob a \<in> set (jobs x)"
    if "timely" "hot x k = Some q" "\<not> x_live x q" "k \<noteq> KeyID b" for k q
    using d(10) [OF that(1-3)] that(4) by auto
  have keep: "eng_inv timely x" if "\<And>q. hot x (KeyID b) = Some q \<Longrightarrow> x_live x q"
  proof (rule eng_invI [OF d(1,2) jobs])
    show "dead_ok x" if timely
      unfolding dead_ok_def
    proof (intro allI impI, elim conjE)
      fix k q
      assume q: "hot x k = Some q" "\<not> x_live x q"
      then have "k \<noteq> KeyID b" using \<open>\<And>q. hot x (KeyID b) = Some q \<Longrightarrow> x_live x q\<close> by blast
      then show "\<exists>a. KeyID a = k \<and> ClosedJob a \<in> set (jobs x)" using other [OF that q] by blast
    qed
  qed
  show ?thesis
  proof (cases "hot x (KeyID b)")
    case None
    then show ?thesis using keep by (simp add: onClose_def)
  next
    case (Some p)
    show ?thesis
    proof (cases "live_conn x (KeyID b) = None")
      case False
      then have "x_live x p" using Some live_conn_None [of x "KeyID b"] by simp
      then have "eng_inv timely x" using keep Some by simp
      moreover have "onClose b x = x" using False Some by (auto simp: onClose_def)
      ultimately show ?thesis by simp
    next
      case True
      then have l: "\<not> x_live x p" using Some live_conn_None [of x "KeyID b"] by simp
      let ?y = "x\<lparr>hot := (hot x)(KeyID b := None), pw := wheel_Remove p (pw x)\<rparr>"
      have u: "q \<noteq> p" if "hot x k = Some q" "k \<noteq> KeyID b" for k q
      proof
        assume "q = p"
        with hot_inj [OF d(1) that(1)] Some have "k = KeyID b" by simp
        then show False using that(2) by simp
      qed
      have "eng_inv timely ?y"
      proof (rule eng_invI)
        have "q < x_next x \<and> q \<notin> set (held (jobs x)) \<and> (\<exists>a. owner x q = Some a \<and> KeyID a = k) \<and>
            (x_live x q \<longrightarrow> q \<in> dom ((w_conns (pw x))(p := None)))" if "hot x k = Some q" "k \<noteq> KeyID b" for k q
          using d(1) that(1) u [OF that] unfolding hot_ok_def by simp
        then show "hot_ok ?y" unfolding hot_ok_def eng_simps by (simp add: wheel_Remove_def)
        show "addr_ok ?y" using d(2) by (auto simp: addr_ok_def eng_simps)
        have "(\<exists>k. ((hot x)(KeyID b := None)) k = Some q) \<or> q \<in> set (held (jobs x))" if q: "x_live x q" for q
        proof -
          from jobs q consider k where "hot x k = Some q" | "q \<in> set (held (jobs x))" by (auto simp: jobs_ok_def)
          then show ?thesis
          proof cases
            case (1 k)
            then have "k \<noteq> KeyID b" using l q Some by auto
            then show ?thesis using 1 by auto
          qed simp
        qed
        then show "jobs_ok ?y" using jobs by (auto simp: jobs_ok_def eng_simps)
        show "dead_ok ?y" if timely
          unfolding dead_ok_def eng_simps
        proof (intro allI impI, elim conjE)
          fix k q
          assume "hot ?y k = Some q" "\<not> x_live x q"
          then have "hot x k = Some q" "k \<noteq> KeyID b" by (auto split: if_splits)
          from other [OF that this(1) _ this(2)] \<open>\<not> x_live x q\<close>
          show "\<exists>a. KeyID a = k \<and> ClosedJob a \<in> set (jobs ?y)" by simp
        qed
      qed
      from inv_add_job [OF this, of "RearmJob b"] show ?thesis using True Some by (simp add: onClose_def)
    qed
  qed
qed

lemma inv_shut:
  assumes inv: "inv_without timely (ShutJob p) x"
  shows "eng_inv timely (CloseHot_shut p x)"
proof -
  note d = inv_withoutD [OF inv]
  let ?y = "x\<lparr>pw := wheel_Remove p (pw x)\<rparr>"
  have l: "x_live ?y = x_live x" by (simp add: eng_simps)
  have "hot_ok ?y" using d(1,5) unfolding hot_ok_def by (auto simp: eng_simps wheel_Remove_def)
  then have "inv_without timely (ShutJob p) ?y" using inv by (simp add: inv_without_def l addr_ok_def)
  from inv_close_held [OF this, of p] d(8) show ?thesis by (simp add: CloseHot_shut_def)
qed

lemma inv_job:
  assumes inv: "eng_inv timely x" and j: "j \<in> set (jobs x)"
    and t: "timely \<Longrightarrow> (case j of RegisterJob b p \<Rightarrow> x_live x p | _ \<Rightarrow> True)"
  shows "eng_inv timely (job_effect E j (drop_job j x))"
proof -
  have w: "inv_without timely j (drop_job j x)" by (rule inv_drop [OF inv j])
  show ?thesis
  proof (cases j)
    case (OpenJob b)
    then show ?thesis using w inv_open_dial by simp
  next
    case (RegisterJob b p)
    have "eng_inv timely (open_register b p (drop_job j x))"
      by (rule inv_open_register) (use w t RegisterJob in \<open>simp_all add: eng_simps\<close>)
    then show ?thesis using RegisterJob by simp
  next
    case (ClosedJob b)
    then show ?thesis using w inv_onClose by simp
  next
    case (ShutJob p)
    then show ?thesis using w inv_shut by simp
  next
    case (RearmJob b)
    have "same_sockets (drop_job j x) (dropSession (KeyID b) (drop_job j x))"
      by (simp add: dropSession_def same_sockets_def)
    from inv_same(1) [OF this, of timely] show ?thesis using inv_without_idle [OF w] RearmJob by simp
  qed (use inv_without_idle [OF w] in simp_all)
qed

lemma inv_transient:
  assumes inv: "eng_inv timely x" and d: "dial_bot E b x = (x', Inr p)"
  shows "eng_inv timely (close_conn p x')"
proof -
  obtain x1 c where e: "same_sockets x x1" "p = x_next x1" "x' = (put_conn p c x1)\<lparr>x_next := Suc p\<rparr>"
    using dial_bot_effect [OF d] by auto
  have i: "eng_inv timely x1" using inv_same(1) [OF e(1)] inv by simp
  note h = eng_invD [OF i]
  let ?y = "close_conn p x'"
  have fields: "hot ?y = hot x1" "x_opening ?y = x_opening x1" "pw ?y = pw x1" "owner ?y = owner x1"
    "reading ?y = reading x1" "x_next ?y = Suc (x_next x1)" "jobs ?y = jobs x1"
    "dom (conns ?y) = insert (x_next x1) (dom (conns x1))"
    by (simp_all add: e eng_simps)
  have "conns x1 (x_next x1) = None" using h(2) by (auto simp: addr_ok_def)
  then have f: "\<not> x_live x1 (x_next x1)" by (simp add: x_live_def)
  have l: "x_live ?y q = x_live x1 q" for q using f by (auto simp: e eng_simps)
  show ?thesis
  proof (rule eng_invI)
    show "hot_ok ?y" using h(1) unfolding hot_ok_def fields l by (simp add: less_SucI)
    show "addr_ok ?y" using h(2) unfolding addr_ok_def fields l by (auto simp: lessThan_Suc)
    show "jobs_ok ?y" using h(3) unfolding jobs_ok_def fields l by simp
    show "dead_ok ?y" if timely using h(4) [OF that] unfolding dead_ok_def fields l by simp
  qed
qed

lemma inv_step: "eng_step E timely x x' \<Longrightarrow> eng_inv timely x \<Longrightarrow> eng_inv timely x'"
proof (induction rule: eng_step.induct)
  case (eng_other x x')
  then show ?case by (simp add: inv_same)
qed (simp_all add: inv_OpenHot inv_take inv_Poll inv_job inv_lost inv_conn inv_tick inv_transient)

lemma inv_run: "eng_run E timely x x' \<Longrightarrow> eng_inv timely x \<Longrightarrow> eng_inv timely x'"
  by (induction rule: eng_run.induct) (auto intro: inv_step)

end
