(* ===== verification/Socket_Service.thy ===== *)
theory Socket_Service
  imports Tier_Selection
begin

text \<open>
  The interface \<open>tier.Actuator\<close> as a contract.  A client of the manager holds, for each bot, a
  socket or none; opening, closing and polling change that set as their names say.  Under the
  contract the manager's passes keep the sockets equal to its hot bots.
\<close>

locale socket_service =
  fixes act :: "'w Actuator" and inv :: "'w \<Rightarrow> bool" and sockets :: "'w \<Rightarrow> string set"
  assumes open_law: "inv w \<Longrightarrow> inv (act_OpenHot act b w) \<and> sockets (act_OpenHot act b w) = insert (KeyID b) (sockets w)"
    and close_law: "inv w \<Longrightarrow> inv (act_CloseHot act k w) \<and> sockets (act_CloseHot act k w) = sockets w - {k}"
    and poll_law: "inv w \<Longrightarrow> inv (act_Poll act b w) \<and> sockets (act_Poll act b w) = sockets w"
begin

lemma apply_action_sockets:
  "inv w \<Longrightarrow> inv (apply_action act w a) \<and> sockets (apply_action act w a) = apply_action socket_act (sockets w) a"
  by (cases "a_kind a") (simp_all add: apply_action_def socket_act_def open_law close_law poll_law)

lemma apply_actions_sockets:
  "inv w \<Longrightarrow> inv (apply_actions act as w) \<and> sockets (apply_actions act as w) = apply_actions socket_act as (sockets w)"
  unfolding apply_actions_def
proof (induction as arbitrary: w)
  case (Cons a as)
  then show ?case using apply_action_sockets [OF Cons.prems, of a] by simp
qed simp

text \<open>In step: the sockets are those of the hot bots.\<close>

definition in_step :: "Manager \<Rightarrow> 'w \<Rightarrow> bool" where
  "in_step m w \<longleftrightarrow> inv w \<and> sockets w = hot_keys (m_bots m)"

lemma pass_in_step:
  assumes "bots_ok (m_bots m)" "orders_ok (m_bots m) ords" "in_step m w"
  shows "in_step (fst (rebalanceLocked rnd ords mem now m))
    (apply_actions act (snd (rebalanceLocked rnd ords mem now m)) w)"
  using apply_actions_sockets [of w] rebalance_socket_set [OF assms(1,2)] assms(3) by (simp add: in_step_def)

lemma Rebalance_in_step:
  assumes "bots_ok (m_bots m)" "orders_ok (m_bots m) ords" "in_step m w"
    and "Rebalance rnd act ords mem now (m, w) = (m', w')"
  shows "in_step m' w'"
  using pass_in_step [OF assms(1-3), of rnd mem now] assms(4) by (auto simp: Rebalance_def split: prod.splits)

lemma Touch_in_step:
  assumes "bots_ok (m_bots m)" "orders_ok (m_bots m) ords" "in_step m w"
    and "Touch rnd act ords mem now k (m, w) = (m', w')"
  shows "in_step m' w'"
proof -
  have "bots_ok (m_bots (touched rnd now k m))" "orders_ok (m_bots (touched rnd now k m)) ords"
    using assms(1,2) by (simp_all add: touched_ok orders_ok_dom [OF touched_dom])
  moreover have "in_step (touched rnd now k m) w" using assms(3) by (simp add: in_step_def touched_hot)
  ultimately show ?thesis
    using pass_in_step [of "touched rnd now k m" ords w rnd mem now] assms(4)
    by (auto simp: Touch_touched split: prod.splits)
qed

lemma Remove_in_step:
  assumes "in_step m w" "Remove act k (m, w) = (m', w')"
  shows "in_step m' w' \<and> k \<notin> sockets w'"
proof (cases "m_bots m k")
  case None
  then show ?thesis using assms by (auto simp: Remove_def in_step_def hot_keys_def)
next
  case (Some e)
  then have m': "m' = m\<lparr>m_bots := (m_bots m)(k := None)\<rparr>" "w' = (if e_tier e = Hot then act_CloseHot act k w else w)"
    using assms(2) by (auto simp: Remove_def)
  have "hot_keys (m_bots m') = hot_keys (m_bots m) - {k}" by (auto simp: m' hot_keys_def)
  moreover have "e_tier e \<noteq> Hot \<Longrightarrow> k \<notin> hot_keys (m_bots m)" using Some by (simp add: hot_keys_def)
  ultimately show ?thesis using assms(1) close_law [of w k] by (auto simp: in_step_def m'(2))
qed

text \<open>Giving up a socket and then the tier.\<close>

lemma demote_in_step:
  assumes "inv w" "sockets w = hot_keys (m_bots m) - {k}" "t \<noteq> Hot"
  shows "in_step (ForceTier k t m) w"
  using assms by (auto simp: in_step_def hot_keys_def ForceTier_def split: option.splits if_splits)

end

text \<open>The set of sockets itself is the reference service.\<close>

interpretation socket_set: socket_service socket_act "\<lambda>_. True" "\<lambda>w. w"
  by unfold_locales (simp_all add: socket_act_def)

end
