(* ===== verification/Engine_Correct.thy ===== *)
theory Engine_Correct
  imports Engine_Steps Poller_Correct Tier_Correct Socket_Service
begin

text \<open>
  The properties of \<open>turbo.go\<close> about sockets: under every interleaving no socket is lost and a dead
  one is replaced, and the manager's tiers and the engine's sockets are in step.
\<close>

section \<open>A concrete engine\<close>

text \<open>Over the reference Redis: a REST client that authenticates, a bot in two clans, no permission to
  list channels, and sockets that accept every write.\<close>

type_synonym ex_world = "(db \<times> bool list) rworld"

definition ex_session :: Session where
  "ex_session = \<lparr>ses_Token = ''tok'', ses_RefreshToken = '''', ses_UserID = ''7'', ses_APIURL = ''http://a'',
     ses_WSURL = ''wss://sock''\<rparr>"

definition ex_dir :: "ex_world ClanDirectory" where
  "ex_dir = \<lparr>dir_ListClans = (\<lambda>_ _ w. (w, Inr [\<lparr>clan_ID = ''10'', clan_Name = ''A''\<rparr>, \<lparr>clan_ID = ''20'', clan_Name = ''B''\<rparr>])),
     dir_ListChannels = (\<lambda>_ _ _ w. (w, Inl (HTTPError 403 '''')))\<rparr>"

definition ex_lister :: "ex_world Lister" where
  "ex_lister = \<lparr>l_ListSince = (\<lambda>_ _ _ _ _ w. (w, [ex_msg ''1'' ''7'', ex_msg ''2'' ''8''], ''2'', False)),
     l_Authenticator = Some (\<lambda>_ _ w. (w, Inr ex_session)), l_ClanLister = Some (\<lambda>_ _ w. (w, Inr [''10''])),
     l_ClanDirectory = Some ex_dir, l_AccountFetcher = None\<rparr>"

definition ex_cfg_engine :: EngineConfig where
  "ex_cfg_engine = \<lparr>WSHost = ''gw'', WSSSL = True, ec_Tier = ex_cfg, PollRPS = 0, PollWorkers = 1,
     PollPageLimit = 0, StateTTL = 0, DedupCap = 0, PingInterval = 0\<rparr>"

definition ex_engine :: "ex_world Engine" where
  "ex_engine = \<lparr>cfg = ex_cfg_engine, e_wire = std_wire, e_store = redis_store (\<lambda>x. x) ref_rdb ex_store,
     e_lister = ex_lister, e_onMessage = Some (\<lambda>_ _ w. w), e_limiter = (\<lambda>_ w. (w, True)),
     e_dial = (\<lambda>_ w. (w, Inr ex_ws)), e_now = (\<lambda>w. (w, rw_now w)), e_rnd = (\<lambda>x. x),
     e_sample = (\<lambda>m w. (w, ([], [], []), 0, rw_now w))\<rparr>"

definition ex_x0 :: "ex_world EState" where
  "ex_x0 = \<lparr>x_w = ex_world, noChannels = Map.empty, hot = Map.empty, x_opening = Map.empty, sessions = Map.empty,
     pw = NewPingWheel 0, conns = Map.empty, owner = Map.empty, reading = {}, x_next = 0, jobs = [], x_out = []\<rparr>"

lemma ex_x0_no_sockets: "no_sockets ex_x0"
  by (simp add: ex_x0_def no_sockets_def NewPingWheel_def)

lemma ex_dial: "\<exists>x1. dial_bot ex_engine ex_br (drop_job (OpenJob ex_br) (OpenHot ex_br ex_x0)) = (x1, Inr 0)"
  by (simp add: dial_bot_def session_def fresh_session_def on_w_def session_clans_def session_names_def Dial_def
      ex_engine_def ex_lister_def ex_x0_def drop_job_def OpenHot_def live_conn_def Let_def)

section \<open>Sockets under every interleaving\<close>

text \<open>C2. No socket is lost: in every state the engine can reach, each live socket of a bot is in the
  map of hot sockets under that bot's key, and then pinged by the wheel, or is held by a goroutine that
  is about to register or to close it; its read loop runs; the map never holds one bot's socket
  under another's key; and every claim in \<open>opening\<close> has a goroutine that will settle it.\<close>

theorem no_socket_is_lost:
  assumes "no_sockets x0" "eng_run E timely x0 x"
  shows "(\<forall>p. x_live x p \<longrightarrow> p \<in> reading x \<and> (\<exists>b. owner x p = Some b \<and>
      (hot x (KeyID b) = Some p \<and> p \<in> dom (w_conns (pw x)) \<or>
       RegisterJob b p \<in> set (jobs x) \<or> ShutJob p \<in> set (jobs x)))) \<and>
    (\<forall>k p. hot x k = Some p \<longrightarrow> (\<exists>b. owner x p = Some b \<and> KeyID b = k)) \<and>
    (\<forall>k. x_opening x k \<noteq> None \<longrightarrow> (\<exists>b. KeyID b = k \<and>
      (OpenJob b \<in> set (jobs x) \<or> (\<exists>p. RegisterJob b p \<in> set (jobs x)))))"
proof -
  have inv: "eng_inv timely x" by (rule inv_run [OF assms(2) inv_no_sockets [OF assms(1)]])
  note h = eng_invD [OF inv]
  have hot: "\<exists>b. owner x p = Some b \<and> KeyID b = k" "x_live x p \<longrightarrow> p \<in> dom (w_conns (pw x))"
    if "hot x k = Some p" for k p using h(1) that unfolding hot_ok_def by blast+
  have held: "\<exists>b. owner x p = Some b \<and> (RegisterJob b p \<in> set (jobs x) \<or> ShutJob p \<in> set (jobs x))"
    if p: "p \<in> set (held (jobs x))" for p
  proof -
    obtain b where b: "owner x p = Some b" using h(2) p unfolding addr_ok_def by blast
    obtain j where j: "j \<in> set (jobs x)" "p \<in> set (held1 j)" using p by (auto simp: held_def)
    show ?thesis
    proof (cases j)
      case (RegisterJob b' q)
      then have "RegisterJob b' p \<in> set (jobs x)" using j by simp
      then show ?thesis using h(3) unfolding jobs_ok_def by blast
    next
      case (ShutJob q)
      then show ?thesis using j b by auto
    qed (use j in simp_all)
  qed
  have "p \<in> reading x \<and> (\<exists>b. owner x p = Some b \<and>
      (hot x (KeyID b) = Some p \<and> p \<in> dom (w_conns (pw x)) \<or>
       RegisterJob b p \<in> set (jobs x) \<or> ShutJob p \<in> set (jobs x)))" if l: "x_live x p" for p
  proof -
    from h(3) l consider k where "hot x k = Some p" | "p \<in> set (held (jobs x))" unfolding jobs_ok_def by blast
    then have o: "\<exists>b. owner x p = Some b \<and> (hot x (KeyID b) = Some p \<and> p \<in> dom (w_conns (pw x)) \<or>
       RegisterJob b p \<in> set (jobs x) \<or> ShutJob p \<in> set (jobs x))"
      by cases (use hot l held in blast)+
    then have "p \<in> reading x" using h(2) l unfolding addr_ok_def by blast
    with o show ?thesis by blast
  qed
  moreover have "\<exists>b. KeyID b = k \<and> (OpenJob b \<in> set (jobs x) \<or> (\<exists>p. RegisterJob b p \<in> set (jobs x)))"
    if o: "x_opening x k \<noteq> None" for k
  proof -
    obtain j where j: "j \<in> set (jobs x)" "claims k j" using h(3) o unfolding jobs_ok_def by blast
    show ?thesis by (cases j) (use j in auto)
  qed
  ultimately show ?thesis using hot(1) by blast
qed

text \<open>The states after a dial, and after the socket was registered.\<close>

lemma run_opened:
  assumes "no_sockets x0" "dial_bot E b (drop_job (OpenJob b) (OpenHot b x0)) = (x1, Inr p)"
  shows "\<exists>x. eng_run E timely x0 x \<and> jobs x = [RegisterJob b p] \<and> x_opening x = [KeyID b \<mapsto> ()] \<and>
    hot x = Map.empty \<and> x_live x p \<and> owner x = [p \<mapsto> b] \<and> reading x = {p} \<and> p \<in> dom (conns x)"
proof -
  have n: "hot x0 = Map.empty" "x_opening x0 = Map.empty" "jobs x0 = []" "owner x0 = Map.empty" "reading x0 = {}"
    using assms(1) by (simp_all add: no_sockets_def)
  have o: "OpenHot b x0 = x0\<lparr>x_opening := [KeyID b \<mapsto> ()], jobs := [OpenJob b]\<rparr>"
    by (simp add: OpenHot_def live_conn_def n)
  let ?y = "drop_job (OpenJob b) (OpenHot b x0)"
  obtain x2 c where e: "same_sockets ?y x2" "\<not> c_closed c" "p = x_next x2"
      "x1 = (put_conn p c x2)\<lparr>x_next := Suc p\<rparr>"
    using dial_bot_effect [OF assms(2)] by auto
  let ?x = "x1\<lparr>owner := (owner x1)(p \<mapsto> b), reading := insert p (reading x1), jobs := jobs x1 @ [RegisterJob b p]\<rparr>"
  have s1: "eng_step E timely x0 (OpenHot b x0)" by (rule eng_open)
  have "eng_step E timely (OpenHot b x0) (job_effect E (OpenJob b) ?y)" by (rule eng_job) (simp_all add: o)
  then have s2: "eng_step E timely (OpenHot b x0) ?x" using assms(2) by (simp add: open_dial_def)
  have f: "hot x2 = Map.empty" "x_opening x2 = [KeyID b \<mapsto> ()]" "jobs x2 = []" "owner x2 = Map.empty" "reading x2 = {}"
    using e(1) n by (simp_all add: same_sockets_def o eng_simps)
  show ?thesis
    by (rule exI [of _ ?x], intro conjI, rule eng_next [OF eng_next [OF eng_start s1] s2])
      (use f e in \<open>simp_all add: e(4) eng_simps\<close>)
qed

lemma no_socket_is_lost_witness:
  "\<exists>x. eng_run ex_engine True ex_x0 x \<and> x_live x 0 \<and> owner x 0 = Some ex_br \<and>
    (hot x (KeyID ex_br) = Some 0 \<or> RegisterJob ex_br 0 \<in> set (jobs x) \<or> ShutJob 0 \<in> set (jobs x))"
proof -
  obtain x1 where "dial_bot ex_engine ex_br (drop_job (OpenJob ex_br) (OpenHot ex_br ex_x0)) = (x1, Inr 0)"
    using ex_dial by blast
  from run_opened [OF ex_x0_no_sockets this, of True] obtain x
    where x: "eng_run ex_engine True ex_x0 x" "x_live x 0" "owner x = [0 \<mapsto> ex_br]" by blast
  from conjunct1 [OF no_socket_is_lost [OF ex_x0_no_sockets x(1)], rule_format, OF x(2)] x(3)
  have "hot x (KeyID ex_br) = Some 0 \<or> RegisterJob ex_br 0 \<in> set (jobs x) \<or> ShutJob 0 \<in> set (jobs x)" by auto
  then show ?thesis using x by auto
qed

text \<open>C21. The registration does not look at the socket it registers: one that dies between its dial and
  its registration is put into the map dead, after its \<open>onClose\<close> found nothing to evict.  A state
  is reachable in which it sits there, no goroutine is left, and the manager, which holds the
  bot hot, asks for no new socket as long as the bot keeps its slot.\<close>

theorem socket_dead_on_registration_stays:
  assumes "no_sockets x0" "dial_bot E b (drop_job (OpenJob b) (OpenHot b x0)) = (x1, Inr p)"
  shows "\<exists>x. eng_run E False x0 x \<and> hot x (KeyID b) = Some p \<and> \<not> x_live x p \<and> jobs x = [] \<and> reading x = {} \<and>
    (\<forall>c now want sel e. e_tier e = Hot \<and> reconcile_target want sel e = Hot \<longrightarrow>
       snd (reconcile c now want sel e) = [])"
proof -
  obtain x where x: "eng_run E False x0 x" "jobs x = [RegisterJob b p]" "x_opening x = [KeyID b \<mapsto> ()]"
      "hot x = Map.empty" "owner x = [p \<mapsto> b]" "reading x = {p}" "p \<in> dom (conns x)"
    using run_opened [OF assms, of False] by blast
  obtain c where c: "conns x p = Some c" using x(7) by blast
  let ?y = "conn_lost p x"
  have y: "?y = (put_conn p (c\<lparr>c_closed := True\<rparr>) x)\<lparr>reading := {}, jobs := [RegisterJob b p, ClosedJob b]\<rparr>"
    using x by (simp add: conn_lost_def c)
  let ?z = "job_effect E (ClosedJob b) (drop_job (ClosedJob b) ?y)"
  have z: "?z = (put_conn p (c\<lparr>c_closed := True\<rparr>) x)\<lparr>reading := {}, jobs := [RegisterJob b p]\<rparr>"
    using x by (simp add: y onClose_def drop_job_def eng_simps)
  let ?u = "job_effect E (RegisterJob b p) (drop_job (RegisterJob b p) ?z)"
  have 1: "eng_step E False x ?y" by (rule eng_lost) (simp add: x)
  have 2: "eng_step E False ?y ?z" by (rule eng_job) (simp_all add: y)
  have 3: "eng_step E False ?z ?u" unfolding z by (rule eng_job) simp_all
  have r: "eng_run E False x0 ?u" by (rule eng_next [OF eng_next [OF eng_next [OF x(1) 1] 2] 3])
  have "hot ?u (KeyID b) = Some p" "\<not> x_live ?u p" "jobs ?u = []" "reading ?u = {}"
    unfolding z using x by (simp_all add: open_register_def eng_simps live_conn_def Let_def)
  then show ?thesis using r by (intro exI [of _ ?u]) (auto simp: reconcile_def Let_def)
qed

lemma socket_dead_on_registration_stays_witness:
  "\<exists>x. eng_run ex_engine False ex_x0 x \<and> hot x (KeyID ex_br) = Some 0 \<and> \<not> x_live x 0 \<and> jobs x = []"
proof -
  obtain x1 where "dial_bot ex_engine ex_br (drop_job (OpenJob ex_br) (OpenHot ex_br ex_x0)) = (x1, Inr 0)"
    using ex_dial by blast
  from socket_dead_on_registration_stays [OF ex_x0_no_sockets this] show ?thesis by blast
qed

section \<open>Sockets and tiers in step\<close>

text \<open>The bots with a live socket, or with one claimed; and no socket under two keys, which
  \<open>no_socket_is_lost\<close> gives for every state the engine can reach.\<close>

definition wanted :: "'w EState \<Rightarrow> string set" where
  "wanted x = {k. live_conn x k \<noteq> None \<or> x_opening x k \<noteq> None}"

definition one_key :: "'w EState \<Rightarrow> bool" where
  "one_key x \<longleftrightarrow> (\<forall>k k' p. hot x k = Some p \<longrightarrow> hot x k' = Some p \<longrightarrow> k = k')"

lemma wanted_live: "wanted x = {k. (\<exists>p. hot x k = Some p \<and> x_live x p) \<or> x_opening x k \<noteq> None}"
  using live_conn_None [of x] by (auto simp: wanted_def)

lemma wanted_same: "same_sockets x x' \<Longrightarrow> wanted x' = wanted x \<and> one_key x' = one_key x"
  using inv_same(2) [of x x'] by (simp add: wanted_def one_key_def same_sockets_def)

lemma wanted_jobs [simp]: "wanted (x\<lparr>jobs := js\<rparr>) = wanted x" "one_key (x\<lparr>jobs := js\<rparr>) = one_key x"
  by (simp_all add: wanted_live one_key_def eng_simps)

lemma OpenHot_wanted: "one_key (OpenHot b x) = one_key x \<and> wanted (OpenHot b x) = insert (KeyID b) (wanted x)"
proof (cases "KeyID b \<in> wanted x")
  case True
  then have "OpenHot b x = x" by (auto simp: OpenHot_def wanted_def)
  then show ?thesis using True by (simp add: insert_absorb)
next
  case False
  then have "OpenHot b x = x\<lparr>x_opening := (x_opening x)(KeyID b \<mapsto> ()), jobs := jobs x @ [OpenJob b]\<rparr>"
    by (auto simp: OpenHot_def wanted_def)
  then show ?thesis by (auto simp: wanted_live one_key_def eng_simps)
qed

lemma CloseHot_cases:
  "CloseHot k x = (case hot x k of
     None \<Rightarrow> x\<lparr>hot := (hot x)(k := None), x_opening := (x_opening x)(k := None)\<rparr>
   | Some p \<Rightarrow> close_conn p (x\<lparr>hot := (hot x)(k := None), x_opening := (x_opening x)(k := None),
       pw := wheel_Remove p (pw x)\<rparr>))"
  by (simp add: CloseHot_def CloseHot_take_def CloseHot_shut_def split: option.split)

lemma CloseHot_wanted:
  assumes "one_key x"
  shows "one_key (CloseHot k x) \<and> wanted (CloseHot k x) = wanted x - {k}"
proof (cases "hot x k")
  case None
  then show ?thesis using assms by (auto simp: CloseHot_cases wanted_live one_key_def eng_simps)
next
  case (Some p)
  let ?y = "x\<lparr>hot := (hot x)(k := None), x_opening := (x_opening x)(k := None), pw := wheel_Remove p (pw x)\<rparr>"
  have y: "CloseHot k x = close_conn p ?y" using Some by (simp add: CloseHot_cases)
  have u: "q \<noteq> p" if "hot x k' = Some q" "k' \<noteq> k" for k' q
    using assms Some that unfolding one_key_def by blast
  have "k' \<in> wanted (CloseHot k x) \<longleftrightarrow> k' \<in> wanted x - {k}" for k'
    unfolding y wanted_live using u [of k'] by (auto simp: eng_simps)
  moreover have "one_key (CloseHot k x)" unfolding y using assms by (auto simp: one_key_def eng_simps)
  ultimately show ?thesis by blast
qed

lemma Poll_wanted: "one_key (Poll E b x) = one_key x \<and> wanted (Poll E b x) = wanted x"
proof -
  obtain x1 tok r where s: "session E b x = (x1, tok, r)" by (metis prod.exhaust)
  show ?thesis using wanted_same [OF session_same [OF s]] by (cases r) (simp add: Poll_def s)
qed

interpretation eng: socket_service "engine_act E" one_key wanted for E :: "'w Engine"
  by unfold_locales (auto simp: engine_act_def OpenHot_wanted CloseHot_wanted Poll_wanted)

text \<open>C5. The engine's sockets follow the tiers its manager decides: if the bots with a socket, open
  or being opened, are the hot ones before a rebalance, an activity report or a deregistration,
  they are the hot ones after it; a deregistered bot has none.\<close>

theorem engine_sockets_follow_tiers:
  assumes "one_key x" "wanted x = hot_keys (m_bots m)" "bots_ok (m_bots m)" "orders_ok (m_bots m) ords"
  shows "(case Rebalance rnd (engine_act E) ords mem now (m, x) of (m', x') \<Rightarrow> wanted x' = hot_keys (m_bots m')) \<and>
    (case Touch rnd (engine_act E) ords mem now k (m, x) of (m', x') \<Rightarrow> wanted x' = hot_keys (m_bots m')) \<and>
    (case Deregister E k (m, x) of (m', x') \<Rightarrow> wanted x' = hot_keys (m_bots m') \<and> k \<notin> wanted x')"
proof -
  have i: "eng.in_step m x" using assms(1,2) by (simp add: eng.in_step_def)
  obtain m1 x1 where r: "Rebalance rnd (engine_act E) ords mem now (m, x) = (m1, x1)" by (rule prod.exhaust)
  obtain m2 x2 where t: "Touch rnd (engine_act E) ords mem now k (m, x) = (m2, x2)" by (rule prod.exhaust)
  obtain m3 x3 where d: "Remove (engine_act E) k (m, x) = (m3, x3)" by (rule prod.exhaust)
  have "eng.in_step m3 x3 \<and> k \<notin> wanted x3" by (rule eng.Remove_in_step [OF i d])
  then have "wanted (CloseHot k x3) = hot_keys (m_bots m3) \<and> k \<notin> wanted (CloseHot k x3)"
    using CloseHot_wanted [of x3 k] by (auto simp: eng.in_step_def)
  then show ?thesis
    using eng.Rebalance_in_step [OF assms(3,4) i r] eng.Touch_in_step [OF assms(3,4) i t]
    by (auto simp: r t d Deregister_def eng.in_step_def)
qed

lemma ex_wanted: "one_key ex_x0" "wanted ex_x0 = {}"
  by (simp_all add: one_key_def wanted_def live_conn_def ex_x0_def)

lemma engine_sockets_follow_tiers_witness:
  "(case Rebalance id (engine_act ex_engine) ex_ords 0 20 (ex_mgr, ex_x0) of (m', x') \<Rightarrow>
      wanted x' = hot_keys (m_bots m'))"
proof -
  have "wanted ex_x0 = hot_keys (m_bots ex_mgr)" by (auto simp: ex_wanted hot_keys_def ex_bots)
  from engine_sockets_follow_tiers [OF ex_wanted(1) this ex_ok(1,2), where rnd = id and E = ex_engine
      and mem = 0 and now = 20 and k = "''a''"] show ?thesis by (rule conjunct1)
qed

section \<open>Dead sockets are replaced\<close>

text \<open>The re-arming of a bot is one pass of the manager over the bot demoted and touched.\<close>

lemma rearm_pass:
  assumes "e_sample E (ForceTier (KeyID b) Warm m) (x_w x) = (w, ords, mem, now)"
  shows "rearm_job E b (m, x) =
    (case rebalanceLocked (e_rnd E) ords mem now (touched (e_rnd E) now (KeyID b) (ForceTier (KeyID b) Warm m)) of
       (m', acts) \<Rightarrow> (m', apply_actions (engine_act E) acts ((dropSession (KeyID b) x)\<lparr>x_w := w\<rparr>)))"
  using assms by (simp add: rearm_job_def engine_Touch_def on_w_def dropSession_def Touch_touched)

lemma demoted_ok:
  assumes "bots_ok (m_bots m)" "m_bots m k = Some e"
  shows "bots_ok (m_bots (touched rnd now k (ForceTier k Warm m)))"
    "m_bots (touched rnd now k (ForceTier k Warm m)) = (m_bots m)(k \<mapsto> touch_entry rnd now (e\<lparr>e_tier := Warm\<rparr>))"
proof -
  show b: "m_bots (touched rnd now k (ForceTier k Warm m)) = (m_bots m)(k \<mapsto> touch_entry rnd now (e\<lparr>e_tier := Warm\<rparr>))"
    using assms(2) by (simp add: touched_def ForceTier_def)
  show "bots_ok (m_bots (touched rnd now k (ForceTier k Warm m)))"
    unfolding b by (rule bots_ok_upd [OF assms(1)]) (simp add: bots_okD [OF assms])
qed

lemma rearm_opens:
  assumes "one_key x" "bots_ok (m_bots m)" "m_bots m (KeyID b) = Some e0"
    and "e_sample E (ForceTier (KeyID b) Warm m) (x_w x) = (w, ords, mem, now)" "orders_ok (m_bots m) ords"
    and "rearm_job E b (m, x) = (m', x')"
  shows "\<exists>e. m_bots m' (KeyID b) = Some e \<and> e_lastActivity e = now \<and> (e_tier e = Hot \<longrightarrow> KeyID b \<in> wanted x')"
proof -
  let ?k = "KeyID b" and ?x = "(dropSession (KeyID b) x)\<lparr>x_w := w\<rparr>"
  let ?m = "touched (e_rnd E) now ?k (ForceTier ?k Warm m)"
  let ?acts = "snd (rebalanceLocked (e_rnd E) ords mem now ?m)"
  note d = demoted_ok [OF assms(2,3), of "e_rnd E" now]
  have dom: "dom (m_bots ?m) = dom (m_bots m)" unfolding d(2) using assms(3) by auto
  have o: "orders_ok (m_bots ?m) ords" using assms(5) unfolding orders_ok_dom [OF dom] .
  have r: "m' = fst (rebalanceLocked (e_rnd E) ords mem now ?m)" "x' = apply_actions (engine_act E) ?acts ?x"
    using assms(6) unfolding rearm_pass [OF assms(4)] by (simp_all split: prod.splits)
  obtain e where e: "m_bots m' ?k = Some e" "e_lastActivity e = now"
    unfolding r(1) rebalance_effect(1) [OF d(1) o] unfolding d(2) by (simp add: touch_entry_def)
  have "one_key ?x" using assms(1) by (simp add: one_key_def dropSession_def)
  then have "wanted x' = apply_actions socket_act ?acts (wanted ?x)"
    unfolding r(2) using eng.apply_actions_sockets by blast
  moreover have "?k \<notin> hot_keys (m_bots ?m)" unfolding d(2) by (simp add: hot_keys_def)
  moreover have "e_tier e = Hot \<Longrightarrow> ?k \<in> hot_keys (m_bots m')" using e(1) by (simp add: hot_keys_def)
  ultimately have "e_tier e = Hot \<longrightarrow> ?k \<in> wanted x'"
    using apply_actions_opened [of ?k "hot_keys (m_bots ?m)" ?acts] rebalance_socket_set [OF d(1) o, of "e_rnd E" mem now]
    unfolding r(1) by simp
  then show ?thesis using e by blast
qed

lemma run_one_key:
  assumes "no_sockets x0" "eng_run E timely x0 x"
  shows "one_key x"
proof -
  have "hot_ok x" by (rule eng_invD(1) [OF inv_run [OF assms(2) inv_no_sockets [OF assms(1)]]])
  then show ?thesis unfolding one_key_def using hot_inj by blast
qed

text \<open>C9. A registered socket that dies is replaced, in any run in which no socket dies between its
  dial and its registration (what happens then is C21's).  While the dead socket is still in
  the map, the goroutine of its read loop is about to evict it, which takes it out of the map and
  of the wheel and leaves the goroutine that re-arms the bot.  That one forces the bot, if it is
  still registered, to Warm and touches it, and if the pass this starts gives the bot a slot
  again, the bot then has a live socket or one claimed (that Touch gives it a slot unless its
  competitors fill the budget or the cap is C28).  Once the goroutines are done, every socket in
  the map is live.\<close>

theorem dead_sockets_are_evicted:
  assumes "no_sockets x0" "eng_run E True x0 x"
  shows "(\<forall>k p. hot x k = Some p \<longrightarrow> \<not> x_live x p \<longrightarrow> (\<exists>b. KeyID b = k \<and> ClosedJob b \<in> set (jobs x) \<and>
      (let x' = job_effect E (ClosedJob b) (drop_job (ClosedJob b) x)
       in hot x' k = None \<and> p \<notin> dom (w_conns (pw x')) \<and> RearmJob b \<in> set (jobs x')))) \<and>
    (\<forall>b m w ords mem now m' x'. RearmJob b \<in> set (jobs x) \<longrightarrow> bots_ok (m_bots m) \<longrightarrow> m_bots m (KeyID b) \<noteq> None \<longrightarrow>
      e_sample E (ForceTier (KeyID b) Warm m) (x_w x) = (w, ords, mem, now) \<longrightarrow> orders_ok (m_bots m) ords \<longrightarrow>
      run_next E (RearmJob b) (m, drop_job (RearmJob b) x) = (m', x') \<longrightarrow>
      (\<exists>e. m_bots m' (KeyID b) = Some e \<and> e_lastActivity e = now \<and>
        (e_tier e = Hot \<longrightarrow> live_conn x' (KeyID b) \<noteq> None \<or> x_opening x' (KeyID b) \<noteq> None))) \<and>
    (jobs x = [] \<longrightarrow> (\<forall>k p. hot x k = Some p \<longrightarrow> x_live x p))"
proof (intro conjI)
  have "eng_inv True x" by (rule inv_run [OF assms(2) inv_no_sockets [OF assms(1)]])
  then have d: "dead_ok x" by (simp add: eng_inv_def)
  have "hot (onClose b y) k = None \<and> p \<notin> dom (w_conns (pw (onClose b y))) \<and> RearmJob b \<in> set (jobs (onClose b y))"
    if "hot x k = Some p" "\<not> x_live x p" "KeyID b = k" "y = drop_job (ClosedJob b) x" for b y k p
  proof -
    have "live_conn y (KeyID b) = None" "hot y (KeyID b) = Some p"
      using that live_conn_None [of x k] by (simp_all add: eng_simps)
    then show ?thesis using that(3) by (simp add: onClose_def wheel_Remove_def)
  qed
  then show "\<forall>k p. hot x k = Some p \<longrightarrow> \<not> x_live x p \<longrightarrow> (\<exists>b. KeyID b = k \<and> ClosedJob b \<in> set (jobs x) \<and>
      (let x' = job_effect E (ClosedJob b) (drop_job (ClosedJob b) x)
       in hot x' k = None \<and> p \<notin> dom (w_conns (pw x')) \<and> RearmJob b \<in> set (jobs x')))"
    using d unfolding dead_ok_def by (fastforce simp: Let_def)
  show "jobs x = [] \<longrightarrow> (\<forall>k p. hot x k = Some p \<longrightarrow> x_live x p)"
    using d unfolding dead_ok_def by fastforce
  have "one_key x" by (rule run_one_key [OF assms])
  then show "\<forall>b m w ords mem now m' x'. RearmJob b \<in> set (jobs x) \<longrightarrow> bots_ok (m_bots m) \<longrightarrow> m_bots m (KeyID b) \<noteq> None \<longrightarrow>
      e_sample E (ForceTier (KeyID b) Warm m) (x_w x) = (w, ords, mem, now) \<longrightarrow> orders_ok (m_bots m) ords \<longrightarrow>
      run_next E (RearmJob b) (m, drop_job (RearmJob b) x) = (m', x') \<longrightarrow>
      (\<exists>e. m_bots m' (KeyID b) = Some e \<and> e_lastActivity e = now \<and>
        (e_tier e = Hot \<longrightarrow> live_conn x' (KeyID b) \<noteq> None \<or> x_opening x' (KeyID b) \<noteq> None))"
    using rearm_opens [where x = "drop_job (RearmJob b) x" for b]
    by (fastforce simp: run_next_def drop_job_def wanted_def)
qed

text \<open>A socket is opened and registered, dies, and is evicted; the manager has room for its one bot.\<close>

definition ex_engine_b :: "ex_world Engine" where
  "ex_engine_b = ex_engine\<lparr>e_sample := (\<lambda>m w. (w, ([''b''], [''b''], [''b'']), 0, rw_now w))\<rparr>"

definition ex_hot_mgr :: Manager where
  "ex_hot_mgr = \<lparr>m_cfg = ex_cfg\<lparr>HotPerTenant := 0\<rparr>, m_bots = [''b'' \<mapsto>
     \<lparr>e_bot = ex_br, e_tier = Hot, e_lastActivity = 1, e_rate = 0, e_score = 0, e_nextPoll = 1\<rparr>]\<rparr>"

lemma ex_br_key: "KeyID ex_br = ''b''"
  by (simp add: ex_br_def)

lemma ex_hot_mgr_ok: "bots_ok (m_bots ex_hot_mgr)" "orders_ok (m_bots ex_hot_mgr) ([''b''], [''b''], [''b''])"
  by (auto simp: ex_hot_mgr_def bots_ok_def orders_ok_def range_order_def ex_br_key)

lemma ex_rearm_hot:
  assumes "rearm_job ex_engine_b ex_br (ex_hot_mgr, x) = (m', x')"
  shows "''b'' \<in> hot_keys (m_bots m')"
proof -
  let ?m = "touched (e_rnd ex_engine_b) (rw_now (x_w x)) ''b'' (ForceTier ''b'' Warm ex_hot_mgr)"
  let ?o = "([''b''], [''b''], [''b''])"
  have b: "m_bots ex_hot_mgr ''b'' \<noteq> None" by (simp add: ex_hot_mgr_def)
  then obtain e where e: "m_bots ex_hot_mgr ''b'' = Some e" by blast
  note d = demoted_ok [OF ex_hot_mgr_ok(1) e, of "e_rnd ex_engine_b" "rw_now (x_w x)"]
  have dom: "dom (m_bots ?m) = {''b''}" unfolding d(2) by (auto simp: ex_hot_mgr_def)
  have o: "orders_ok (m_bots ?m) ?o" using ex_hot_mgr_ok(2) orders_ok_dom [of "m_bots ?m" "m_bots ex_hot_mgr"] dom
    by (simp add: ex_hot_mgr_def)
  have c: "m_cfg (ForceTier ''b'' Warm ex_hot_mgr) = ex_cfg\<lparr>HotPerTenant := 0\<rparr>" by (simp add: ForceTier_def ex_hot_mgr_def)
  have "hot_keys (m_bots (fst (rebalanceLocked (e_rnd ex_engine_b) ?o 0 (rw_now (x_w x)) ?m))) = dom (m_bots ?m)"
    by (rule spare_capacity_all_hot [OF d(1) o]) (simp_all add: c dom effHot_def ex_cfg_def)
  moreover have "m' = fst (rebalanceLocked (e_rnd ex_engine_b) ?o 0 (rw_now (x_w x)) ?m)"
    using assms rearm_pass [where E = ex_engine_b and b = ex_br and m = ex_hot_mgr and x = x]
    by (simp add: ex_engine_b_def ex_br_key split: prod.splits)
  ultimately show ?thesis using dom by simp
qed

lemma ex_dial_b: "\<exists>x1. dial_bot ex_engine_b ex_br (drop_job (OpenJob ex_br) (OpenHot ex_br ex_x0)) = (x1, Inr 0)"
  by (simp add: dial_bot_def session_def fresh_session_def on_w_def session_clans_def session_names_def Dial_def
      ex_engine_b_def ex_engine_def ex_lister_def ex_x0_def drop_job_def OpenHot_def live_conn_def Let_def)

lemma ex_dead_run:
  "\<exists>z. eng_run ex_engine_b True ex_x0 z \<and> hot z ''b'' = Some 0 \<and> \<not> x_live z 0 \<and> jobs z = [ClosedJob ex_br]"
proof -
  obtain x1 where "dial_bot ex_engine_b ex_br (drop_job (OpenJob ex_br) (OpenHot ex_br ex_x0)) = (x1, Inr 0)"
    using ex_dial_b by blast
  from run_opened [OF ex_x0_no_sockets this, of True] obtain x
    where x: "eng_run ex_engine_b True ex_x0 x" "jobs x = [RegisterJob ex_br 0]" "x_opening x = [KeyID ex_br \<mapsto> ()]"
      "hot x = Map.empty" "x_live x 0" "owner x = [0 \<mapsto> ex_br]" "reading x = {0}" "0 \<in> dom (conns x)" by blast
  let ?y = "job_effect ex_engine_b (RegisterJob ex_br 0) (drop_job (RegisterJob ex_br 0) x)"
  have "eng_step ex_engine_b True x ?y" by (rule eng_job) (simp_all add: x)
  then have r: "eng_run ex_engine_b True ex_x0 ?y" by (rule eng_next [OF x(1)])
  have y: "hot ?y (KeyID ex_br) = Some 0" "jobs ?y = []" "reading ?y = {0}" "owner ?y = [0 \<mapsto> ex_br]" "conns ?y = conns x"
    using x by (simp_all add: open_register_def eng_simps live_conn_def Let_def drop_job_def)
  obtain c where c: "conns ?y 0 = Some c" using x(8) y(5) by auto
  let ?z = "conn_lost 0 ?y"
  have z: "?z = (put_conn 0 (c\<lparr>c_closed := True\<rparr>) ?y)\<lparr>reading := {}, jobs := [ClosedJob ex_br]\<rparr>"
    using y(2-4) c by (simp add: conn_lost_def put_conn_def)
  have "eng_step ex_engine_b True ?y ?z" by (rule eng_lost) (simp only: y, simp)
  then have "eng_run ex_engine_b True ex_x0 ?z" by (rule eng_next [OF r])
  moreover have "hot ?z ''b'' = Some 0" "\<not> x_live ?z 0" "jobs ?z = [ClosedJob ex_br]"
    using y(1) unfolding z by (simp_all add: eng_simps ex_br_key put_conn_def x_live_def)
  ultimately show ?thesis by blast
qed

lemma dead_sockets_are_evicted_witness:
  "\<exists>x y m' x'. eng_run ex_engine_b True ex_x0 x \<and> hot x ''b'' = Some 0 \<and> \<not> x_live x 0 \<and>
     eng_run ex_engine_b True ex_x0 y \<and> hot y ''b'' = None \<and> 0 \<notin> dom (w_conns (pw y)) \<and> RearmJob ex_br \<in> set (jobs y) \<and>
     run_next ex_engine_b (RearmJob ex_br) (ex_hot_mgr, drop_job (RearmJob ex_br) y) = (m', x') \<and>
     (live_conn x' ''b'', x_opening x' ''b'') \<noteq> (None, None)"
proof -
  obtain z where z: "eng_run ex_engine_b True ex_x0 z" "hot z ''b'' = Some 0" "\<not> x_live z 0" "jobs z = [ClosedJob ex_br]"
    using ex_dead_run by blast
  obtain b where b: "ClosedJob b \<in> set (jobs z)" "let x' = job_effect ex_engine_b (ClosedJob b) (drop_job (ClosedJob b) z)
      in hot x' ''b'' = None \<and> 0 \<notin> dom (w_conns (pw x')) \<and> RearmJob b \<in> set (jobs x')"
    using dead_sockets_are_evicted [OF ex_x0_no_sockets z(1), THEN conjunct1, rule_format, OF z(2,3)] by blast
  have "b = ex_br" using b(1) z(4) by simp
  then obtain u where u: "u = job_effect ex_engine_b (ClosedJob ex_br) (drop_job (ClosedJob ex_br) z)"
      "hot u ''b'' = None" "0 \<notin> dom (w_conns (pw u))" "RearmJob ex_br \<in> set (jobs u)"
    using b(2) unfolding Let_def by blast
  have "eng_step ex_engine_b True z u" unfolding u(1) by (rule eng_job) (simp_all add: z(4))
  then have ru: "eng_run ex_engine_b True ex_x0 u" by (rule eng_next [OF z(1)])
  obtain m' x' where n: "run_next ex_engine_b (RearmJob ex_br) (ex_hot_mgr, drop_job (RearmJob ex_br) u) = (m', x')"
    by (rule prod.exhaust)
  have s: "e_sample ex_engine_b (ForceTier (KeyID ex_br) Warm ex_hot_mgr) (x_w u) =
      (x_w u, ([''b''], [''b''], [''b'']), 0, rw_now (x_w u))" by (simp add: ex_engine_b_def)
  have "m_bots ex_hot_mgr (KeyID ex_br) \<noteq> None" by (simp add: ex_hot_mgr_def ex_br_key)
  from dead_sockets_are_evicted [OF ex_x0_no_sockets ru, THEN conjunct2, THEN conjunct1, rule_format,
      OF u(4) ex_hot_mgr_ok(1) this s ex_hot_mgr_ok(2) n]
  obtain e where e: "m_bots m' ''b'' = Some e" "e_tier e = Hot \<longrightarrow> live_conn x' ''b'' \<noteq> None \<or> x_opening x' ''b'' \<noteq> None"
    unfolding ex_br_key by blast
  have "''b'' \<in> hot_keys (m_bots m')"
    by (rule ex_rearm_hot [where x' = x' and x = "drop_job (RearmJob ex_br) u"]) (use n in \<open>simp add: run_next_def\<close>)
  then have "(live_conn x' ''b'', x_opening x' ''b'') \<noteq> (None, None)" using e by (auto simp: hot_keys_def)
  then show ?thesis using z ru u n by blast
qed

end
