(* ===== verification/Engine_Delivery.thy ===== *)
theory Engine_Delivery
  imports Engine_Correct
begin

text \<open>
  Each message delivered once, whichever path it comes by, as long as the store answers: a socket
  and a poll share the dedup set of the store.  The contract \<open>msg_store\<close> of the store is lifted to
  the whole engine, the engine's poller is shown to meet the poller's assumptions, and the messages
  handed to the consumer (\<open>x_out\<close>) are those the two paths found new, and those a socket brought
  while the store gave an error.
\<close>

section \<open>The store as seen from the whole engine\<close>

lemma on_sys_eq:
  "on_sys f s = (s', r) \<longleftrightarrow> (\<exists>w. f (x_w (snd s)) = (w, r) \<and> s' = (fst s, (snd s)\<lparr>x_w := w\<rparr>))"
  by (auto simp: on_sys_def on_w_def split: prod.splits)

lemma on_sys_fst: "fst (on_sys f s) = (fst s, (snd s)\<lparr>x_w := fst (f (x_w (snd s)))\<rparr>)"
  by (simp add: on_sys_def on_w_def split: prod.splits)

lemma on_w_eq: "on_w f x = (x', r) \<longleftrightarrow> (\<exists>w. f (x_w x) = (w, r) \<and> x' = x\<lparr>x_w := w\<rparr>)"
  by (auto simp: on_w_def split: prod.splits)

abbreviation at_world :: "('w \<Rightarrow> 'a) \<Rightarrow> 'w sys \<Rightarrow> 'a" where
  "at_world obs s \<equiv> obs (x_w (snd s))"

context msg_store begin

lemma sys_contract: "msg_store (sys_store st) (at_world seen) (at_world cur) cap"
proof (unfold_locales, goal_cases)
  case (1 i m s s' b)
  then obtain w where "st_Seen st i m (x_w (snd s)) = (w, Inr b)" by (auto simp: sys_store_def on_sys_eq)
  then show ?case by (rule seen_result)
next
  case (2 i m s s' x)
  then show ?case using seen_forget by (fastforce simp: sys_store_def on_sys_eq)
next
  case (3 i m s s' x)
  then show ?case using seen_grow by (fastforce simp: sys_store_def on_sys_eq)
next
  case (4 s i)
  then show ?case by (rule seen_finite)
next
  case (5 i m s s' b)
  then show ?case using seen_keep by (auto simp: sys_store_def on_sys_eq)
next
  case (6 i m s s' b)
  then show ?case using seen_cap by (auto simp: sys_store_def on_sys_eq)
next
  case (7 i m s s' b)
  then show ?case using seen_same by (auto simp: sys_store_def on_sys_eq)
next
  case (8 i m s s' x)
  then show ?case using seen_cur by (auto simp: sys_store_def on_sys_eq)
next
  case (9 i m s s' x i')
  then show ?case using seen_other by (auto simp: sys_store_def on_sys_eq)
next
  case (10 i c s s' v)
  then show ?case using cursor_get by (auto simp: sys_store_def on_sys_eq)
next
  case (11 i c s s' x)
  then show ?case using cursor_frame by (auto simp: sys_store_def on_sys_eq)
next
  case (12 i c v s s' e)
  then obtain w where w: "st_SetCursor st i c v (x_w (snd s)) = (w, e)" "s' = (fst s, (snd s)\<lparr>x_w := w\<rparr>)"
    by (auto simp: sys_store_def on_sys_eq)
  show ?case using cursor_set [OF w(1)] w(2) by simp
next
  case (13 i s s' x)
  then show ?case using channels_frame by (auto simp: sys_store_def on_sys_eq)
next
  case (14 i s)
  then show ?case using bump_frame by (simp add: sys_store_def on_sys_fst)
next
  case (15 i c s)
  then show ?case using add_frame by (simp add: sys_store_def on_sys_fst)
qed

end

section \<open>An outside world that leaves the store alone\<close>

text \<open>Talking to Mezon, dialling, reading the clock and the consumer's handler do not change what
  the store remembers.\<close>

definition calm :: "('w \<Rightarrow> 'a) \<Rightarrow> 'w Engine \<Rightarrow> bool" where
  "calm obs E \<longleftrightarrow>
     (\<forall>w. obs (fst (e_now E w)) = obs w) \<and> (\<forall>a w. obs (fst (e_dial E a w)) = obs w) \<and>
     (\<forall>m w. obs (fst (e_sample E m w)) = obs w) \<and> (\<forall>n w. obs (fst (e_limiter E n w)) = obs w) \<and>
     (\<forall>a i k w. auth E = Some a \<longrightarrow> obs (fst (a i k w)) = obs w) \<and>
     (\<forall>f u t w. l_ClanLister (e_lister E) = Some f \<longrightarrow> obs (fst (f u t w)) = obs w) \<and>
     (\<forall>f u t w. l_AccountFetcher (e_lister E) = Some f \<longrightarrow> obs (fst (f u t w)) = obs w) \<and>
     (\<forall>t c cl cu n w. obs (fst (l_ListSince (e_lister E) t c cl cu n w)) = obs w) \<and>
     (\<forall>h b m w. e_onMessage E = Some h \<longrightarrow> obs (h b m w) = obs w)"

lemma calmD:
  assumes "calm obs E"
  shows "obs (fst (e_now E w)) = obs w" "obs (fst (e_dial E a w)) = obs w" "obs (fst (e_sample E m w)) = obs w"
    "obs (fst (e_limiter E n w)) = obs w" "auth E = Some f \<Longrightarrow> obs (fst (f i k w)) = obs w"
    "l_ClanLister (e_lister E) = Some g \<Longrightarrow> obs (fst (g u t w)) = obs w"
    "l_AccountFetcher (e_lister E) = Some g' \<Longrightarrow> obs (fst (g' u t w)) = obs w"
    "obs (fst (l_ListSince (e_lister E) t c cl cu pg w)) = obs w"
    "e_onMessage E = Some h \<Longrightarrow> obs (h b msg w) = obs w"
  using assms by (simp_all add: calm_def)

text \<open>What a step of the engine leaves: the observation of the store and the messages handed out.\<close>

definition calm_step :: "('w \<Rightarrow> 'a) \<Rightarrow> 'w EState \<Rightarrow> 'w EState \<Rightarrow> bool" where
  "calm_step obs x x' \<longleftrightarrow> obs (x_w x') = obs (x_w x) \<and> x_out x' = x_out x"

lemma calm_step_refl [simp]: "calm_step obs x x"
  by (simp add: calm_step_def)

lemma calm_step_trans: "calm_step obs x y \<Longrightarrow> calm_step obs y z \<Longrightarrow> calm_step obs x z"
  by (simp add: calm_step_def)

lemma calm_on_w: "on_w f x = (x', r) \<Longrightarrow> (\<And>w. obs (fst (f w)) = obs w) \<Longrightarrow> calm_step obs x x'"
  by (force simp: on_w_eq calm_step_def dest: arg_cong [where f = fst])

lemma calm_fresh: "fresh_session E k x = (x', r) \<Longrightarrow> calm obs E \<Longrightarrow> calm_step obs x x'"
  by (auto simp: fresh_session_def split: option.splits prod.splits dest: calm_on_w [where obs = obs, OF _ calmD(1)])

lemma calm_clans: "session_clans E s x = (x', r) \<Longrightarrow> calm obs E \<Longrightarrow> calm_step obs x x'"
  by (auto simp: session_clans_def split: option.splits prod.splits sum.splits
      dest: calm_on_w [where obs = obs, OF _ calmD(6)])

lemma calm_names: "session_names E s x = (x', r) \<Longrightarrow> calm obs E \<Longrightarrow> calm_step obs x x'"
  by (auto simp: session_names_def split: option.splits prod.splits sum.splits
      dest: calm_on_w [where obs = obs, OF _ calmD(7)])

lemma calm_session:
  assumes "session E b x = (x', r)" "calm obs E"
  shows "calm_step obs x x'"
proof (cases "auth E")
  case None
  then show ?thesis using assms by (simp add: session_def)
next
  case (Some a)
  obtain x1 c where f: "fresh_session E (KeyID b) x = (x1, c)" by (rule prod.exhaust)
  note s1 = calm_fresh [OF f assms(2)]
  show ?thesis
  proof (cases c)
    case (Some s)
    then show ?thesis using assms(1) s1 \<open>auth E = Some a\<close> f by (simp add: session_def)
  next
    case None
    obtain x2 y where a: "on_w (a (BotUserID b) (BotToken b)) x1 = (x2, y)" by (rule prod.exhaust)
    have s2: "calm_step obs x x2"
      by (rule calm_step_trans [OF s1 calm_on_w [OF a]]) (rule calmD(5) [OF assms(2) \<open>auth E = Some a\<close>])
    show ?thesis
    proof (cases y)
      case (Inl e)
      then show ?thesis using assms s2 \<open>auth E = Some a\<close> f None a by (simp add: session_def)
    next
      case (Inr sess)
      obtain x3 ids where c3: "session_clans E sess x2 = (x3, ids)" by (rule prod.exhaust)
      obtain x4 t where c4: "on_w (e_now E) x3 = (x4, t)" by (rule prod.exhaust)
      obtain x5 u d where c5: "session_names E sess x4 = (x5, u, d)" by (metis prod.exhaust)
      have "calm_step obs x x5"
        using s2 calm_clans [OF c3 assms(2)] calm_on_w [where obs = obs and f = "e_now E", OF c4 calmD(1) [OF assms(2)]] calm_names [OF c5 assms(2)]
          calm_step_trans by blast
      then show ?thesis using assms(1) \<open>auth E = Some a\<close> f None a Inr c3 c4 c5
        by (auto simp: session_def calm_step_def Let_def)
    qed
  qed
qed

lemma calm_close_conn: "calm_step obs x (close_conn p x)"
  by (simp add: close_conn_def put_conn_def calm_step_def split: option.split)

lemma calm_act:
  assumes "calm obs E"
  shows "calm_step obs x (act_OpenHot (engine_act E) b x)" "calm_step obs x (act_CloseHot (engine_act E) k x)"
    "calm_step obs x (act_Poll (engine_act E) b x)"
proof -
  show "calm_step obs x (act_OpenHot (engine_act E) b x)"
    by (simp add: engine_act_def OpenHot_def calm_step_def)
  show "calm_step obs x (act_CloseHot (engine_act E) k x)"
    using calm_close_conn [of obs] by (simp add: engine_act_def CloseHot_cases calm_step_def split: option.split)
  obtain x1 tok r where s: "session E b x = (x1, tok, r)" by (metis prod.exhaust)
  show "calm_step obs x (act_Poll (engine_act E) b x)"
    using calm_session [OF s assms] by (cases r) (simp add: engine_act_def Poll_def s calm_step_def)
qed

lemma calm_actions: "calm obs E \<Longrightarrow> calm_step obs x (apply_actions (engine_act E) as x)"
  unfolding apply_actions_def
proof (induction as arbitrary: x)
  case (Cons a as)
  have "calm_step obs x (apply_action (engine_act E) x a)"
    using calm_act [OF Cons.prems, of x] by (cases "a_kind a") (simp_all add: apply_action_def)
  then show ?case using Cons.IH [OF Cons.prems, of "apply_action (engine_act E) x a"] calm_step_trans by simp blast
qed simp

lemma calm_Touch:
  assumes "calm obs E"
  shows "calm_step obs (snd s) (snd (engine_Touch E k s))"
proof -
  obtain m x where s: "s = (m, x)" by (rule prod.exhaust)
  obtain x1 ords mem now where o: "on_w (e_sample E m) x = (x1, ords, mem, now)" by (metis prod.exhaust)
  have "calm_step obs x x1" by (rule calm_on_w [OF o]) (rule calmD(3) [OF assms])
  then show ?thesis
    using calm_actions [OF assms] calm_step_trans
    by (simp add: s engine_Touch_def o Touch_touched split_beta) blast
qed

section \<open>Delivery\<close>

lemma deliver_effect:
  assumes "calm obs E" "\<And>i c w. obs (fst (st_AddChannel (e_store E) i c w)) = obs w"
  shows "obs (x_w (snd (deliver E b msg s))) = obs (x_w (snd s))"
    "x_out (snd (deliver E b msg s)) = x_out (snd s) @ (if e_onMessage E = None then [] else [(b, msg)])"
proof -
  obtain m x where s: "s = (m, x)" by (rule prod.exhaust)
  let ?x = "fst (on_w (st_AddChannel (e_store E) (KeyID b) (ChannelID msg)) x)"
  have "calm_step obs x ?x" using assms(2) by (simp add: on_w_def calm_step_def split: prod.splits) (metis fst_conv)
  then have c: "calm_step obs x (snd (engine_Touch E (KeyID b) (m, ?x)))"
    using calm_step_trans [OF _ calm_Touch [OF assms(1), of "(m, ?x)"]] by simp
  obtain m' x' where t: "engine_Touch E (KeyID b) (m, ?x) = (m', x')" by (rule prod.exhaust)
  show "obs (x_w (snd (deliver E b msg s))) = obs (x_w (snd s))"
    using c calmD(9) [OF assms(1)] by (auto simp: s deliver_def t calm_step_def split: option.split)
  show "x_out (snd (deliver E b msg s)) = x_out (snd s) @ (if e_onMessage E = None then [] else [(b, msg)])"
    using c by (auto simp: s deliver_def t calm_step_def split: option.split)
qed

lemma engine_poller_fields:
  "lister (engine_poller E) = (\<lambda>tok ch cl cu n. on_sys (l_ListSince (e_lister E) tok ch cl cu n))"
  "store (engine_poller E) = sys_store (e_store E)" "onMessage (engine_poller E) = Some (onPollMessage E)"
  "\<exists>n. limiter_Wait (engine_poller E) = on_sys (e_limiter E n)"
  by (simp_all add: engine_poller_def New_Poller_def Let_def) blast

lemma engine_poller_quiet:
  assumes "calm obs E" "\<And>i c w. obs (fst (st_AddChannel (e_store E) i c w)) = obs w"
  shows "quiet (at_world obs) (engine_poller E)"
proof -
  obtain n where n: "limiter_Wait (engine_poller E) = on_sys (e_limiter E n)" using engine_poller_fields(4) by blast
  show ?thesis unfolding quiet_def engine_poller_fields n
    using calmD(4,8) [OF assms(1)] deliver_effect(1) [OF assms] by (simp add: on_sys_fst onPollMessage_def)
qed

text \<open>A poller whose handler logs what it is given, and whose other calls do not.\<close>

definition logs :: "('s \<Rightarrow> (BotRef \<times> Message) list) \<Rightarrow> 's Poller \<Rightarrow> bool" where
  "logs out p \<longleftrightarrow> (\<exists>h. onMessage p = Some h \<and> (\<forall>b m s. out (h b m s) = out s @ [(b, m)])) \<and>
     (\<forall>t c cl cu l s. out (fst (lister p t c cl cu l s)) = out s) \<and> (\<forall>s. out (fst (limiter_Wait p s)) = out s) \<and>
     (\<forall>i m s. out (fst (st_Seen (store p) i m s)) = out s) \<and> (\<forall>i s. out (fst (st_Channels (store p) i s)) = out s) \<and>
     (\<forall>i c s. out (fst (st_Cursor (store p) i c s)) = out s) \<and>
     (\<forall>i c v s. out (fst (st_SetCursor (store p) i c v s)) = out s) \<and>
     (\<forall>i s. out (fst (st_BumpActivity (store p) i s)) = out s)"

definition logged :: "('s \<Rightarrow> (BotRef \<times> Message) list) \<Rightarrow> BotRef \<Rightarrow> (BotRef \<times> Message) list \<Rightarrow> 's poll_state \<Rightarrow> bool" where
  "logged out b o0 s \<longleftrightarrow> out (ps_w s) = o0 @ map (Pair b) (emitted s)"

lemma logged_world: "logged out b o0 s \<Longrightarrow> out w = out (ps_w s) \<Longrightarrow> logged out b o0 (s\<lparr>ps_w := w\<rparr>)"
  by (simp add: logged_def)

lemma logsD:
  assumes "logs out p"
  shows "lister p t c cl cu l s = (s', a) \<Longrightarrow> out s' = out s" "limiter_Wait p s = (s', y) \<Longrightarrow> out s' = out s"
    "st_Seen (store p) i m s = (s', r1) \<Longrightarrow> out s' = out s" "st_Channels (store p) i s = (s', r2) \<Longrightarrow> out s' = out s"
    "st_Cursor (store p) i c s = (s', r3) \<Longrightarrow> out s' = out s"
    "st_SetCursor (store p) i c v s = (s', r4) \<Longrightarrow> out s' = out s"
    "out (fst (st_BumpActivity (store p) i s)) = out s"
  using assms unfolding logs_def by (metis fst_conv)+

lemma poll_page_logged:
  "poll_page p b ms s = (s', e) \<Longrightarrow> logs out p \<Longrightarrow> logged out b o0 s \<Longrightarrow> logged out b o0 s'"
proof (induction ms arbitrary: s)
  case (Cons m ms)
  show ?case
  proof (cases "SenderID m = BotUserID b")
    case False
    obtain w r where x: "st_Seen (store p) (KeyID b) (MessageID m) (ps_w s) = (w, r)" by (rule prod.exhaust)
    have w: "out w = out (ps_w s)" using logsD(3) [OF Cons.prems(2) x] .
    obtain h where h: "onMessage p = Some h" "\<And>b m s. out (h b m s) = out s @ [(b, m)]"
      using Cons.prems(2) unfolding logs_def by (elim conjE exE) metis
    have e: "logged out b o0 (poll_emit p b m (s\<lparr>ps_w := w, found := found s + 1\<rparr>))"
      using Cons.prems(3) w by (simp add: poll_emit_def h logged_def)
    have s: "logged out b o0 (s\<lparr>ps_w := w\<rparr>)" by (rule logged_world [OF Cons.prems(3) w])
    show ?thesis using Cons.prems(1) False x s Cons.IH [OF _ Cons.prems(2) s] Cons.IH [OF _ Cons.prems(2) e]
      by (auto split: sum.splits bool.splits)
  qed (use Cons in simp)
qed simp

lemma poll_channels_logged:
  "poll_channels p b tok chs s = (s', e) \<Longrightarrow> logs out p \<Longrightarrow> logged out b o0 s \<Longrightarrow> logged out b o0 s'"
proof (induction chs arbitrary: s)
  case (Cons ch chs)
  note l = Cons.prems(2) and s0 = Cons.prems(3)
  obtain w0 ok where 0: "limiter_Wait p (ps_w s) = (w0, ok)" by (rule prod.exhaust)
  obtain w1 cu where 1: "st_Cursor (store p) (KeyID b) ch w0 = (w1, cu)" by (rule prod.exhaust)
  have o1: "out w0 = out (ps_w s)" "out w1 = out (ps_w s)"
    using logsD(2) [OF l 0] logsD(5) [OF l 1] by simp_all
  show ?case
  proof (cases ok)
    case False
    then show ?thesis using Cons.prems(1) logged_world [OF s0 o1(1)] 0 by auto
  next
    case True
    show ?thesis
    proof (cases cu)
      case (Inl e)
      then show ?thesis using Cons.prems(1) logged_world [OF s0 o1(2)] 0 1 True by auto
    next
      case (Inr cursor)
      obtain w2 msgs new bad where 2: "lister p tok ch '''' cursor (pageLimit p) w1 = (w2, msgs, new, bad)"
        by (rule prod_cases4)
      have s2: "logged out b o0 (s\<lparr>ps_w := w2\<rparr>)" by (rule logged_world [OF s0]) (use logsD(1) [OF l 2] o1 in simp)
      note pre = Cons.prems(1) 0 1 2 True Inr
      show ?thesis
      proof (cases bad)
        case True
        then show ?thesis using pre Cons.IH [OF _ l s2] by simp
      next
        case False
        obtain s3 err where 3: "poll_page p b msgs (s\<lparr>ps_w := w2\<rparr>) = (s3, err)" by (rule prod.exhaust)
        have l3: "logged out b o0 s3" by (rule poll_page_logged [OF 3 l s2])
        obtain w4 serr where 4: "st_SetCursor (store p) (KeyID b) ch new (ps_w s3) = (w4, serr)" by (rule prod.exhaust)
        have l4: "logged out b o0 (s3\<lparr>ps_w := w4\<rparr>)" by (rule logged_world [OF l3 logsD(6) [OF l 4]])
        show ?thesis using pre False 3 4 l3 l4 Cons.IH [OF _ l l3] Cons.IH [OF _ l l4]
          by (auto split: option.splits if_splits)
      qed
    qed
  qed
qed simp

lemma PollOnce_logged:
  assumes l: "logs out p" and r: "PollOnce p b tok w = (s, e)"
  shows "out (ps_w s) = out w @ map (Pair b) (emitted s)"
proof -
  obtain w1 chs where 1: "st_Channels (store p) (KeyID b) w = (w1, chs)" by (rule prod.exhaust)
  have o1: "out w1 = out w" by (rule logsD(4) [OF l 1])
  show ?thesis
  proof (cases chs)
    case (Inl err)
    then show ?thesis using r 1 o1 by (auto simp: PollOnce_def)
  next
    case (Inr channels)
    obtain s2 e2 where 2: "poll_channels p b tok channels \<lparr>ps_w = w1, found = 0, emitted = []\<rparr> = (s2, e2)"
      by (rule prod.exhaust)
    have "logged out b (out w) s2" by (rule poll_channels_logged [OF 2 l]) (simp add: logged_def o1)
    then show ?thesis using r 1 2 Inr logsD(7) [OF l]
      by (auto simp: PollOnce_def logged_def split: option.splits if_splits)
  qed
qed

lemma engine_poller_logs:
  assumes "calm obs E" "\<And>i c w. obs (fst (st_AddChannel (e_store E) i c w)) = obs w" "e_onMessage E \<noteq> None"
  shows "logs (\<lambda>s. x_out (snd s)) (engine_poller E)"
proof -
  obtain n where n: "limiter_Wait (engine_poller E) = on_sys (e_limiter E n)" using engine_poller_fields(4) by blast
  show ?thesis unfolding logs_def engine_poller_fields n
    using deliver_effect(2) [OF assms(1,2)] assms(3) by (simp add: on_sys_fst sys_store_def onPollMessage_def)
qed

section \<open>One arrival\<close>

context msg_store begin

text \<open>A message from a socket is handed out unless the store answers that it was seen.\<close>

lemma onHotMessage_effect:
  assumes "e_store E = st" "calm seen E" "e_onMessage E \<noteq> None"
    and x: "st_Seen st (KeyID b) (MessageID msg) (x_w (snd s)) = (w', r)"
  shows "x_out (snd (onHotMessage E b msg s)) = x_out (snd s) @ (if r = Inr True then [] else [(b, msg)])"
    "seen (x_w (snd (onHotMessage E b msg s))) = seen w'"
proof -
  have a: "\<And>i c w. seen (fst (st_AddChannel (e_store E) i c w)) = seen w" using add_frame assms(1) by simp
  note d = deliver_effect [OF assms(2) a]
  have e: "onHotMessage E b msg s = (if r = Inr True then (fst s, (snd s)\<lparr>x_w := w'\<rparr>)
      else deliver E b msg (fst s, (snd s)\<lparr>x_w := w'\<rparr>))"
    using x assms(1) by (cases s) (auto simp: onHotMessage_def on_w_def split: sum.split bool.split)
  show "x_out (snd (onHotMessage E b msg s)) = x_out (snd s) @ (if r = Inr True then [] else [(b, msg)])"
    "seen (x_w (snd (onHotMessage E b msg s))) = seen w'"
    using d [of b msg "(fst s, (snd s)\<lparr>x_w := w'\<rparr>)"] assms(3) by (simp_all add: e)
qed

text \<open>A poll: what it hands out is new and remembered; when an error of the store ends it, one id
  more may be remembered.\<close>

lemma poll_job_effect:
  assumes "e_store E = st" "calm seen E" "calm cur E" "e_onMessage E \<noteq> None"
    and "PollOnce (engine_poller E) b tok s = (ps, err)"
    and "int (card (seen (x_w (snd s)) (KeyID b))) + found ps + (if err = None then 0 else 1) \<le> int cap"
  shows "x_out (snd (poll_job E b tok s)) = x_out (snd s) @ map (Pair b) (emitted ps)"
    "distinct (emitted_ids (emitted ps))"
    "set (emitted_ids (emitted ps)) \<inter> seen (x_w (snd s)) (KeyID b) = {}"
    "seen (x_w (snd s)) (KeyID b) \<union> set (emitted_ids (emitted ps)) \<subseteq> seen (x_w (snd (poll_job E b tok s))) (KeyID b)"
    "\<exists>lost. finite lost \<and> card lost \<le> (if err = None then 0 else 1) \<and>
       seen (x_w (snd (poll_job E b tok s))) (KeyID b) \<subseteq>
         seen (x_w (snd s)) (KeyID b) \<union> set (emitted_ids (emitted ps)) \<union> lost"
proof -
  let ?old = "seen (x_w (snd s)) (KeyID b)"
  have a: "\<And>i c w. seen (fst (st_AddChannel (e_store E) i c w)) = seen w"
    "\<And>i c w. cur (fst (st_AddChannel (e_store E) i c w)) = cur w" using add_frame assms(1) by simp_all
  have q: "quiet (at_world seen) (engine_poller E)" "quiet (at_world cur) (engine_poller E)"
    using engine_poller_quiet [OF assms(2) a(1)] engine_poller_quiet [OF assms(3) a(2)] by blast+
  have j: "poll_job E b tok s = ps_w ps" using assms(5) by (simp add: poll_job_def run_job_def)
  show "x_out (snd (poll_job E b tok s)) = x_out (snd s) @ map (Pair b) (emitted ps)"
    unfolding j by (rule PollOnce_logged [OF engine_poller_logs [OF assms(2) a(1) assms(4)] assms(5)])
  have "store (engine_poller E) = sys_store st" "int (card ?old) + found ps \<le> int cap"
    using assms(6) by (simp_all add: engine_poller_fields assms(1) split: if_splits)
  note p = msg_store.PollOnce_inv [OF sys_contract assms(5) q this,
      unfolded msg_store.poll_end_def [OF sys_contract] msg_store.poll_inv_def [OF sys_contract]]
  have "emission_ok (engine_poller E) b ?old ps" using p by (cases err) simp_all
  then show "distinct (emitted_ids (emitted ps))" "set (emitted_ids (emitted ps)) \<inter> ?old = {}"
    by (simp_all add: emission_ok_def)
  show "?old \<union> set (emitted_ids (emitted ps)) \<subseteq> seen (x_w (snd (poll_job E b tok s))) (KeyID b)"
    unfolding j using p assms(6) by (cases err) simp_all
  have h: "onMessage (engine_poller E) \<noteq> None" by (simp add: engine_poller_fields)
  show "\<exists>lost. finite lost \<and> card lost \<le> (if err = None then 0 else 1) \<and>
       seen (x_w (snd (poll_job E b tok s))) (KeyID b) \<subseteq> ?old \<union> set (emitted_ids (emitted ps)) \<union> lost"
  proof (cases err)
    case None
    then show ?thesis unfolding j using p h by (intro exI [of _ "{}"]) simp
  next
    case (Some e)
    then obtain x where "seen (x_w (snd (ps_w ps))) (KeyID b) \<subseteq> insert x (?old \<union> set (emitted_ids (emitted ps)))"
      using p h by auto
    then show ?thesis unfolding j using Some by (intro exI [of _ "{x}"]) auto
  qed
qed

text \<open>A message of another bot leaves this bot's ids alone.\<close>

lemma onHotMessage_other:
  assumes "e_store E = st" "calm seen E" "e_onMessage E \<noteq> None" "KeyID b \<noteq> k"
  shows "seen (x_w (snd (onHotMessage E b msg s))) k = seen (x_w (snd s)) k"
proof -
  obtain w' r where x: "st_Seen st (KeyID b) (MessageID msg) (x_w (snd s)) = (w', r)" by (rule prod.exhaust)
  show ?thesis using onHotMessage_effect(2) [OF assms(1-3) x] seen_other [OF x] assms(4) by simp
qed

end

section \<open>Any run of arrivals\<close>

text \<open>The ids handed to the consumer for one bot, in order.\<close>

definition ids_out :: "string \<Rightarrow> (BotRef \<times> Message) list \<Rightarrow> string list" where
  "ids_out k out = emitted_ids (map snd (filter (\<lambda>(b, m). KeyID b = k) out))"

text \<open>Messages of one bot arriving by its sockets (the callback of a read loop) and by polls, in
  any order, and between them anything that leaves the bot's dedup set and its messages alone.
  The dedup set has room at each arrival.  \<open>blind\<close> are the messages a socket brought while the
  store did not answer, \<open>fails\<close> counts the polls that an error ended.\<close>

inductive arrivals :: "'w Engine \<Rightarrow> ('w \<Rightarrow> string \<Rightarrow> string set) \<Rightarrow> nat \<Rightarrow> string \<Rightarrow> 'w sys \<Rightarrow>
    'w sys \<Rightarrow> Message list \<Rightarrow> nat \<Rightarrow> bool" for E seen cap k where
  start: "arrivals E seen cap k s s [] 0"
| socket: "arrivals E seen cap k s0 s blind fails \<Longrightarrow> KeyID b = k \<Longrightarrow>
    st_Seen (e_store E) k (MessageID msg) (x_w (snd s)) = (w', r) \<Longrightarrow> card (seen (x_w (snd s)) k) < cap \<Longrightarrow>
    arrivals E seen cap k s0 (onHotMessage E b msg s) (blind @ (case r of Inl e \<Rightarrow> [msg] | Inr old \<Rightarrow> [])) fails"
| polled: "arrivals E seen cap k s0 s blind fails \<Longrightarrow> KeyID b = k \<Longrightarrow>
    PollOnce (engine_poller E) b tok s = (ps, err) \<Longrightarrow>
    int (card (seen (x_w (snd s)) k)) + found ps + (if err = None then 0 else 1) \<le> int cap \<Longrightarrow>
    arrivals E seen cap k s0 (poll_job E b tok s) blind (fails + (if err = None then 0 else 1))"
| other: "arrivals E seen cap k s0 s blind fails \<Longrightarrow> seen (x_w (snd s')) k = seen (x_w (snd s)) k \<Longrightarrow>
    ids_out k (x_out (snd s')) = ids_out k (x_out (snd s)) \<Longrightarrow>
    arrivals E seen cap k s0 s' blind fails"

lemma ids_out_simps [simp]:
  "ids_out k [] = []" "ids_out k (o1 @ o2) = ids_out k o1 @ ids_out k o2"
  "ids_out (KeyID b) [(b, m)] = (if MessageID m = '''' then [] else [MessageID m])"
  "ids_out (KeyID b) (map (Pair b) ms) = emitted_ids ms"
  by (simp_all add: ids_out_def emitted_ids_def comp_def)

text \<open>The account of a run: \<open>ids\<close> were found new and handed out, \<open>blind\<close> handed out without an
  answer; what is remembered besides is at most one id for each poll that failed.\<close>

definition account :: "string set \<Rightarrow> string set \<Rightarrow> string list \<Rightarrow> Message list \<Rightarrow> nat \<Rightarrow> bool" where
  "account old now ids blind fails \<longleftrightarrow> distinct ids \<and> set ids \<inter> old = {} \<and> old \<union> set ids \<subseteq> now \<and>
     (\<exists>lost. finite lost \<and> card lost \<le> fails \<and> now \<subseteq> old \<union> set ids \<union> MessageID ` set blind \<union> lost)"

lemma account_trans:
  assumes "account A B ids bl f" "account B C ids' bl' f'"
  shows "account A C (ids @ ids') (bl @ bl') (f + f')"
proof -
  obtain l l' where l: "finite l" "card l \<le> f" "B \<subseteq> A \<union> set ids \<union> MessageID ` set bl \<union> l"
    "finite l'" "card l' \<le> f'" "C \<subseteq> B \<union> set ids' \<union> MessageID ` set bl' \<union> l'"
    using assms unfolding account_def by blast
  have "card (l \<union> l') \<le> f + f'" using card_Un_le [of l l'] l(2,5) by linarith
  moreover have "C \<subseteq> A \<union> set (ids @ ids') \<union> MessageID ` set (bl @ bl') \<union> (l \<union> l')" using l(3,6) by auto
  ultimately show ?thesis using assms l(1,4) unfolding account_def by (auto intro!: exI [of _ "l \<union> l'"])
qed

text \<open>One arrival more.\<close>

lemma account_step:
  assumes "\<exists>out ids. o1 = o0 @ out \<and> mset out = mset ids + mset (emitted_ids bl) \<and> account A B ids bl f"
    and "o2 = o1 @ out'" "mset out' = mset ids' + mset (emitted_ids bl')" "account B C ids' bl' f'"
  shows "\<exists>out ids. o2 = o0 @ out \<and> mset out = mset ids + mset (emitted_ids (bl @ bl')) \<and> account A C ids (bl @ bl') (f + f')"
proof -
  obtain out ids where i: "o1 = o0 @ out" "mset out = mset ids + mset (emitted_ids bl)" "account A B ids bl f"
    using assms(1) by blast
  show ?thesis
    by (rule exI [of _ "out @ out'"], rule exI [of _ "ids @ ids'"])
      (use i assms(2,3) account_trans [OF i(3) assms(4)] in simp)
qed

context msg_store begin

lemma arrivals_account:
  assumes "arrivals E seen cap k s0 s blind fails" "e_store E = st" "calm seen E" "calm cur E" "e_onMessage E \<noteq> None"
  shows "\<exists>out ids. ids_out k (x_out (snd s)) = ids_out k (x_out (snd s0)) @ out \<and>
    mset out = mset ids + mset (emitted_ids blind) \<and> account (seen (x_w (snd s0)) k) (seen (x_w (snd s)) k) ids blind fails"
  using assms(1)
proof induction
  case (start s)
  show ?case by (auto simp: account_def)
next
  case (socket s0 s blind fails b msg w' r)
  note x = socket.hyps(3) [unfolded assms(2) socket.hyps(2) [symmetric]]
  note e = onHotMessage_effect [OF assms(2,3,5) x]
  let ?ids = "if r = Inr False \<and> MessageID msg \<noteq> '''' then [MessageID msg] else []"
  let ?bl = "case r of Inl e \<Rightarrow> [msg] | Inr old \<Rightarrow> []"
  let ?B = "seen (x_w (snd s)) k" and ?C = "seen (x_w (snd (onHotMessage E b msg s))) k"
  have C: "?C = seen w' (KeyID b)" using e(2) socket.hyps(2) by simp
  have "account ?B ?C ?ids ?bl 0"
  proof (cases r)
    case (Inl err)
    have "?B \<subseteq> ?C" "?C \<subseteq> insert (MessageID msg) ?B"
      using seen_grow [OF x] seen_forget [OF x] socket.hyps(2,4) unfolding C by simp_all
    then show ?thesis using Inl by (auto simp: account_def intro!: exI [of _ "{}"])
  next
    case (Inr old)
    note x' = x [unfolded Inr]
    show ?thesis
      using seen_result [OF x'] seen_same [OF x'] seen_keep [OF x'] socket.hyps(2,4) Inr unfolding C
      by (cases old) (auto simp: account_def intro!: exI [of _ "{}"])
  qed
  moreover have "mset (ids_out k (if r = Inr True then [] else [(b, msg)])) = mset ?ids + mset (emitted_ids ?bl)"
    using socket.hyps(2) by (cases r) (auto split: if_splits)
  ultimately show ?case
    using account_step [OF socket.IH, of "ids_out k (x_out (snd (onHotMessage E b msg s)))"
        "ids_out k (if r = Inr True then [] else [(b, msg)])" ?ids ?bl ?C 0] e(1)
    by simp
next
  case (polled s0 s blind fails b tok ps err)
  note e = poll_job_effect [OF assms(2-5) polled.hyps(3) polled.hyps(4) [folded polled.hyps(2)]]
  let ?C = "seen (x_w (snd (poll_job E b tok s))) k"
  have "account (seen (x_w (snd s)) k) ?C (emitted_ids (emitted ps)) [] (if err = None then 0 else 1)"
    using e(2-5) polled.hyps(2) by (simp add: account_def)
  from account_step [OF polled.IH _ _ this, of _ "emitted_ids (emitted ps)"] show ?case
    using e(1) polled.hyps(2) by auto
qed simp

end

section \<open>The property\<close>

text \<open>C1. Each message once, whichever path it comes by, as long as the store answers.  Over any run in
  which a bot's sockets and its polls bring messages in any order, interleaved with steps that
  leave the bot's dedup set and its deliveries alone (messages of other bots are such), while the
  set has room for what arrives: the ids handed to the consumer for the bot are those found new,
  which are distinct, were not remembered at the start and are remembered at the end, and those of
  the messages that a socket brought when the store gave an error, which are handed out without
  dedup and so may be duplicates.  The store remembers nothing new besides them, but for at most
  one id for each poll that ended in an error (a message of a poll is lost so, C34).  So without
  an error each id is handed out at most once, and none is dropped as seen unless it was handed out.\<close>

theorem delivered_once:
  assumes "msg_store (e_store E) seen cur cap" "calm seen E" "calm cur E" "e_onMessage E \<noteq> None"
    and "arrivals E seen cap k s0 s blind fails"
  shows "(\<exists>out ids lost. ids_out k (x_out (snd s)) = ids_out k (x_out (snd s0)) @ out \<and>
      mset out = mset ids + mset (emitted_ids blind) \<and> distinct ids \<and>
      set ids \<inter> seen (x_w (snd s0)) k = {} \<and> seen (x_w (snd s0)) k \<union> set ids \<subseteq> seen (x_w (snd s)) k \<and>
      seen (x_w (snd s)) k \<subseteq> seen (x_w (snd s0)) k \<union> set ids \<union> MessageID ` set blind \<union> lost \<and>
      finite lost \<and> card lost \<le> fails) \<and>
    (\<forall>b msg s1. KeyID b \<noteq> k \<longrightarrow> seen (x_w (snd (onHotMessage E b msg s1))) k = seen (x_w (snd s1)) k \<and>
      ids_out k (x_out (snd (onHotMessage E b msg s1))) = ids_out k (x_out (snd s1)))"
proof -
  obtain out ids where o: "ids_out k (x_out (snd s)) = ids_out k (x_out (snd s0)) @ out"
      "mset out = mset ids + mset (emitted_ids blind)" "account (seen (x_w (snd s0)) k) (seen (x_w (snd s)) k) ids blind fails"
    using msg_store.arrivals_account [OF assms(1,5) refl assms(2-4)] by blast
  have "ids_out k (x_out (snd (onHotMessage E b msg s1))) = ids_out k (x_out (snd s1))" if "KeyID b \<noteq> k" for b msg s1
  proof -
    obtain w' r where x: "st_Seen (e_store E) (KeyID b) (MessageID msg) (x_w (snd s1)) = (w', r)" by (rule prod.exhaust)
    show ?thesis using msg_store.onHotMessage_effect(1) [OF assms(1) refl assms(2,4) x] that by (simp add: ids_out_def)
  qed
  then show ?thesis
    using o msg_store.onHotMessage_other [OF assms(1) refl assms(2,4)] unfolding account_def by blast
qed

text \<open>Message \<open>2\<close> comes by a socket, then a poll lists it again beside one of the bot's own.\<close>

abbreviation ex_seen :: "ex_world \<Rightarrow> string \<Rightarrow> string set" where
  "ex_seen w \<equiv> seen_ids (rw_srv w) (ref_db (rw_r w))"

definition ex_sys0 :: "ex_world sys" where
  "ex_sys0 = (New_Manager ex_cfg, ex_x0)"

definition ex_arrived :: "ex_world sys" where
  "ex_arrived = onHotMessage ex_engine ex_br (ex_msg ''2'' ''8'') ex_sys0"

lemma ex_Touch: "engine_Touch ex_engine k (New_Manager c, x) = (New_Manager c, x)"
  by (simp add: engine_Touch_def on_w_def ex_engine_def Touch_def New_Manager_def rebalanceLocked_def score_pass_def
      spare_fill_def apply_actions_def)

lemma ex_calm: "calm obs ex_engine"
  by (simp add: calm_def ex_engine_def ex_lister_def)

lemma ex_handler: "e_onMessage ex_engine \<noteq> None"
  by (simp add: ex_engine_def)

lemma ex_contract: "msg_store (e_store ex_engine) ex_seen (\<lambda>w. cursor_in (rw_srv w) (ref_db (rw_r w))) 2048"
  using ex_store_contract by (simp add: ex_engine_def)

lemmas ex_eval = ex_engine_def redis_store_def on_r_def ex_x0_def ex_world_def Seen_def AddChannel_def ref_eval
  pipeline_def ex_br_def BotRef0_def ex_msg_def Message0_def

lemmas ex_arrived_eval = ex_arrived_def onHotMessage_def ex_sys0_def deliver_def on_w_def ex_Touch

lemma ex_first: "\<exists>w'. st_Seen (e_store ex_engine) ''b'' ''2'' (x_w (snd ex_sys0)) = (w', Inr False)"
  by (simp add: ex_sys0_def ex_eval)

lemma ex_arrived_out: "x_out (snd ex_arrived) = [(ex_br, ex_msg ''2'' ''8'')]" "ex_seen (x_w (snd ex_arrived)) ''b'' = {''2''}"
  by (simp_all add: ex_arrived_eval cong: option.case_cong)
    (simp_all add: ex_eval seen_ids_def zview_def)

lemma ex_second:
  "\<exists>ps. PollOnce (engine_poller ex_engine) ex_br ''t'' ex_arrived = (ps, None) \<and> found ps = 0 \<and>
     x_out (snd (poll_job ex_engine ex_br ''t'' ex_arrived)) = [(ex_br, ex_msg ''2'' ''8'')]"
  apply (simp add: ex_arrived_eval poll_job_def run_job_def cong: option.case_cong)
  apply (simp add: PollOnce_def engine_poller_def New_Poller_def Let_def sys_store_def on_sys_def on_w_def
      ex_lister_def ex_cfg_engine_def ex_eval Channels_def reply_list_def Cursor_def reply_str_def poll_emit_def SetCursor_def)
  done

lemma delivered_once_witness:
  "\<exists>s. arrivals ex_engine ex_seen 2048 ''b'' ex_sys0 s [] 0 \<and> ids_out ''b'' (x_out (snd s)) = [''2''] \<and>
     ex_seen (x_w (snd s)) ''b'' = {''2''}"
proof -
  let ?s2 = "poll_job ex_engine ex_br ''t'' ex_arrived"
  have k: "KeyID ex_br = ''b''" "MessageID (ex_msg ''2'' ''8'') = ''2''" by (simp_all add: ex_br_def ex_msg_def)
  have e: "ex_seen (x_w (snd ex_sys0)) ''b'' = {}" using ex_world_seen by (simp add: ex_sys0_def ex_x0_def ex_br_def)
  obtain w' where f: "st_Seen (e_store ex_engine) ''b'' (MessageID (ex_msg ''2'' ''8'')) (x_w (snd ex_sys0)) = (w', Inr False)"
    using ex_first unfolding k(2) by blast
  have "arrivals ex_engine ex_seen 2048 ''b'' ex_sys0 ex_arrived ([] @ (case Inr False :: store_err + bool of Inl e \<Rightarrow> [ex_msg ''2'' ''8''] | Inr old \<Rightarrow> [])) 0"
    unfolding ex_arrived_def by (rule arrivals.socket [OF arrivals.start k(1) f]) (simp only: e, simp)
  then have a1: "arrivals ex_engine ex_seen 2048 ''b'' ex_sys0 ex_arrived [] 0" by simp
  obtain ps where p: "PollOnce (engine_poller ex_engine) ex_br ''t'' ex_arrived = (ps, None)" "found ps = 0"
      "x_out (snd ?s2) = [(ex_br, ex_msg ''2'' ''8'')]"
    using ex_second by blast
  have "arrivals ex_engine ex_seen 2048 ''b'' ex_sys0 ?s2 [] (0 + (if None = (None :: poll_err option) then 0 else 1))"
    by (rule arrivals.polled [OF a1 k(1) p(1)]) (simp add: ex_arrived_out p(2))
  then have a2: "arrivals ex_engine ex_seen 2048 ''b'' ex_sys0 ?s2 [] 0" by simp
  have o: "ids_out ''b'' (x_out (snd ?s2)) = [''2'']" "ids_out ''b'' (x_out (snd ex_sys0)) = []"
    using ids_out_simps(3) [of ex_br] k by (simp_all add: p(3) ex_sys0_def ex_x0_def)
  note T = delivered_once [OF ex_contract ex_calm ex_calm ex_handler a2, THEN conjunct1]
  obtain out ids lost where d: "ids_out ''b'' (x_out (snd ?s2)) = ids_out ''b'' (x_out (snd ex_sys0)) @ out"
      "mset out = mset ids + mset (emitted_ids [])"
      "ex_seen (x_w (snd ex_sys0)) ''b'' \<union> set ids \<subseteq> ex_seen (x_w (snd ?s2)) ''b''"
      "ex_seen (x_w (snd ?s2)) ''b'' \<subseteq> ex_seen (x_w (snd ex_sys0)) ''b'' \<union> set ids \<union> MessageID ` set ([] :: Message list) \<union> lost"
      "finite lost" "card lost \<le> 0" using T by (elim exE conjE) (rule that)
  have out: "out = [''2'']" using d(1) unfolding o by simp
  have "mset ids = {#''2''#}" using d(2) unfolding out by simp
  then have "set ids = {''2''}" by (metis set_mset_mset set_mset_single)
  then have "ex_seen (x_w (snd ?s2)) ''b'' = {''2''}" using d(3-6) unfolding e by auto
  then show ?thesis using a2 o(1) by blast
qed

end
