(* ===== verification/Engine_Clients.thy ===== *)
theory Engine_Clients
  imports Engine_Correct Content_Correct
begin

text \<open>
  The operations of \<open>turbo.go\<close> that talk to Mezon on behalf of a bot: its cached session, the
  synchronisation of its clans and the sends.  Each operation is first described on the fields it
  touches, then the properties compose these descriptions with the socket's.
\<close>

section \<open>Sessions\<close>

text \<open>A session obtained with success: what is cached is what is returned.\<close>

lemma session_login:
  assumes "auth E = Some a" "fresh_session E (KeyID b) x = (x0, None)"
    and "a (BotUserID b) (BotToken b) (x_w x0) = (w1, Inr sess)" "session E b x = (x1, tok, host, ids)"
  shows "\<exists>cs. sessions x1 = (sessions x)(KeyID b \<mapsto> cs) \<and> cs_token cs = tok \<and> cs_wsHost cs = host \<and>
    cs_clanIDs cs = ids \<and> cs_apiURL cs = ses_APIURL sess \<and>
    cs_fetched cs = snd (e_now E (x_w (fst (session_clans E sess (x0\<lparr>x_w := w1\<rparr>))))) \<and>
    tok = ses_Token sess \<and> host = session_host (ses_WSURL sess) (WSHost (cfg E)) \<and> \<not> (ids = []) \<and> hd ids = ''0''"
proof -
  obtain x3 cl where c: "session_clans E sess (x0\<lparr>x_w := w1\<rparr>) = (x3, cl)" by (rule prod.exhaust)
  obtain x4 t where n: "on_w (e_now E) x3 = (x4, t)" by (rule prod.exhaust)
  obtain x5 u d where m: "session_names E sess x4 = (x5, u, d)" by (metis prod.exhaust)
  have s0: "sessions x0 = sessions x"
    using assms(2) by (auto simp: fresh_session_def on_w_def split: option.splits prod.splits if_splits)
  have s3: "sessions x3 = sessions x0 \<and> cl \<noteq> [] \<and> hd cl = ''0''"
    using c by (auto simp: session_clans_def on_w_def split: option.splits prod.splits sum.splits)
  have s5: "sessions x5 = sessions x3"
    using n m by (auto simp: session_names_def on_w_def split: option.splits prod.splits sum.splits)
  have nt: "t = snd (e_now E (x_w x3))" using n by (auto simp: on_w_def split: prod.splits)
  show ?thesis
    using assms c n m s0 s3 s5
    by (intro exI [of _ "the (sessions x1 (KeyID b))"]) (auto simp: session_def on_w_def Let_def nt)
qed

lemma session_hit:
  assumes "auth E = Some a" "sessions x (KeyID b) = Some cs" "e_now E (x_w x) = (w, t)"
    and "time_Sub t (cs_fetched cs) < sessionTTL"
  shows "session E b x = (x\<lparr>x_w := w\<rparr>, cs_token cs, cs_wsHost cs, cs_clanIDs cs)"
  using assms by (simp add: session_def fresh_session_def on_w_def)

lemma session_refused:
  assumes "auth E = Some a" "fresh_session E (KeyID b) x = (x0, None)"
    and "a (BotUserID b) (BotToken b) (x_w x0) = (w1, Inl e)"
  shows "session E b x = (x0\<lparr>x_w := w1\<rparr>, BotToken b, WSHost (cfg E), [])"
  using assms by (simp add: session_def on_w_def)

text \<open>C22. A session is fetched once and then reused: a login caches what it returns together with the
  time the clock reads once the clans are known; after it, whatever other sessions come and go, a
  call for the bot within thirty minutes of that reading returns the same token, host and clans
  and asks the world only for the time.  The host is the session's own socket host, or the
  configured one; the clans start with \<open>0\<close>, the DM space; and a refused login falls back on the
  bot's own token and the configured gateway, caching nothing.\<close>

theorem session_reused:
  assumes "auth E = Some a" "fresh_session E (KeyID b) x = (x0, None)"
    and "a (BotUserID b) (BotToken b) (x_w x0) = (w1, r)" "session E b x = (x1, tok, host, ids)"
  shows "case r of
      Inl e \<Rightarrow> tok = BotToken b \<and> host = WSHost (cfg E) \<and> ids = [] \<and> sessions x1 = sessions x
    | Inr sess \<Rightarrow> tok = ses_Token sess \<and> host = session_host (ses_WSURL sess) (WSHost (cfg E)) \<and>
        \<not> (ids = []) \<and> hd ids = ''0'' \<and> (\<exists>cs. sessions x1 = (sessions x)(KeyID b \<mapsto> cs) \<and>
        cs_fetched cs = snd (e_now E (x_w (fst (session_clans E sess (x0\<lparr>x_w := w1\<rparr>))))) \<and>
        (\<forall>y w t. sessions y (KeyID b) = Some cs \<longrightarrow> e_now E (x_w y) = (w, t) \<longrightarrow>
          time_Sub t (cs_fetched cs) < sessionTTL \<longrightarrow> session E b y = (y\<lparr>x_w := w\<rparr>, tok, host, ids)))"
proof (cases r)
  case (Inl e)
  have "sessions x0 = sessions x"
    using assms(2) by (auto simp: fresh_session_def on_w_def split: option.splits prod.splits if_splits)
  then show ?thesis using session_refused [OF assms(1,2), of w1 e] assms(3,4) Inl by auto
next
  case (Inr sess)
  from session_login [OF assms(1,2) _ assms(4), of w1 sess] assms(3) Inr
  obtain cs where c: "sessions x1 = (sessions x)(KeyID b \<mapsto> cs)" "cs_token cs = tok" "cs_wsHost cs = host"
      "cs_clanIDs cs = ids" "tok = ses_Token sess" "\<not> (ids = [])" "hd ids = ''0''"
      "host = session_host (ses_WSURL sess) (WSHost (cfg E))"
      "cs_fetched cs = snd (e_now E (x_w (fst (session_clans E sess (x0\<lparr>x_w := w1\<rparr>)))))" by blast
  have "session E b y = (y\<lparr>x_w := w\<rparr>, tok, host, ids)"
    if "sessions y (KeyID b) = Some cs" "e_now E (x_w y) = (w, t)" "time_Sub t (cs_fetched cs) < sessionTTL" for y w t
    using session_hit [OF assms(1) that] c by simp
  then show ?thesis using c Inr by auto
qed

lemma session_reused_witness:
  "\<exists>x1 ids. session ex_engine ex_br ex_x0 = (x1, ''tok'', ''sock'', ids) \<and> hd ids = ''0'' \<and>
     session ex_engine ex_br x1 = (x1, ''tok'', ''sock'', ids)"
proof -
  have f: "fresh_session ex_engine (KeyID ex_br) ex_x0 = (ex_x0, None)" by (simp add: fresh_session_def ex_x0_def)
  obtain x1 tok host ids where s: "session ex_engine ex_br ex_x0 = (x1, tok, host, ids)" by (rule prod_cases4)
  have v: "tok = ''tok''" "host = ''sock''" "x_w x1 = ex_world"
    "\<exists>cs. sessions x1 (KeyID ex_br) = Some cs \<and> cs_fetched cs = 5"
    using s by (auto simp: session_def fresh_session_def on_w_def session_clans_def session_names_def session_host_def
        TrimPrefix_def ex_engine_def ex_lister_def ex_x0_def ex_session_def ex_world_def Let_def)
  have a: "auth ex_engine = Some (\<lambda>_ _ w. (w, Inr ex_session))" by (simp add: ex_engine_def ex_lister_def)
  have n: "e_now ex_engine (x_w x1) = (x_w x1, 5)" using v(3) by (simp add: ex_engine_def ex_world_def)
  have t: "time_Sub 5 5 < sessionTTL" by (simp add: time_Sub_def sessionTTL_def)
  note p = session_reused [OF a f refl s, simplified]
  obtain cs where "sessions x1 (KeyID ex_br) = Some cs" "cs_fetched cs = 5" using v(4) by blast
  then have "session ex_engine ex_br x1 = (x1\<lparr>x_w := x_w x1\<rparr>, tok, host, ids)" using p n t by auto
  then show ?thesis using s v p by auto
qed

section \<open>Synchronising clans\<close>

text \<open>The joins of \<open>SyncClans\<close> are those of a dial: a clan counted as joined is left alone.\<close>

lemma join_loop:
  "foldl (\<lambda>c cl. if HasJoined (clan_ID cl) c then c else fst (JoinClan w (clan_ID cl) c)) c clans =
     join_all w (map clan_ID clans) c"
proof (induction clans arbitrary: c)
  case (Cons cl clans)
  have "(if HasJoined (clan_ID cl) c then c else fst (JoinClan w (clan_ID cl) c)) = fst (JoinClan w (clan_ID cl) c)"
    by (simp add: HasJoined_def JoinClan_def)
  then show ?case using Cons.IH by (simp add: join_all_def)
qed (simp add: join_all_def)

definition unlisted :: "Clan \<Rightarrow> ClanSnapshot" where
  "unlisted cl = \<lparr>snap_ID = clan_ID cl, snap_Name = clan_Name cl, snap_Channels = [], ChannelsKnown = False\<rparr>"

text \<open>A snapshot of a clan: its id and name, and channels only if they are known.\<close>

definition shows_clan :: "Clan \<Rightarrow> ClanSnapshot \<Rightarrow> bool" where
  "shows_clan cl sn \<longleftrightarrow> snap_ID sn = clan_ID cl \<and> snap_Name sn = clan_Name cl \<and>
     (\<not> ChannelsKnown sn \<longrightarrow> snap_Channels sn = [])"

lemma sync_clan_off: "foldl (sync_clan E dir s k) (x, False, out) clans = (x, False, out @ map unlisted clans)"
  by (induction clans arbitrary: out) (simp_all add: sync_clan_def unlisted_def)

lemma sync_clan_step:
  assumes "sync_clan E dir s k (x, True, out) cl = (x', go, out')"
  shows "\<exists>sn. out' = out @ [sn] \<and> shows_clan cl sn" "sessions x' = sessions x" "same_sockets x x'"
    "if go then noChannels x' = noChannels x else \<exists>t. noChannels x' = (noChannels x)(k \<mapsto> t)"
  using assms
  by (auto simp: sync_clan_def Let_def on_w_def shows_clan_def same_sockets_def split: prod.splits sum.splits if_splits)

lemma sync_clans_fold:
  assumes "foldl (sync_clan E dir s k) (x, True, out0) clans = (x', go, out)"
  shows "(\<exists>sns. out = out0 @ sns \<and> list_all2 shows_clan clans sns) \<and> sessions x' = sessions x \<and> same_sockets x x' \<and>
    (if go then noChannels x' = noChannels x else \<exists>t. noChannels x' = (noChannels x)(k \<mapsto> t))"
  using assms
proof (induction clans arbitrary: x out0)
  case (Cons cl clans)
  obtain x1 go1 out1 where 1: "sync_clan E dir s k (x, True, out0) cl = (x1, go1, out1)" by (metis prod.exhaust)
  note st = sync_clan_step [OF 1]
  obtain sn where sn: "out1 = out0 @ [sn]" "shows_clan cl sn" using st(1) by blast
  show ?case
  proof (cases go1)
    case True
    then show ?thesis using Cons.IH [of x1 out1] Cons.prems 1 st(2,4) sn same_sockets_trans [OF st(3)] by force
  next
    case False
    have u: "list_all2 shows_clan clans (map unlisted clans)"
      by (simp add: list_all2_conv_all_nth shows_clan_def unlisted_def)
    then show ?thesis using Cons.prems 1 False st(2-4) sn by (auto simp: sync_clan_off)
  qed
qed simp

lemma may_list_frame:
  assumes "may_list_channels E k x = (x', go)"
  shows "sessions x' = sessions x" "same_sockets x x'" "noChannels x' = noChannels x"
  using assms by (auto simp: may_list_channels_def on_w_def same_sockets_def split: option.splits prod.splits)

text \<open>The shape of a pass that succeeds.\<close>

lemma SyncClans_ok:
  assumes "SyncClans E b x = (x', Inr out)"
  obtains dir cs clans y where
    "l_ClanDirectory (e_lister E) = Some dir" "sessions (fst (session E b x)) (KeyID b) = Some cs"
    "snd (dir_ListClans dir (cs_apiURL cs) (cs_token cs) (x_w (fst (session E b x)))) = Inr clans"
    "list_all2 shows_clan clans out" "sessions y = sessions (fst (session E b x))" "same_sockets x y"
    "x' = join_live E (KeyID b) clans (remember_clans (KeyID b) clans y)"
proof -
  obtain dir a where da: "l_ClanDirectory (e_lister E) = Some dir" "auth E = Some a"
    using assms by (auto simp: SyncClans_def split: option.splits)
  obtain x1 r where s: "session E b x = (x1, r)" by (rule prod.exhaust)
  obtain cs where cs: "sessions x1 (KeyID b) = Some cs" "cs_apiURL cs \<noteq> ''''"
    using assms da s by (auto simp: SyncClans_def split: option.splits if_splits)
  obtain x2 lc where l: "on_w (dir_ListClans dir (cs_apiURL cs) (cs_token cs)) x1 = (x2, lc)" by (rule prod.exhaust)
  obtain clans where cl: "lc = Inr clans"
    using assms da s cs l by (cases lc) (auto simp: SyncClans_def)
  obtain x3 go where m: "may_list_channels E (KeyID b) x2 = (x3, go)" by (rule prod.exhaust)
  obtain y go' out' where f: "foldl (sync_clan E dir cs (KeyID b)) (x3, go, []) clans = (y, go', out')"
    by (metis prod.exhaust)
  have r: "x' = join_live E (KeyID b) clans (remember_clans (KeyID b) clans y)" "out = out'"
    using assms da s cs l cl m f by (auto simp: SyncClans_def)
  have fr: "list_all2 shows_clan clans out' \<and> sessions y = sessions x3 \<and> same_sockets x3 y"
  proof (cases go)
    case True
    then show ?thesis using sync_clans_fold [of E dir cs "KeyID b" x3 "[]" clans] f by auto
  next
    case False
    then show ?thesis using f
      by (auto simp: sync_clan_off list_all2_conv_all_nth shows_clan_def unlisted_def)
  qed
  have "sessions x2 = sessions x1" using l by (auto simp: on_w_def split: prod.splits)
  then have "sessions y = sessions x1" using fr may_list_frame(1) [OF m] by simp
  moreover have "same_sockets x y"
    using session_same [OF s] on_w_same [OF l] may_list_frame(2) [OF m] fr same_sockets_trans by blast
  moreover have "snd (dir_ListClans dir (cs_apiURL cs) (cs_token cs) (x_w x1)) = Inr clans"
    using l cl by (auto simp: on_w_def split: prod.splits)
  ultimately show ?thesis using that [of dir cs clans y] da(1) cs(1) s fr r by simp
qed

lemma JoinClan_keeps: "HasJoined i c \<Longrightarrow> HasJoined i (fst (JoinClan w j c))"
  using send_frame(4) [of "BuildClanJoinEnvelope w j" c]
  by (auto simp: JoinClan_def HasJoined_def split: prod.splits option.splits)

lemma join_all_keeps: "HasJoined i c \<Longrightarrow> HasJoined i (join_all w ids c)"
  unfolding join_all_def by (induction ids arbitrary: c) (simp_all add: JoinClan_keeps)

lemma join_all_healthy: "healthy c \<Longrightarrow> i \<in> set ids \<Longrightarrow> HasJoined i (join_all w ids c)"
proof (induction ids arbitrary: c)
  case (Cons j ids)
  have e: "join_all w (j # ids) c = join_all w ids (fst (JoinClan w j c))" by (simp add: join_all_def)
  have h: "healthy (fst (JoinClan w j c))" "HasJoined j (fst (JoinClan w j c))"
    using Cons.prems(1) by (auto simp: JoinClan_healthy HasJoined_def JoinClan_def healthy_def send_def WriteMessage_def)
  show ?case using Cons.IH [OF h(1)] Cons.prems(2) h(2) join_all_keeps unfolding e by auto
qed simp

lemma live_conn_same: "same_sockets x y \<Longrightarrow> live_conn y k = live_conn x k"
  by (auto simp: same_sockets_def live_conn_def split: option.split)

lemma remember_clans_frame: "same_sockets x (remember_clans k clans x)"
  by (simp add: remember_clans_def same_sockets_def split: option.split)

lemma join_live_frame:
  "sessions (join_live E k clans x) = sessions x" "hot (join_live E k clans x) = hot x"
  "live_conn x k = Some (p, c) \<Longrightarrow> conns (join_live E k clans x) p = Some (join_all (e_wire E) (map clan_ID clans) c)"
  by (auto simp: join_live_def put_conn_def join_loop split: option.split)

text \<open>C13. A pass of \<open>SyncClans\<close> that succeeds covers every clan the directory lists: one snapshot
  each, in the directory's order, whose channels are empty unless they were listed; every clan is
  remembered in the session, so that a redial within its lifetime joins it, and none remembered
  before is forgotten; the live socket, if there is one, stays in place, loses no clan, and when
  its writes go through has joined every clan of the list.\<close>

theorem SyncClans_covers_every_clan:
  assumes "SyncClans E b x = (x', Inr out)"
  shows "\<exists>dir cs cs' w clans. l_ClanDirectory (e_lister E) = Some dir \<and>
    snd (dir_ListClans dir (cs_apiURL cs) (cs_token cs) w) = Inr clans \<and> list_all2 shows_clan clans out \<and>
    sessions (fst (session E b x)) (KeyID b) = Some cs \<and> sessions x' (KeyID b) = Some cs' \<and> cs_token cs' = cs_token cs \<and>
    set (cs_clanIDs cs') = set (cs_clanIDs cs) \<union> clan_ID ` set clans \<and> hot x' = hot x \<and>
    (\<forall>p c. live_conn x (KeyID b) = Some (p, c) \<longrightarrow> (\<exists>c'. conns x' p = Some c' \<and>
      (\<forall>i. HasJoined i c \<longrightarrow> HasJoined i c') \<and> (healthy c \<longrightarrow> (\<forall>cl \<in> set clans. HasJoined (clan_ID cl) c'))))"
proof -
  obtain dir cs clans y where s: "l_ClanDirectory (e_lister E) = Some dir"
    "sessions (fst (session E b x)) (KeyID b) = Some cs"
    "snd (dir_ListClans dir (cs_apiURL cs) (cs_token cs) (x_w (fst (session E b x)))) = Inr clans"
    "list_all2 shows_clan clans out" "sessions y = sessions (fst (session E b x))" "same_sockets x y"
    "x' = join_live E (KeyID b) clans (remember_clans (KeyID b) clans y)"
    by (rule SyncClans_ok [OF assms])
  let ?y = "remember_clans (KeyID b) clans y"
  have same: "same_sockets x ?y" using same_sockets_trans [OF s(6) remember_clans_frame] .
  have ses: "\<exists>cs'. sessions x' (KeyID b) = Some cs' \<and> cs_token cs' = cs_token cs \<and>
      set (cs_clanIDs cs') = set (cs_clanIDs cs) \<union> clan_ID ` set clans"
    using s(2,5) by (auto simp: s(7) join_live_frame remember_clans_def)
  have "\<exists>c'. conns x' p = Some c' \<and> (\<forall>i. HasJoined i c \<longrightarrow> HasJoined i c') \<and>
      (healthy c \<longrightarrow> (\<forall>cl \<in> set clans. HasJoined (clan_ID cl) c'))" if "live_conn x (KeyID b) = Some (p, c)" for p c
    using join_live_frame(3) [of ?y "KeyID b" p c E clans] that join_all_keeps join_all_healthy [of c _ "map clan_ID clans"]
    unfolding s(7) live_conn_same [OF same] by auto
  moreover have "hot x' = hot x" using same by (simp add: s(7) join_live_frame same_sockets_def)
  ultimately show ?thesis using s(1-4) ses by blast
qed

text \<open>The example's bot, with a live socket that has joined clan \<open>10\<close> only.\<close>

definition ex_live :: "ex_world EState" where
  "ex_live = ex_x0\<lparr>hot := [''b'' \<mapsto> 5], conns := [5 \<mapsto> join_all std_wire [''0'', ''10''] (new_conn ex_ws ''7'')]\<rparr>"

lemma ex_live_conn:
  "live_conn ex_live (KeyID ex_br) = Some (5, join_all std_wire [''0'', ''10''] (new_conn ex_ws ''7''))"
  "healthy (join_all std_wire [''0'', ''10''] (new_conn ex_ws ''7''))"
  by (simp_all add: live_conn_def ex_live_def ex_br_def conn_Closed_def join_all_def JoinClan_def new_conn_def send_def
      WriteMessage_def ex_ws_def healthy_def)

lemma ex_sync:
  "\<exists>x' out. SyncClans ex_engine ex_br ex_live = (x', Inr out) \<and> map snap_ID out = [''10'', ''20'']"
  by (simp add: SyncClans_def session_def fresh_session_def on_w_def session_clans_def session_names_def Let_def
      ex_engine_def ex_lister_def ex_live_def ex_x0_def ex_session_def ex_dir_def may_list_channels_def sync_clan_def
      forbidden_def)

lemma SyncClans_covers_every_clan_witness:
  "\<exists>x' out c'. SyncClans ex_engine ex_br ex_live = (x', Inr out) \<and> conns x' 5 = Some c' \<and>
     HasJoined ''0'' c' \<and> HasJoined ''10'' c' \<and> HasJoined ''20'' c'"
proof -
  obtain x' out where s: "SyncClans ex_engine ex_br ex_live = (x', Inr out)" "map snap_ID out = [''10'', ''20'']"
    using ex_sync by (elim exE conjE) (rule that)
  obtain clans where c: "list_all2 shows_clan clans out"
      "\<exists>c'. conns x' 5 = Some c' \<and> (\<forall>i. HasJoined i (join_all std_wire [''0'', ''10''] (new_conn ex_ws ''7'')) \<longrightarrow> HasJoined i c') \<and>
        (\<forall>cl \<in> set clans. HasJoined (clan_ID cl) c')"
    using SyncClans_covers_every_clan [OF s(1)] ex_live_conn by blast
  have "map clan_ID clans = map snap_ID out"
    using c(1) by (auto simp: list_all2_conv_all_nth shows_clan_def intro: nth_equalityI)
  then have ids: "''10'' \<in> clan_ID ` set clans" "''20'' \<in> clan_ID ` set clans" unfolding s(2) by (metis list.set_intros set_map)+
  have "HasJoined ''0'' (join_all std_wire [''0'', ''10''] (new_conn ex_ws ''7''))"
    by (rule join_all_healthy) (simp_all add: healthy_def new_conn_def ex_ws_def)
  moreover obtain c' where c': "conns x' 5 = Some c'"
      "\<And>i. HasJoined i (join_all std_wire [''0'', ''10''] (new_conn ex_ws ''7'')) \<Longrightarrow> HasJoined i c'"
      "\<And>cl. cl \<in> set clans \<Longrightarrow> HasJoined (clan_ID cl) c'"
    using c(2) by auto
  ultimately have "HasJoined ''0'' c'" "HasJoined ''10'' c'" "HasJoined ''20'' c'" using ids by auto
  then show ?thesis using s(1) c'(1) by (intro exI conjI)
qed

















section \<open>Sending\<close>






lemma SendTextOpts_effect:
  "\<exists>env c' e. BuildSendEnvelope w ch cl mode pub text opts = Some env \<and>
     SendTextOpts w ch cl mode pub text opts c = Some (c', e) \<and> send env c = (c', e)"
proof -
  obtain blob where "BuildContent text = Some blob" using BuildContent_total by blast
  then show ?thesis by (simp add: SendTextOpts_def BuildSendEnvelope_def)
qed

lemma send_healthy: "healthy c \<Longrightarrow> snd (send env c) = None"
  by (simp add: healthy_def send_def WriteMessage_def)




text \<open>The author named in a reply: the first of nick, display name and username that is not empty.\<close>

section \<open>Acknowledged sends\<close>

lemma read_frames_pending:
  assumes "read_frames w fs c = Some (c', ms)"
  shows "ws c' = ws c \<and> pending c' cid = (case pending c cid of None \<Rightarrow> None
    | Some None \<Rightarrow> Some (first_reply w cid fs) | Some (Some a) \<Rightarrow> Some (Some a))"
  using assms
proof (induction fs arbitrary: c ms)
  case (Cons d fs)
  obtain c1 m ms1 where r: "read_frame w d c = Some (c1, m)" "read_frames w fs c1 = Some (c', ms1)"
    using Cons.prems by (auto split: option.splits)
  show ?case
    using Cons.IH [OF r(2)] read_frame_pending [OF r(1), of cid] read_frame_frame [OF r(1)]
    by (auto split: option.splits)
qed (auto split: option.split)

text \<open>What a request returns, by the first reply among the frames read meanwhile.\<close>

definition ack_outcome :: "wire_lib \<Rightarrow> u64 \<Rightarrow> bytes list \<Rightarrow> conn_err + Ack" where
  "ack_outcome w cid frames = (case first_reply w cid frames of
       None \<Rightarrow> Inl ErrNoAck | Some a \<Rightarrow> if Err a then Inl ErrRejected else Inr a)"

lemma request_outcome:
  assumes "wire w" "healthy c"
  shows "\<exists>c'. request w env frames c = Some (c', ack_outcome w (pingCid c + 1) frames) \<and>
    ws_sent (ws c') = ws_sent (ws c) @ [WithCid w (pingCid c + 1) env] \<and> pending c' (pingCid c + 1) = None"
proof -
  let ?cid = "pingCid c + 1"
  obtain c1 where c1: "request_begin c = (c1, ?cid)" "pending c1 ?cid = Some None" "healthy c1" "ws c1 = ws c"
    using assms(2) by (simp add: request_begin_def next_cid_def healthy_def)
  obtain c2 e where s: "send (WithCid w ?cid env) c1 = (c2, e)" by (rule prod.exhaust)
  have e: "e = None" using send_healthy [OF c1(3), of "WithCid w ?cid env"] s by simp
  obtain c3 ms where f: "read_frames w frames c2 = Some (c3, ms)" using read_frames_total [OF assms(1)] by blast
  have p: "pending c3 ?cid = Some (first_reply w ?cid frames)" "ws c3 = ws c2"
    using read_frames_pending [OF f, of ?cid] send_frame(1) [OF s] c1(2) by simp_all
  show ?thesis
  proof (cases "first_reply w ?cid frames")
    case None
    then show ?thesis using c1 s e f p send_frame(6) [OF s]
      by (simp add: request_def request_send_def request_receive_def ack_outcome_def request_done_def)
  next
    case (Some a)
    then show ?thesis using c1 s e f p send_frame(6) [OF s]
      by (simp add: request_def request_send_def request_receive_def ack_outcome_def request_done_def)
  qed
qed

text \<open>C18. An acknowledged send over a live socket whose writes go through: the frame goes out under
  the connection's next request id; the call returns the message id of the first reply under that
  id among the frames read before the timeout, rejects when that reply is an error, and reports
  that no acknowledgement came when there is none or it names no message; the request leaves no
  channel behind.\<close>

theorem SendAck_outcome:
  assumes "wire (e_wire E)" "live_conn x (KeyID b) = Some (p, c)" "healthy c"
  shows "\<exists>env c'. BuildSendEnvelope (e_wire E) (ChannelID msg) (ClanID msg) (Mode msg) (IsPublic msg) text
      \<lparr>so_Ref = reply_ref msg asReply, so_Mentions = [], MentionEveryone = False\<rparr> = Some env \<and>
    SendAck E b msg text asReply frames x = Some (put_conn p c' x,
      case first_reply (e_wire E) (pingCid c + 1) frames of
        None \<Rightarrow> Inl ErrNoAck
      | Some a \<Rightarrow> if Err a then Inl ErrRejected else if ack_MessageID a = '''' then Inl ErrNoAck
          else Inr (ack_MessageID a)) \<and>
    ws_sent (ws c') = ws_sent (ws c) @ [WithCid (e_wire E) (pingCid c + 1) env] \<and> pending c' (pingCid c + 1) = None"
proof -
  let ?w = "e_wire E" and ?opts = "ref_opts (reply_ref msg asReply)"
  obtain env where env: "BuildSendEnvelope ?w (ChannelID msg) (ClanID msg) (Mode msg) (IsPublic msg) text ?opts = Some env"
    using SendTextOpts_effect by blast
  obtain c' where r: "request ?w env frames c = Some (c', ack_outcome ?w (pingCid c + 1) frames)"
      "ws_sent (ws c') = ws_sent (ws c) @ [WithCid ?w (pingCid c + 1) env]" "pending c' (pingCid c + 1) = None"
    using request_outcome [OF assms(1,3)] by blast
  have "SendTextAck ?w (ChannelID msg) (ClanID msg) (Mode msg) (IsPublic msg) text ?opts frames c =
      Some (c', SendTextAck_result (ack_outcome ?w (pingCid c + 1) frames))"
    using env r(1) by (simp add: SendTextAck_def)
  then have "SendAck E b msg text asReply frames x = Some (put_conn p c' x, SendTextAck_result (ack_outcome ?w (pingCid c + 1) frames))"
    using assms(2) by (simp add: SendAck_def withConn_def)
  then show ?thesis using env r(2,3)
    by (intro exI [of _ env] exI [of _ c'])
      (simp add: ref_opts_def ack_outcome_def SendTextAck_result_def split: option.split)
qed

lemma SendAck_outcome_witness:
  "\<exists>x'. SendAck ex_engine ex_br (ex_msg ''2'' ''8'') ''hi'' True [ex_frame] ex_live = Some (x', Inr ''99'')"
proof -
  let ?c = "join_all std_wire [''0'', ''10''] (new_conn ex_ws ''7'')"
  have w: "wire (e_wire ex_engine)" "e_wire ex_engine = std_wire" by (simp_all add: ex_engine_def std.wire_axioms)
  have "pingCid ?c = 0"
    by (simp add: join_all_def JoinClan_def new_conn_def send_def WriteMessage_def ex_ws_def)
  then have "first_reply (e_wire ex_engine) (pingCid ?c + 1) [ex_frame] = Some ex_ack" using ex_reply w(2) by simp
  then show ?thesis
    using SendAck_outcome [OF w(1) ex_live_conn, of "ex_msg ''2'' ''8''" "''hi''" True "[ex_frame]"]
    by (auto simp: ex_ack_def simp del: first_reply.simps)
qed

end
