(* ===== verification/Engine_Races.thy ===== *)
theory Engine_Races
  imports Engine_Correct
begin

text \<open>
  A race of \<open>OpenHot\<close> with itself, step by step: the claim of a second opening is taken by the
  goroutine of the first, and the failure of the second then speaks against a socket it does not
  know of.
\<close>

text \<open>A dialler that refuses every dial after the first; \<open>rw_srv\<close> counts them.\<close>

definition ex_flaky :: "ex_world Engine" where
  "ex_flaky = ex_engine\<lparr>e_dial := (\<lambda>_ w. (w\<lparr>rw_srv := rw_srv w + 1\<rparr>, if rw_srv w = 0 then Inr ex_ws else Inl ''refused''))\<rparr>"

text \<open>The bot is promoted, its goroutine dials, the bot is demoted and promoted again; the first
  goroutine registers under the second's claim; the second goroutine's dial fails.\<close>

definition ex_race :: "ex_world EState list" where
  "ex_race =
     (let x1 = OpenHot ex_br ex_x0;
          x2 = job_effect ex_flaky (OpenJob ex_br) (drop_job (OpenJob ex_br) x1);
          x3 = fst (CloseHot_take (KeyID ex_br) x2);
          x4 = OpenHot ex_br x3;
          x5 = job_effect ex_flaky (RegisterJob ex_br 0) (drop_job (RegisterJob ex_br 0) x4);
          x6 = job_effect ex_flaky (OpenJob ex_br) (drop_job (OpenJob ex_br) x5)
      in [x1, x2, x3, x4, x5, x6])"

lemmas ex_race_eval = ex_race_def ex_flaky_def ex_engine_def ex_cfg_engine_def ex_lister_def ex_x0_def ex_world_def
  ex_session_def ex_br_def BotRef0_def OpenHot_def open_dial_def dial_bot_def session_def fresh_session_def
  session_clans_def session_names_def on_w_def Let_def drop_job_def CloseHot_take_def open_register_def Dial_def
  live_conn_def put_conn_def dropSession_def time_Sub_def sessionTTL_def NewPingWheel_def wheel_Add_def

lemma ex_race_jobs:
  "map jobs ex_race = [[OpenJob ex_br], [RegisterJob ex_br 0], [RegisterJob ex_br 0],
     [RegisterJob ex_br 0, OpenJob ex_br], [OpenJob ex_br], [FailJob ex_br]]"
  by (simp add: ex_race_eval)

lemma ex_race_steps:
  "ex_race ! 0 = OpenHot ex_br ex_x0"
  "ex_race ! 1 = job_effect ex_flaky (OpenJob ex_br) (drop_job (OpenJob ex_br) (ex_race ! 0))"
  "ex_race ! 2 = fst (CloseHot_take (KeyID ex_br) (ex_race ! 1))"
  "ex_race ! 3 = OpenHot ex_br (ex_race ! 2)"
  "ex_race ! 4 = job_effect ex_flaky (RegisterJob ex_br 0) (drop_job (RegisterJob ex_br 0) (ex_race ! 3))"
  "ex_race ! 5 = job_effect ex_flaky (OpenJob ex_br) (drop_job (OpenJob ex_br) (ex_race ! 4))"
  by (simp_all add: ex_race_def Let_def)

lemma ex_race_jobs_at:
  "jobs (ex_race ! 0) = [OpenJob ex_br]" "jobs (ex_race ! 3) = [RegisterJob ex_br 0, OpenJob ex_br]"
  "jobs (ex_race ! 4) = [OpenJob ex_br]" "jobs (ex_race ! 5) = [FailJob ex_br]"
proof -
  have l: "length ex_race = 6" by (simp add: ex_race_def Let_def)
  have "jobs (ex_race ! i) = map jobs ex_race ! i" if "i < 6" for i using that l by simp
  from this [of 0] this [of 3] this [of 4] this [of 5]
  show "jobs (ex_race ! 0) = [OpenJob ex_br]" "jobs (ex_race ! 3) = [RegisterJob ex_br 0, OpenJob ex_br]"
    "jobs (ex_race ! 4) = [OpenJob ex_br]" "jobs (ex_race ! 5) = [FailJob ex_br]"
    unfolding ex_race_jobs by simp_all
qed

lemma ex_race_facts:
  "hot (ex_race ! 1) (KeyID ex_br) = None" "x_live (ex_race ! 3) 0"
  "hot (ex_race ! 5) (KeyID ex_br) = Some 0" "x_live (ex_race ! 5) 0"
proof -
  have l: "length ex_race = 6" by (simp add: ex_race_def Let_def)
  have h: "map (\<lambda>x. hot x (KeyID ex_br)) ex_race = [None, None, None, None, Some 0, Some 0]" by (simp add: ex_race_eval)
  have v: "map (\<lambda>x. x_live x 0) ex_race = [False, True, True, True, True, True]"
    by (simp add: ex_race_eval x_live_def join_all_closed new_conn_def)
  have "hot (ex_race ! i) (KeyID ex_br) = map (\<lambda>x. hot x (KeyID ex_br)) ex_race ! i"
    "x_live (ex_race ! i) 0 = map (\<lambda>x. x_live x 0) ex_race ! i" if "i < 6" for i using that l by simp_all
  from this [of 1] this [of 3] this [of 5]
  show "hot (ex_race ! 1) (KeyID ex_br) = None" "x_live (ex_race ! 3) 0"
    "hot (ex_race ! 5) (KeyID ex_br) = Some 0" "x_live (ex_race ! 5) 0"
    unfolding h v by simp_all
qed

lemma ex_race_run: "eng_run ex_flaky True ex_x0 (ex_race ! 5)"
proof -
  let ?st = "eng_step ex_flaky True"
  have 0: "?st ex_x0 (ex_race ! 0)" unfolding ex_race_steps(1) by (rule eng_open)
  have 1: "?st (ex_race ! 0) (ex_race ! 1)" unfolding ex_race_steps(2)
    by (rule eng_job) (simp_all only: ex_race_jobs_at, simp_all)
  have t: "CloseHot_take (KeyID ex_br) (ex_race ! 1) = (ex_race ! 2, None)"
    using ex_race_facts(1) unfolding ex_race_steps(3) by (simp add: CloseHot_take_def)
  have 2: "?st (ex_race ! 1) (ex_race ! 2)" using eng_take [OF t] by simp
  have 3: "?st (ex_race ! 2) (ex_race ! 3)" unfolding ex_race_steps(4) by (rule eng_open)
  have 4: "?st (ex_race ! 3) (ex_race ! 4)" unfolding ex_race_steps(5)
    by (rule eng_job) (simp_all only: ex_race_jobs_at, simp_all add: ex_race_facts(2))
  have 5: "?st (ex_race ! 4) (ex_race ! 5)" unfolding ex_race_steps(6)
    by (rule eng_job) (simp_all only: ex_race_jobs_at, simp_all)
  show ?thesis using eng_start eng_next 0 1 2 3 4 5 by metis
qed

text \<open>C20. A failed dial can strand a live socket: a state is reachable in which the only goroutine
  left is the failure of a bot whose live socket is registered; running it forces the bot to
  \<open>Warm\<close> and leaves the socket, and no pass that keeps the bot below \<open>Hot\<close> then closes it, so
  that the socket stays open outside the hot budget.\<close>

theorem failed_dial_strands_a_live_socket:
  assumes "m_bots m (KeyID ex_br) = Some e0"
  shows "\<exists>x. eng_run ex_flaky True ex_x0 x \<and> jobs x = [FailJob ex_br] \<and>
    (case run_next ex_flaky (FailJob ex_br) (m, drop_job (FailJob ex_br) x) of (m', x') \<Rightarrow>
       hot x' (KeyID ex_br) = Some 0 \<and> x_live x' 0 \<and> jobs x' = [] \<and>
       (\<exists>e. m_bots m' (KeyID ex_br) = Some e \<and> e_tier e = Warm \<and>
         (\<forall>c now want sel. reconcile_target want sel e \<noteq> Hot \<longrightarrow>
            e_tier (fst (reconcile c now want sel e)) \<noteq> Hot \<and>
            actCloseHot \<notin> a_kind ` set (snd (reconcile c now want sel e)))))"
proof (intro exI conjI)
  let ?x = "ex_race ! 5" and ?e = "e0\<lparr>e_tier := Warm\<rparr>"
  show "eng_run ex_flaky True ex_x0 ?x" by (rule ex_race_run)
  show "jobs ?x = [FailJob ex_br]" by (rule ex_race_jobs_at(4))
  let ?m = "m\<lparr>m_bots := (m_bots m)(KeyID ex_br \<mapsto> ?e)\<rparr>"
  have r: "run_next ex_flaky (FailJob ex_br) (m, drop_job (FailJob ex_br) ?x) = (?m, drop_job (FailJob ex_br) ?x)"
    using assms by (simp add: run_next_def fail_job_def ForceTier_def)
  have c: "e_tier (fst (reconcile c now want sel ?e)) \<noteq> Hot \<and>
      actCloseHot \<notin> a_kind ` set (snd (reconcile c now want sel ?e))" if "reconcile_target want sel ?e \<noteq> Hot" for c now want sel
    using that by (simp add: reconcile_def Let_def BotRef_action_def)
  show "case run_next ex_flaky (FailJob ex_br) (m, drop_job (FailJob ex_br) ?x) of (m', x') \<Rightarrow>
       hot x' (KeyID ex_br) = Some 0 \<and> x_live x' 0 \<and> jobs x' = [] \<and>
       (\<exists>e. m_bots m' (KeyID ex_br) = Some e \<and> e_tier e = Warm \<and>
         (\<forall>c now want sel. reconcile_target want sel e \<noteq> Hot \<longrightarrow>
            e_tier (fst (reconcile c now want sel e)) \<noteq> Hot \<and>
            actCloseHot \<notin> a_kind ` set (snd (reconcile c now want sel e))))"
    unfolding r using ex_race_facts(3,4) ex_race_jobs_at(4) c by (simp add: drop_job_def eng_simps)
qed

lemma failed_dial_strands_a_live_socket_witness:
  "\<exists>x. eng_run ex_flaky True ex_x0 x \<and> jobs x = [FailJob ex_br] \<and>
    TierOf (fst (run_next ex_flaky (FailJob ex_br) (Add 5 5 ex_br (New_Manager ex_cfg), drop_job (FailJob ex_br) x)))
      (KeyID ex_br) = Warm"
proof -
  have "\<exists>e. m_bots (Add 5 5 ex_br (New_Manager ex_cfg)) (KeyID ex_br) = Some e" by (simp add: Add_def New_Manager_def)
  then obtain e where "m_bots (Add 5 5 ex_br (New_Manager ex_cfg)) (KeyID ex_br) = Some e" by blast
  note p = failed_dial_strands_a_live_socket [OF this]
  show ?thesis using p by (rule ex_forward) (auto simp: TierOf_def split: prod.split_asm)
qed

end
