(* ===== verification/Spec2Isabelle.thy ===== *)
theory Spec2Isabelle
  imports Tier_Correct Content_Correct Rest_Correct Poller_Correct Conn_Correct Ping_Wheel Engine_Delivery
    Engine_Clients Engine_Races
begin

text \<open>
  A model of \<open>mezon-go-sdk-turbo\<close>, a Go library that runs many Mezon chat bots in one process, and
  the theorems that make it correct.

  \<^bold>\<open>The program.\<close>  A bot is hot (it has a WebSocket of its own), warm or cold (it is polled over REST,
  less often when cold).  \<open>lib/tier\<close> decides who is hot: \<open>Manager\<close> scores the bots, picks the best
  within a budget and a cap for each tenant (with the heap of \<open>pq.go\<close>), and asks its \<open>Actuator\<close> to
  open, close and poll.  \<open>lib/turbo\<close> is that actuator: \<open>Engine\<close> dials sockets in goroutines, gets
  and caches sessions, hands messages to the consumer and sends for it.  \<open>lib/ws\<close> is the socket:
  \<open>conn.go\<close> (the connection, its read loop, acknowledged requests), \<open>wire.go\<close> (outgoing envelopes,
  encoded by hand), \<open>decode.go\<close> and \<open>ack.go\<close> (incoming frames), \<open>content.go\<close> (the content blob of a
  message) and \<open>pingwheel.go\<close> (one goroutine that pings every socket).  \<open>lib/poller\<close> polls the
  channels of a bot, \<open>lib/rest\<close> is the HTTP client, \<open>lib/state\<close> keeps cursors, channels, the dedup set
  and activity in Redis, and \<open>lib/types\<close> holds the data they share.  A message reaches the consumer
  by a socket or by a poll; both pass the dedup set of the store, and each delivery touches the
  bot in the manager, which may promote it.

  \<^bold>\<open>Theories, in the order of the code.\<close>

  \<^item> \<open>Prelude\<close>, \<open>Bot_Types\<close> (\<open>types.go\<close>), \<open>Go_Strconv\<close>, \<open>Go_Scan\<close> and \<open>Go_Utf8\<close> (what the source uses of
    Go's standard library: decimal numbers, \<open>fmt.Sscan\<close>, UTF-8, JSON strings).

  \<^item> \<open>Score_Heap\<close> (\<open>pq.go\<close> with \<open>container/heap\<close>), \<open>Tier_Config\<close> and \<open>Tier_Manager\<close> (\<open>manager.go\<close>): the
    record \<open>Manager\<close> with a map of entries, one definition for each method and each stage of
    \<open>rebalanceLocked\<close>.  \<open>Tier_Selection\<close> proves that both selection loops are one greedy selection and
    what a pass does to each bot; \<open>Tier_Correct\<close> has the budget, fairness, priority and work
    conservation of a pass, the polls it asks for, promotion by \<open>Touch\<close>, and the invariant of every
    reachable manager.

  \<^item> \<open>Protowire\<close> (the wire format: locale \<open>wire\<close> over the record \<open>wire_lib\<close>), \<open>Wire\<close> (\<open>wire.go\<close>), \<open>Decode\<close>
    (\<open>decode.go\<close>, \<open>ack.go\<close>), \<open>Decode_Correct\<close> (what the decoders compute on a list of fields) and
    \<open>Wire_Correct\<close> (decoders against that specification, encoders read back field by field).

  \<^item> \<open>Content_Blob\<close> (\<open>content.go\<close>) and \<open>Content_Correct\<close>: no panic, spans exactly over the text they
    mark, links exactly the URLs of the text.

  \<^item> \<open>Conn\<close> (\<open>conn.go\<close>) and \<open>Conn_Correct\<close>: the record \<open>Conn\<close>, a request as atomic steps, the relation
    \<open>sock_step\<close> that interleaves them with the read loop and the other senders; a request gets its own
    reply, messages are delivered in order, each clan is joined once.  \<open>Ping_Wheel\<close> (\<open>pingwheel.go\<close>).

  \<^item> \<open>Rest\<close> (\<open>rest.go\<close>, \<open>account.go\<close>, \<open>clans.go\<close>) and \<open>Rest_Correct\<close>: what the decoders of the responses
    yield, and that they return on any bytes.

  \<^item> \<open>Store_Spec\<close> (the interface \<open>state.Store\<close> and its contract, locale \<open>msg_store\<close>), \<open>Redis_State\<close>
    (\<open>state.go\<close>), \<open>Redis_Correct\<close> (\<open>RedisStore\<close> keeps the contract over any Redis that does what its
    commands document, locale \<open>redis\<close>) and \<open>Store_Correct\<close> (deadlines, runs of sightings, round trips).

  \<^item> \<open>Poller\<close> (\<open>poller.go\<close>) and \<open>Poller_Correct\<close>: over any \<open>msg_store\<close>, whatever ends a poll.

  \<^item> \<open>Socket_Service\<close> (the contract of \<open>Actuator\<close>, locale \<open>socket_service\<close>), \<open>Engine\<close> and \<open>Engine_Api\<close>
    (\<open>turbo.go\<close>: the record \<open>EState\<close> is what its mutex guards, with the connections and the goroutines
    it has started), \<open>Engine_Steps\<close> (the step relation \<open>eng_step\<close> of the sockets and its invariant),
    \<open>Engine_Correct\<close> (no socket lost, dead ones replaced, sockets in step with tiers),
    \<open>Engine_Delivery\<close> (each message once over both paths), \<open>Engine_Clients\<close> (sessions, clans, sends)
    and \<open>Engine_Races\<close> (a race of two openings).

  \<^bold>\<open>Interfaces.\<close>  \<open>max_queue\<close> is interpreted on the heap, \<open>wire\<close> on the protobuf format, \<open>msg_store\<close> on
  \<open>RedisStore\<close> (a sublocale of \<open>redis_bot_store\<close>) and lifted to the engine's state, \<open>redis\<close> on a Redis
  that can be told to fail, and \<open>socket_service\<close> on the set of sockets and on the engine.

  \<^bold>\<open>How the model reads Go.\<close>  Records are records, maps are maps, \<open>int32\<close> and \<open>uint64\<close> are words; an error
  is a value of a sum or option, a panic or a loop that does not return is \<open>None\<close>.  The order of
  \<open>for range\<close> over a map, the clock, the heap gauge and every call to the outside are arguments or
  functions on a world state; so is \<open>float64\<close> rounding.  Strings are bytes.  There is no fuel: every
  loop of the model is structural or has a measure (\<open>wire_loop\<close> stops with \<open>None\<close> when a consumer of the
  parameter does not shorten its input, which the laws of \<open>wire\<close> exclude), and ticks, frames and
  sightings that may go on for ever are finite lists of any length.

  \<^bold>\<open>Where the model is coarser than the code.\<close>  \<open>Rebalance\<close>, \<open>Touch\<close> and \<open>Run\<close> make the manager's calls with
  the pass that decides them, while the code makes them after unlocking; the invariant of
  every reachable manager is about the manager alone, and \<open>late_calls_close_a_hot_bot\<close> shows what the
  gap costs.
  \<open>session\<close>, \<open>SyncClans\<close> and the dialling part of \<open>OpenHot\<close> are one step each, while the code
  releases its mutex within them.  \<open>Poll\<close> starts its poll at once; \<open>Submit\<close>, which may wait for a
  worker, is modelled on its own.  The messages that arrive during an acknowledged send are
  delivered by \<open>hot_frame\<close>, not by the send.  The two calls to Redis within \<open>Seen\<close> see one server time
  in the lemmas.

  \<^bold>\<open>Parameters.\<close>  Protowire, the gorilla socket, \<open>net/http\<close>, \<open>json.Unmarshal\<close>, the generated client
  \<open>mezonapi\<close>, the rate limiter, Redis and the consumer's handler are not under \<open>src/\<close>: each is an
  argument, with what the code relies on as hypotheses.

  \<^bold>\<open>Not modelled.\<close>  Log lines, the settings of the dialler and its buffer pool, and
  \<open>bench/scale/footprint_go.go\<close>, which measures memory.
\<close>

end
